(* ===== verification/Bridge_Prelude.thy ===== *)
theory Bridge_Prelude
  imports Main "HOL-Library.Word" "HOL-Library.List_Lexorder"
    "HOL-Library.Product_Lexorder"
begin

text \<open>
  Shared vocabulary of the development.

  \<^item> Rust's fixed-width integers as words, byte vectors as lists of bytes, and \<open>usize\<close> as a
    natural number with its 64-bit bound written out where the code uses checked arithmetic.
    A Rust \<open>String\<close> or \<open>&str\<close> is its UTF-8 byte sequence, which is what \<open>len\<close>,
    \<open>as_bytes\<close> and the derived ordering work on.
  \<^item> \<open>Result<T, E>\<close> as the sum \<open>'e + 'a\<close> with \<open>Inl\<close> the error, and the operators
    behind \<open>?\<close>, \<open>map_err\<close> and \<open>ok_or\<close>.
  \<^item> Slices, network byte order, UTF-8 validation.
  \<^item> \<open>BTreeMap\<close> as a key-sorted association list, with its contract as the locale
    \<open>ordered_map\<close>; the components that keep such maps use the facts of its
    interpretation \<open>bt\<close>.
\<close>

unbundle bit_operations_syntax

named_theorems wire_length \<open>lengths of encoded fields\<close>
named_theorems result_simps \<open>evaluation of the result operators\<close>

type_synonym u8 = "8 word"
type_synonym u16 = "16 word"
type_synonym u32 = "32 word"
type_synonym u64 = "64 word"
type_synonym bytes = "u8 list"
type_synonym ('e, 'a) result = "'e + 'a"

section \<open>Results\<close>

definition rbind :: "'e + 'a \<Rightarrow> ('a \<Rightarrow> 'e + 'b) \<Rightarrow> 'e + 'b" where
  "rbind r k = (case r of Inl e \<Rightarrow> Inl e | Inr a \<Rightarrow> k a)"

definition map_err :: "('e \<Rightarrow> 'f) \<Rightarrow> 'e + 'a \<Rightarrow> 'f + 'a" where
  "map_err f r = (case r of Inl e \<Rightarrow> Inl (f e) | Inr a \<Rightarrow> Inr a)"

definition ok_or :: "'e \<Rightarrow> 'a option \<Rightarrow> 'e + 'a" where
  "ok_or e x = (case x of None \<Rightarrow> Inl e | Some a \<Rightarrow> Inr a)"

definition result_ok :: "'e + 'a \<Rightarrow> 'a option" where
  "result_ok r = (case r of Inl _ \<Rightarrow> None | Inr a \<Rightarrow> Some a)"

definition is_err :: "'e + 'a \<Rightarrow> bool" where
  "is_err r = (case r of Inl _ \<Rightarrow> True | Inr _ \<Rightarrow> False)"

text \<open>\<open>iter().map(f).collect::<Result<Vec<_>, _>>()\<close>: the first error wins.\<close>

fun try_map :: "('a \<Rightarrow> 'e + 'b) \<Rightarrow> 'a list \<Rightarrow> 'e + 'b list" where
  "try_map f [] = Inr []"
| "try_map f (x # xs) = rbind (f x) (\<lambda>y. rbind (try_map f xs) (\<lambda>ys. Inr (y # ys)))"

text \<open>A \<open>for\<close> loop whose body may return early with an error.\<close>

fun try_fold :: "('s \<Rightarrow> 'a \<Rightarrow> 'e + 's) \<Rightarrow> 's \<Rightarrow> 'a list \<Rightarrow> 'e + 's" where
  "try_fold f s [] = Inr s"
| "try_fold f s (x # xs) = rbind (f s x) (\<lambda>t. try_fold f t xs)"

section \<open>Machine integers and slices\<close>

definition usize_max :: nat where
  "usize_max = 2 ^ 64 - 1"

definition u32_max :: nat where
  "u32_max = 2 ^ 32 - 1"

definition usize_checked_add :: "nat \<Rightarrow> nat \<Rightarrow> nat option" where
  "usize_checked_add a b = (if a + b \<le> usize_max then Some (a + b) else None)"

text \<open>\<open>u32::try_from(len)\<close> and \<open>u8::try_from(len)\<close> of a length.\<close>

definition u32_try_from :: "nat \<Rightarrow> u32 option" where
  "u32_try_from n = (if n \<le> u32_max then Some (word_of_nat n) else None)"

definition u8_try_from :: "nat \<Rightarrow> u8 option" where
  "u8_try_from n = (if n \<le> 255 then Some (word_of_nat n) else None)"

definition u16_checked_add :: "u16 \<Rightarrow> u16 \<Rightarrow> u16 option" where
  "u16_checked_add a b = (if unat a + unat b < 2 ^ 16 then Some (a + b) else None)"

definition u64_checked_add :: "u64 \<Rightarrow> u64 \<Rightarrow> u64 option" where
  "u64_checked_add a b = (if unat a + unat b < 2 ^ 64 then Some (a + b) else None)"

definition slice :: "'a list \<Rightarrow> nat \<Rightarrow> nat \<Rightarrow> 'a list" where
  "slice xs a b = take (b - a) (drop a xs)"

text \<open>\<open>xs.get(a..b)\<close>: \<open>None\<close> when the range is reversed or ends past the slice.\<close>

definition get_range :: "'a list \<Rightarrow> nat \<Rightarrow> nat \<Rightarrow> 'a list option" where
  "get_range xs a b = (if a \<le> b \<and> b \<le> length xs then Some (slice xs a b) else None)"

section \<open>Network byte order\<close>

fun be_bytes :: "nat \<Rightarrow> nat \<Rightarrow> bytes" where
  "be_bytes 0 x = []"
| "be_bytes (Suc k) x = be_bytes k (x div 256) @ [word_of_nat x]"

definition from_be :: "bytes \<Rightarrow> nat" where
  "from_be bs = foldl (\<lambda>acc b. acc * 256 + unat b) 0 bs"

definition u16_to_be_bytes :: "u16 \<Rightarrow> bytes" where
  "u16_to_be_bytes w = be_bytes 2 (unat w)"

definition u32_to_be_bytes :: "u32 \<Rightarrow> bytes" where
  "u32_to_be_bytes w = be_bytes 4 (unat w)"

definition u64_to_be_bytes :: "u64 \<Rightarrow> bytes" where
  "u64_to_be_bytes w = be_bytes 8 (unat w)"

definition u16_from_be_bytes :: "bytes \<Rightarrow> u16" where
  "u16_from_be_bytes bs = word_of_nat (from_be bs)"

definition u32_from_be_bytes :: "bytes \<Rightarrow> u32" where
  "u32_from_be_bytes bs = word_of_nat (from_be bs)"

definition u64_from_be_bytes :: "bytes \<Rightarrow> u64" where
  "u64_from_be_bytes bs = word_of_nat (from_be bs)"

section \<open>Strings\<close>

text \<open>An ASCII literal of the source as the bytes of a \<open>&str\<close>.\<close>

definition str :: "string \<Rightarrow> bytes" where
  "str s = map (\<lambda>c. word_of_nat (of_char c)) s"

definition in_range :: "u8 \<Rightarrow> u8 \<Rightarrow> u8 \<Rightarrow> bool" where
  "in_range lo hi b = (lo \<le> b \<and> b \<le> hi)"

text \<open>\<open>std::str::from_utf8\<close> succeeds exactly on the well-formed byte sequences of the
  Unicode standard (table 3-7).\<close>

fun utf8_valid :: "bytes \<Rightarrow> bool" where
  "utf8_valid [] = True"
| "utf8_valid (b # bs) =
    (if b < 0x80 then utf8_valid bs
     else if in_range 0xC2 0xDF b then
       (case bs of c # rest \<Rightarrow> in_range 0x80 0xBF c \<and> utf8_valid rest | _ \<Rightarrow> False)
     else if in_range 0xE0 0xEF b then
       (case bs of c # d # rest \<Rightarrow>
          in_range (if b = 0xE0 then 0xA0 else 0x80) (if b = 0xED then 0x9F else 0xBF) c
          \<and> in_range 0x80 0xBF d \<and> utf8_valid rest
        | _ \<Rightarrow> False)
     else if in_range 0xF0 0xF4 b then
       (case bs of c # d # e # rest \<Rightarrow>
          in_range (if b = 0xF0 then 0x90 else 0x80) (if b = 0xF4 then 0x8F else 0xBF) c
          \<and> in_range 0x80 0xBF d \<and> in_range 0x80 0xBF e \<and> utf8_valid rest
        | _ \<Rightarrow> False)
     else False)"

definition is_ascii_lowercase :: "u8 \<Rightarrow> bool" where
  "is_ascii_lowercase b = in_range 0x61 0x7A b"

definition is_ascii_digit :: "u8 \<Rightarrow> bool" where
  "is_ascii_digit b = in_range 0x30 0x39 b"

section \<open>BTreeMap\<close>

type_synonym ('k, 'v) btree_map = "('k \<times> 'v) list"

definition bt_wf :: "('k::linorder, 'v) btree_map \<Rightarrow> bool" where
  "bt_wf m = sorted_wrt (<) (map fst m)"

fun bt_insert :: "'k::linorder \<Rightarrow> 'v \<Rightarrow> ('k, 'v) btree_map \<Rightarrow> ('k, 'v) btree_map" where
  "bt_insert k v [] = [(k, v)]"
| "bt_insert k v (p # m) =
    (if k < fst p then (k, v) # p # m
     else if fst p < k then p # bt_insert k v m
     else (k, v) # m)"

definition bt_get :: "('k, 'v) btree_map \<Rightarrow> 'k \<Rightarrow> 'v option" where
  "bt_get m k = map_of m k"

definition bt_remove :: "'k \<Rightarrow> ('k, 'v) btree_map \<Rightarrow> ('k, 'v) btree_map" where
  "bt_remove k m = filter (\<lambda>p. fst p \<noteq> k) m"

definition bt_contains :: "('k, 'v) btree_map \<Rightarrow> 'k \<Rightarrow> bool" where
  "bt_contains m k = (bt_get m k \<noteq> None)"

section \<open>Lemmas on results\<close>

lemma rbind_simps [simp, result_simps]:
  "rbind (Inl e) k = Inl e"
  "rbind (Inr a) k = k a"
  by (simp_all add: rbind_def)

lemma rbind_eq_Inr [simp]: "rbind r k = Inr b \<longleftrightarrow> (\<exists>a. r = Inr a \<and> k a = Inr b)"
  by (cases r) simp_all

lemma rbind_eq_Inl: "rbind r k = Inl e \<longleftrightarrow> r = Inl e \<or> (\<exists>a. r = Inr a \<and> k a = Inl e)"
  by (cases r) auto

lemma map_err_simps [simp, result_simps]:
  "map_err f (Inl e) = Inl (f e)"
  "map_err f (Inr a) = Inr a"
  by (simp_all add: map_err_def)

lemma map_err_eq_Inr [simp]: "map_err f r = Inr a \<longleftrightarrow> r = Inr a"
  by (cases r) simp_all

lemma map_err_eq_Inl: "map_err f r = Inl e \<longleftrightarrow> (\<exists>d. r = Inl d \<and> e = f d)"
  by (cases r) auto

lemma ok_or_simps [simp, result_simps]:
  "ok_or e None = Inl e"
  "ok_or e (Some a) = Inr a"
  by (simp_all add: ok_or_def)

lemma ok_or_eq_Inr [simp]: "ok_or e x = Inr a \<longleftrightarrow> x = Some a"
  by (cases x) simp_all

lemma ok_or_eq_Inl: "ok_or e x = Inl d \<longleftrightarrow> x = None \<and> d = e"
  by (cases x) auto

lemma result_ok_simps [simp, result_simps]:
  "result_ok (Inl e) = None"
  "result_ok (Inr a) = Some a"
  by (simp_all add: result_ok_def)

lemma is_err_simps [simp, result_simps]:
  "is_err (Inl e)"
  "\<not> is_err (Inr a)"
  by (simp_all add: is_err_def)

lemma is_err_iff: "is_err r \<longleftrightarrow> (\<exists>e. r = Inl e)"
  by (cases r) simp_all

lemma try_map_Inr_length: "try_map f xs = Inr ys \<Longrightarrow> length ys = length xs"
  by (induction xs arbitrary: ys) auto

lemma try_map_all_Inr: "(\<And>x. x \<in> set xs \<Longrightarrow> f x = Inr (g x)) \<Longrightarrow> try_map f xs = Inr (map g xs)"
  by (induction xs) simp_all

lemma try_map_eq_Inr: "try_map f xs = Inr ys \<longleftrightarrow> map f xs = map Inr ys"
  by (induction xs arbitrary: ys) (auto simp: Cons_eq_map_conv)

lemma try_fold_append:
  "try_fold f s (xs @ ys) = rbind (try_fold f s xs) (\<lambda>t. try_fold f t ys)"
proof (induction xs arbitrary: s)
  case (Cons x xs)
  then show ?case by (cases "f s x") simp_all
qed simp

lemma try_fold_invariant:
  assumes "try_fold f s xs = Inr t" and "P s"
    and "\<And>s x t. x \<in> set xs \<Longrightarrow> P s \<Longrightarrow> f s x = Inr t \<Longrightarrow> P t"
  shows "P t"
  using assms
proof (induction xs arbitrary: s)
  case (Cons x xs)
  from Cons.prems(1) obtain u where u: "f s x = Inr u" "try_fold f u xs = Inr t" by auto
  have "P u" using Cons.prems(2,3) u(1) by (meson list.set_intros(1))
  with u(2) show ?case using Cons.IH Cons.prems(3) by (meson list.set_intros(2))
qed simp

section \<open>Lemmas on integers and slices\<close>

lemma unat_bounds:
  "unat (a :: u8) < 256" "unat (b :: u16) < 65536"
  "unat (c :: u32) < 2 ^ 32" "unat (d :: u64) < 2 ^ 64"
  using unsigned_less [of a, where 'a = nat] unsigned_less [of b, where 'a = nat]
    unsigned_less [of c, where 'a = nat] unsigned_less [of d, where 'a = nat]
  by simp_all

lemma u32_try_from_Some [simp]:
  "u32_try_from n = Some w \<longleftrightarrow> n \<le> u32_max \<and> w = word_of_nat n"
  by (auto simp: u32_try_from_def)

lemma unat_u32_of_nat [simp]: "n \<le> u32_max \<Longrightarrow> unat (word_of_nat n :: u32) = n"
  by (simp add: u32_max_def unat_of_nat)

lemma unat_u8_of_nat: "n \<le> 255 \<Longrightarrow> unat (word_of_nat n :: u8) = n"
  by (simp add: unat_of_nat)

lemma unat_u32_le_max [simp]: "unat (w :: u32) \<le> u32_max"
  using unat_bounds(3) [of w] by (simp add: u32_max_def)

lemma u32_max_le_usize_max: "u32_max \<le> usize_max"
  by (simp add: u32_max_def usize_max_def)

lemma u16_checked_add_Some:
  "u16_checked_add a b = Some c \<longleftrightarrow> unat a + unat b < 2 ^ 16 \<and> c = a + b"
  by (auto simp: u16_checked_add_def)

lemma unat_u16_checked_add: "u16_checked_add a b = Some c \<Longrightarrow> unat c = unat a + unat b"
  by (auto simp: u16_checked_add_Some unat_word_ariths)

lemma unat_u64_checked_add: "u64_checked_add a b = Some c \<Longrightarrow> unat c = unat a + unat b"
  by (auto simp: u64_checked_add_def unat_word_ariths split: if_splits)

lemma length_slice: "b \<le> length xs \<Longrightarrow> length (slice xs a b) = b - a"
  by (simp add: slice_def)

lemma get_range_Some:
  "get_range xs a b = Some ys \<longleftrightarrow> a \<le> b \<and> b \<le> length xs \<and> ys = slice xs a b"
  by (auto simp: get_range_def)

lemma get_range_length: "get_range xs a b = Some ys \<Longrightarrow> length ys = b - a"
  by (auto simp: get_range_Some length_slice)

lemma slice_append_right:
  "length xs \<le> a \<Longrightarrow> slice (xs @ ys) a b = slice ys (a - length xs) (b - length xs)"
  by (simp add: slice_def)

lemma slice_append_left: "b \<le> length xs \<Longrightarrow> slice (xs @ ys) a b = slice xs a b"
  by (cases "a \<le> b") (simp_all add: slice_def)

lemma slice_prefix: "slice (xs @ ys) 0 (length xs) = xs"
  by (simp add: slice_def)

lemma get_range_shift:
  "get_range (xs @ ys) (length xs + a) (length xs + b) = get_range ys a b"
  by (auto simp: get_range_def slice_def)

section \<open>Lemmas on network byte order\<close>

lemma length_be_bytes [simp, wire_length]: "length (be_bytes k x) = k"
  by (induction k arbitrary: x) simp_all

lemma length_int_be_bytes [simp, wire_length]:
  "length (u16_to_be_bytes a) = 2"
  "length (u32_to_be_bytes b) = 4"
  "length (u64_to_be_bytes c) = 8"
  by (simp_all add: u16_to_be_bytes_def u32_to_be_bytes_def u64_to_be_bytes_def)

lemma from_be_Nil [simp]: "from_be [] = 0"
  by (simp add: from_be_def)

lemma from_be_snoc [simp]: "from_be (bs @ [b]) = from_be bs * 256 + unat b"
  by (simp add: from_be_def)

lemma from_be_be_bytes: "from_be (be_bytes k x) = x mod 256 ^ k"
proof (induction k arbitrary: x)
  case (Suc k)
  have "x mod (256 ^ k * 256) = (x div 256 mod 256 ^ k) * 256 + x mod 256"
    using mod_mult2_eq [of x 256 "256 ^ k"] by (simp add: ac_simps)
  with Suc show ?case by (simp add: unat_of_nat ac_simps)
qed simp

lemma from_be_bound: "from_be bs < 256 ^ length bs"
proof (induction bs rule: rev_induct)
  case (snoc b bs)
  have "unat b < 256" by (rule unat_bounds)
  with snoc show ?case by simp
qed simp

lemma be_bytes_from_be: "be_bytes (length bs) (from_be bs) = bs"
proof (induction bs rule: rev_induct)
  case (snoc b bs)
  have "unat b < 256" by (rule unat_bounds)
  then have "(from_be bs * 256 + unat b) div 256 = from_be bs" by simp
  moreover have "word_of_nat (from_be bs * 256 + unat b) = b"
  proof -
    have "(256 :: u8) = 0" by simp
    then show ?thesis by (simp only: of_nat_add of_nat_mult of_nat_numeral) simp
  qed
  ultimately show ?case using snoc by simp
qed simp

lemma int_be_roundtrip [simp]:
  "u16_from_be_bytes (u16_to_be_bytes a) = a"
  "u32_from_be_bytes (u32_to_be_bytes b) = b"
  "u64_from_be_bytes (u64_to_be_bytes c) = c"
  using unat_bounds(2) [of a] unat_bounds(3) [of b] unat_bounds(4) [of c]
  by (simp_all add: u16_from_be_bytes_def u16_to_be_bytes_def u32_from_be_bytes_def
      u32_to_be_bytes_def u64_from_be_bytes_def u64_to_be_bytes_def from_be_be_bytes)

lemma be_int_roundtrip:
  "length bs = 2 \<Longrightarrow> u16_to_be_bytes (u16_from_be_bytes bs) = bs"
  "length bs = 4 \<Longrightarrow> u32_to_be_bytes (u32_from_be_bytes bs) = bs"
  "length bs = 8 \<Longrightarrow> u64_to_be_bytes (u64_from_be_bytes bs) = bs"
  using from_be_bound [of bs] be_bytes_from_be [of bs]
  by (simp_all add: u16_from_be_bytes_def u16_to_be_bytes_def u32_from_be_bytes_def
      u32_to_be_bytes_def u64_from_be_bytes_def u64_to_be_bytes_def unat_of_nat)

section \<open>Lemmas on strings\<close>

lemma length_str [simp, wire_length]: "length (str s) = length s"
  by (simp add: str_def)

lemma utf8_valid_ascii: "(\<And>b. b \<in> set bs \<Longrightarrow> b < 0x80) \<Longrightarrow> utf8_valid bs"
  by (induction bs) auto

section \<open>The contract of an ordered map\<close>

text \<open>
  What a client of \<open>BTreeMap\<close> relies on: lookups after an insertion, iteration in strictly
  ascending key order, and that the iteration lists exactly the bindings.
\<close>

locale ordered_map =
  fixes empty :: "'m"
    and insert :: "'k::linorder \<Rightarrow> 'v \<Rightarrow> 'm \<Rightarrow> 'm"
    and lookup :: "'m \<Rightarrow> 'k \<Rightarrow> 'v option"
    and entries :: "'m \<Rightarrow> ('k \<times> 'v) list"
    and wf :: "'m \<Rightarrow> bool"
  assumes wf_empty: "wf empty"
    and wf_insert: "wf m \<Longrightarrow> wf (insert k v m)"
    and lookup_empty: "lookup empty k = None"
    and lookup_insert: "wf m \<Longrightarrow> lookup (insert k v m) = (lookup m)(k \<mapsto> v)"
    and entries_sorted: "wf m \<Longrightarrow> sorted_wrt (<) (map fst (entries m))"
    and entries_lookup: "wf m \<Longrightarrow> map_of (entries m) = lookup m"
begin

lemma distinct_keys: "wf m \<Longrightarrow> distinct (map fst (entries m))"
  using entries_sorted strict_sorted_iff by blast

lemma in_entries_iff: "wf m \<Longrightarrow> (k, v) \<in> set (entries m) \<longleftrightarrow> lookup m k = Some v"
  using distinct_keys entries_lookup by (metis map_of_eq_Some_iff)

lemma keys_dom: "wf m \<Longrightarrow> fst ` set (entries m) = dom (lookup m)"
  using entries_lookup by (metis dom_map_of_conv_image_fst)

lemma entries_unique:
  assumes "wf m" "sorted_wrt (<) (map fst ps)" "map_of ps = lookup m"
  shows "entries m = ps"
proof -
  have d: "distinct (map fst ps)" using assms(2) strict_sorted_iff by blast
  have "set (entries m) = set ps"
    using assms(1,3) d distinct_keys entries_lookup
    by (auto simp flip: map_of_eq_Some_iff)
  moreover have "sorted (map fst ps)" "sorted (map fst (entries m))"
    using assms(1,2) entries_sorted strict_sorted_iff by blast+
  ultimately show ?thesis
    using d distinct_keys [OF assms(1)] map_sorted_distinct_set_unique
    by (metis distinct_map inj_on_Un sup.idem)
qed

lemma entries_extensional:
  "wf m \<Longrightarrow> wf n \<Longrightarrow> lookup m = lookup n \<Longrightarrow> entries m = entries n"
  using entries_lookup entries_sorted entries_unique by metis

text \<open>Inserting a key beyond all present ones appends it to the iteration.\<close>

lemma entries_insert_beyond:
  assumes "wf m" "\<forall>k' \<in> fst ` set (entries m). k' < k"
  shows "entries (insert k v m) = entries m @ [(k, v)]"
proof (rule entries_unique)
  show "wf (insert k v m)" using assms(1) by (rule wf_insert)
  show "sorted_wrt (<) (map fst (entries m @ [(k, v)]))"
    using assms entries_sorted by (auto simp: sorted_wrt_append)
  have "k \<notin> fst ` set (entries m)" using assms(2) by blast
  then show "map_of (entries m @ [(k, v)]) = lookup (insert k v m)"
    using assms(1) entries_lookup lookup_insert
    by (auto simp: map_add_def fun_eq_iff map_of_eq_None_iff [symmetric] split: option.splits)
qed

lemma wf_fold: "wf m \<Longrightarrow> wf (foldl (\<lambda>m (k, v). insert k v m) m ps)"
  by (induction ps arbitrary: m) (auto simp: wf_insert)

lemma lookup_fold:
  "wf m \<Longrightarrow> distinct (map fst ps) \<Longrightarrow>
   lookup (foldl (\<lambda>m (k, v). insert k v m) m ps) = lookup m ++ map_of ps"
proof (induction ps arbitrary: m)
  case (Cons p ps)
  obtain k v where p: "p = (k, v)" by (cases p)
  have "lookup (foldl (\<lambda>m (k, v). insert k v m) m (p # ps)) = lookup (insert k v m) ++ map_of ps"
    using Cons p by (simp add: wf_insert)
  also have "\<dots> = lookup m ++ map_of (p # ps)"
    using Cons.prems p
    by (auto simp: lookup_insert map_add_def fun_eq_iff dest: map_of_SomeD split: option.splits)
      force
  finally show ?case .
qed simp

text \<open>Inserting the entries of a map one by one into an empty map rebuilds it.\<close>

lemma entries_rebuild:
  assumes "sorted_wrt (<) (map fst ps)"
  shows "entries (foldl (\<lambda>m (k, v). insert k v m) empty ps) = ps"
proof -
  have d: "distinct (map fst ps)" using assms strict_sorted_iff by blast
  have "lookup (foldl (\<lambda>m (k, v). insert k v m) empty ps) = map_of ps"
    by (simp add: lookup_fold wf_empty d lookup_empty map_add_def fun_eq_iff split: option.splits)
  then show ?thesis
    by (intro entries_unique) (simp_all add: assms wf_fold wf_empty)
qed

end

lemma bt_insert_fst: "fst ` set (bt_insert k v m) = Set.insert k (fst ` set m)"
  by (induction m) (auto simp: not_less)

lemma bt_wf_Cons: "bt_wf (p # m) \<longleftrightarrow> (\<forall>k \<in> fst ` set m. fst p < k) \<and> bt_wf m"
  by (auto simp: bt_wf_def)

lemma bt_insert_wf: "bt_wf m \<Longrightarrow> bt_wf (bt_insert k v m)"
proof (induction m)
  case (Cons p m)
  then show ?case
    by (cases k "fst p" rule: linorder_cases) (auto simp: bt_wf_Cons bt_insert_fst)
qed (simp add: bt_wf_def)

lemma bt_insert_map_of: "bt_wf m \<Longrightarrow> map_of (bt_insert k v m) = (map_of m)(k \<mapsto> v)"
  by (induction m) (auto simp: bt_wf_Cons fun_eq_iff)

lemma bt_remove_wf: "bt_wf m \<Longrightarrow> bt_wf (bt_remove k m)"
  by (induction m) (auto simp: bt_wf_Cons bt_remove_def)

lemma bt_remove_fst: "fst ` set (bt_remove k m) = fst ` set m - {k}"
  by (auto simp: bt_remove_def)

lemma bt_get_remove: "bt_get (bt_remove k m) j = (if j = k then None else bt_get m j)"
  by (induction m) (auto simp: bt_get_def bt_remove_def)

lemma bt_get_insert: "bt_wf m \<Longrightarrow> bt_get (bt_insert k v m) j = (if j = k then Some v else bt_get m j)"
  by (simp add: bt_get_def bt_insert_map_of)

lemma bt_get_None: "bt_get m k = None \<longleftrightarrow> k \<notin> fst ` set m"
  by (simp add: bt_get_def map_of_eq_None_iff)

lemma bt_get_Some_in: "bt_get m k = Some v \<Longrightarrow> (k, v) \<in> set m"
  by (simp add: bt_get_def map_of_SomeD)

lemma bt_contains_iff: "bt_contains m k \<longleftrightarrow> k \<in> fst ` set m"
  by (simp add: bt_contains_def bt_get_None)

lemma bt_insert_set: "set (bt_insert k v m) \<subseteq> Set.insert (k, v) (set m)"
  by (induction m) auto

lemma bt_insert_fresh: "k \<notin> fst ` set m \<Longrightarrow> set (bt_insert k v m) = Set.insert (k, v) (set m)"
  by (induction m) auto

interpretation bt: ordered_map "[]" bt_insert bt_get "\<lambda>m. m" bt_wf
  by unfold_locales
    (simp_all add: bt_wf_def bt_insert_wf [unfolded bt_wf_def] bt_get_def fun_eq_iff
      bt_insert_map_of [unfolded bt_wf_def])

end
