(* ===== verification/Wire_Protocol.thy ===== *)
theory Wire_Protocol
  imports Bridge_Prelude
begin

text \<open>
  The wire primitives of crates/moonlight-bridge-protocol/src/lib.rs: frame kinds, the frame
  and its fixed 24-byte header, protocol-v2 peer settings, trace contexts and error codes.
  Every encoder and decoder of the file is translated with its checks in the order of the
  source; a byte array of fixed length is a list, and the theorems state the length where the
  Rust type carries it.
\<close>

section \<open>Constants\<close>

definition MAGIC :: u32 where "MAGIC = 0x4D4C4252"
definition VERSION :: u8 where "VERSION = 2"
definition HEADER_LEN :: nat where "HEADER_LEN = 24"
definition DEFAULT_MAX_BODY_LEN :: u32 where "DEFAULT_MAX_BODY_LEN = 8 * 1024 * 1024"
definition DEFAULT_MAX_IN_FLIGHT :: u32 where "DEFAULT_MAX_IN_FLIGHT = 256"
definition COMPRESSION_CODEC_NONE :: u32 where "COMPRESSION_CODEC_NONE = 1"
definition COMPRESSION_CODEC_ZSTD :: u32 where "COMPRESSION_CODEC_ZSTD = push_bit 1 1"
definition FLAG_HAS_METADATA :: u16 where "FLAG_HAS_METADATA = 1"
definition KNOWN_FLAGS :: u16 where "KNOWN_FLAGS = FLAG_HAS_METADATA"
definition TRACE_CONTEXT_LEN :: nat where "TRACE_CONTEXT_LEN = 25"

definition FEATURE_DEADLINES :: u64 where "FEATURE_DEADLINES = 1"
definition FEATURE_CANCELLATION :: u64 where "FEATURE_CANCELLATION = push_bit 1 1"
definition FEATURE_HEARTBEAT :: u64 where "FEATURE_HEARTBEAT = push_bit 2 1"
definition FEATURE_TRACE_CONTEXT :: u64 where "FEATURE_TRACE_CONTEXT = push_bit 3 1"
definition FEATURE_SERVER_EVENTS :: u64 where "FEATURE_SERVER_EVENTS = push_bit 4 1"
definition FEATURE_HEALTH :: u64 where "FEATURE_HEALTH = push_bit 5 1"
definition FEATURE_SERVER_STREAMING :: u64 where "FEATURE_SERVER_STREAMING = push_bit 6 1"

definition SERVER_FEATURES :: u64 where
  "SERVER_FEATURES = FEATURE_DEADLINES OR FEATURE_CANCELLATION OR FEATURE_HEARTBEAT
     OR FEATURE_TRACE_CONTEXT OR FEATURE_SERVER_EVENTS OR FEATURE_HEALTH
     OR FEATURE_SERVER_STREAMING"

section \<open>Errors\<close>

datatype ProtocolError =
    InvalidMagic u32
  | UnsupportedVersion u8
  | UnknownKind u8
  | UnsupportedFlags u16
  | BodyTooLarge u32
  | InvalidSettingsLength nat
  | InvalidSettingsValue
  | InvalidTraceContextLength nat
  | InvalidTraceSampling u8
  | InvalidMetadataLength u32 nat
  | MetadataTooLarge u32
  | MetadataValueTooLarge u32
  | TooManyMetadataEntries u16
  | InvalidMetadataEntryLength
  | DuplicateMetadataKey
  | NonCanonicalMetadataOrder
  | InvalidUserMetadataKey
  | UnknownCriticalMetadataKey u16
  | UnknownErrorCode u16

section \<open>Trace context\<close>

record TraceContext =
  trace_id :: bytes
  parent_span_id :: bytes
  sampled :: bool

definition trace_context_encode_into :: "TraceContext \<Rightarrow> bytes \<Rightarrow> bytes" where
  "trace_context_encode_into t out =
     out @ trace_id t @ parent_span_id t @ [if sampled t then 1 else 0]"

definition trace_context_decode :: "bytes \<Rightarrow> ProtocolError + TraceContext" where
  "trace_context_decode input =
    (if length input < TRACE_CONTEXT_LEN then Inl (InvalidTraceContextLength (length input))
     else
       rbind (if input ! 24 = 0 then Inr False
              else if input ! 24 = 1 then Inr True
              else Inl (InvalidTraceSampling (input ! 24)))
         (\<lambda>smp. Inr \<lparr>trace_id = slice input 0 16, parent_span_id = slice input 16 24,
                     sampled = smp\<rparr>))"

text \<open>The array lengths that the Rust type \<open>[u8; 16]\<close> and \<open>[u8; 8]\<close> guarantee.\<close>

definition trace_context_wf :: "TraceContext \<Rightarrow> bool" where
  "trace_context_wf t = (length (trace_id t) = 16 \<and> length (parent_span_id t) = 8)"

section \<open>Frame kinds\<close>

datatype FrameKind =
    Request | Response | Error | Hello | Welcome | Cancel | Ping | Pong | Goodbye
  | Health | HealthStatus | Event | StreamItem | StreamEnd | StreamCredit | GoAway

fun frame_kind_as_u8 :: "FrameKind \<Rightarrow> u8" where
  "frame_kind_as_u8 Request = 1"
| "frame_kind_as_u8 Response = 2"
| "frame_kind_as_u8 Error = 3"
| "frame_kind_as_u8 Hello = 16"
| "frame_kind_as_u8 Welcome = 17"
| "frame_kind_as_u8 Cancel = 18"
| "frame_kind_as_u8 Ping = 19"
| "frame_kind_as_u8 Pong = 20"
| "frame_kind_as_u8 Goodbye = 21"
| "frame_kind_as_u8 Health = 22"
| "frame_kind_as_u8 HealthStatus = 23"
| "frame_kind_as_u8 Event = 24"
| "frame_kind_as_u8 StreamItem = 25"
| "frame_kind_as_u8 StreamEnd = 26"
| "frame_kind_as_u8 StreamCredit = 27"
| "frame_kind_as_u8 GoAway = 28"

definition frame_kind_try_from :: "u8 \<Rightarrow> ProtocolError + FrameKind" where
  "frame_kind_try_from v =
    (if v = 1 then Inr Request
     else if v = 2 then Inr Response
     else if v = 3 then Inr Error
     else if v = 16 then Inr Hello
     else if v = 17 then Inr Welcome
     else if v = 18 then Inr Cancel
     else if v = 19 then Inr Ping
     else if v = 20 then Inr Pong
     else if v = 21 then Inr Goodbye
     else if v = 22 then Inr Health
     else if v = 23 then Inr HealthStatus
     else if v = 24 then Inr Event
     else if v = 25 then Inr StreamItem
     else if v = 26 then Inr StreamEnd
     else if v = 27 then Inr StreamCredit
     else if v = 28 then Inr GoAway
     else Inl (UnknownKind v))"

section \<open>Frames\<close>

record Frame =
  kind :: FrameKind
  flags :: u16
  method_id :: u32
  request_id :: u64
  body :: bytes

record DecodedHeader =
  hdr_kind :: FrameKind
  hdr_flags :: u16
  hdr_body_len :: u32
  hdr_method_id :: u32
  hdr_request_id :: u64

definition frame_new :: "FrameKind \<Rightarrow> u32 \<Rightarrow> u64 \<Rightarrow> bytes \<Rightarrow> Frame" where
  "frame_new k m r b = \<lparr>kind = k, flags = 0, method_id = m, request_id = r, body = b\<rparr>"

definition frame_with_flags :: "Frame \<Rightarrow> u16 \<Rightarrow> Frame" where
  "frame_with_flags f fl = f\<lparr>flags := fl\<rparr>"

definition frame_encode_into :: "Frame \<Rightarrow> bytes \<Rightarrow> ProtocolError + bytes" where
  "frame_encode_into f out =
    (if flags f AND NOT KNOWN_FLAGS \<noteq> 0 then Inl (UnsupportedFlags (flags f))
     else
       rbind (ok_or (BodyTooLarge (word_of_nat u32_max)) (u32_try_from (length (body f))))
         (\<lambda>body_len. Inr (out
            @ u32_to_be_bytes MAGIC
            @ [VERSION]
            @ [frame_kind_as_u8 (kind f)]
            @ u16_to_be_bytes (flags f)
            @ u32_to_be_bytes body_len
            @ u32_to_be_bytes (method_id f)
            @ u64_to_be_bytes (request_id f)
            @ body f)))"

definition frame_encode :: "Frame \<Rightarrow> ProtocolError + bytes" where
  "frame_encode f = frame_encode_into f []"

definition decode_header :: "bytes \<Rightarrow> u32 \<Rightarrow> ProtocolError + DecodedHeader" where
  "decode_header header max_body_len =
    (let magic = u32_from_be_bytes (slice header 0 4) in
     if magic \<noteq> MAGIC then Inl (InvalidMagic magic)
     else if header ! 4 \<noteq> VERSION then Inl (UnsupportedVersion (header ! 4))
     else rbind (frame_kind_try_from (header ! 5)) (\<lambda>k.
       let fl = u16_from_be_bytes (slice header 6 8) in
       if fl AND NOT KNOWN_FLAGS \<noteq> 0 then Inl (UnsupportedFlags fl)
       else
         let len = u32_from_be_bytes (slice header 8 12) in
         if len > max_body_len then Inl (BodyTooLarge len)
         else Inr \<lparr>hdr_kind = k, hdr_flags = fl, hdr_body_len = len,
                   hdr_method_id = u32_from_be_bytes (slice header 12 16),
                   hdr_request_id = u64_from_be_bytes (slice header 16 24)\<rparr>))"

section \<open>Peer settings\<close>

record PeerSettingsV2 =
  max_body_len :: u32
  max_decoded_body_len :: u32
  max_metadata_len :: u32
  max_in_flight :: u32
  max_concurrent_streams :: u32
  initial_stream_credit :: u32
  compression_codecs :: u32
  features :: u64
  diagnostic_features :: u64

definition SETTINGS_BODY_LEN :: nat where "SETTINGS_BODY_LEN = 44"

definition settings_encode :: "PeerSettingsV2 \<Rightarrow> bytes" where
  "settings_encode s =
     u32_to_be_bytes (max_body_len s)
     @ u32_to_be_bytes (max_decoded_body_len s)
     @ u32_to_be_bytes (max_metadata_len s)
     @ u32_to_be_bytes (max_in_flight s)
     @ u32_to_be_bytes (max_concurrent_streams s)
     @ u32_to_be_bytes (initial_stream_credit s)
     @ u32_to_be_bytes (compression_codecs s)
     @ u64_to_be_bytes (features s)
     @ u64_to_be_bytes (diagnostic_features s)"

definition settings_decode :: "bytes \<Rightarrow> ProtocolError + PeerSettingsV2" where
  "settings_decode b =
    (if length b \<noteq> SETTINGS_BODY_LEN then Inl (InvalidSettingsLength (length b))
     else
       let s = \<lparr>max_body_len = u32_from_be_bytes (slice b 0 4),
                max_decoded_body_len = u32_from_be_bytes (slice b 4 8),
                max_metadata_len = u32_from_be_bytes (slice b 8 12),
                max_in_flight = u32_from_be_bytes (slice b 12 16),
                max_concurrent_streams = u32_from_be_bytes (slice b 16 20),
                initial_stream_credit = u32_from_be_bytes (slice b 20 24),
                compression_codecs = u32_from_be_bytes (slice b 24 28),
                features = u64_from_be_bytes (slice b 28 36),
                diagnostic_features = u64_from_be_bytes (slice b 36 44)\<rparr>
       in if max_body_len s = 0
             \<or> max_decoded_body_len s = 0
             \<or> max_metadata_len s = 0
             \<or> max_in_flight s = 0
             \<or> max_concurrent_streams s = 0
             \<or> initial_stream_credit s = 0
             \<or> compression_codecs s AND 1 = 0
          then Inl InvalidSettingsValue
          else Inr s)"

definition settings_default :: PeerSettingsV2 where
  "settings_default =
    \<lparr>max_body_len = DEFAULT_MAX_BODY_LEN,
     max_decoded_body_len = 16 * 1024 * 1024,
     max_metadata_len = 16 * 1024,
     max_in_flight = DEFAULT_MAX_IN_FLIGHT,
     max_concurrent_streams = 64,
     initial_stream_credit = 32,
     compression_codecs = COMPRESSION_CODEC_NONE OR COMPRESSION_CODEC_ZSTD,
     features = SERVER_FEATURES,
     diagnostic_features = 0\<rparr>"

section \<open>Error codes\<close>

datatype ErrorCode =
    UnknownMethod | InvalidRequest | DeadlineExceeded | Cancelled | ResourceExhausted
  | Internal | Unauthenticated | PermissionDenied | Unavailable | CompressionFailure
  | ReplayGap | FailedPrecondition | UnsupportedProtocol

fun error_code_as_u16 :: "ErrorCode \<Rightarrow> u16" where
  "error_code_as_u16 UnknownMethod = 1"
| "error_code_as_u16 InvalidRequest = 2"
| "error_code_as_u16 DeadlineExceeded = 3"
| "error_code_as_u16 Cancelled = 4"
| "error_code_as_u16 ResourceExhausted = 5"
| "error_code_as_u16 Internal = 6"
| "error_code_as_u16 Unauthenticated = 7"
| "error_code_as_u16 PermissionDenied = 8"
| "error_code_as_u16 Unavailable = 9"
| "error_code_as_u16 CompressionFailure = 10"
| "error_code_as_u16 ReplayGap = 11"
| "error_code_as_u16 FailedPrecondition = 12"
| "error_code_as_u16 UnsupportedProtocol = 13"

definition error_code_encode :: "ErrorCode \<Rightarrow> bytes \<Rightarrow> bytes" where
  "error_code_encode c message = u16_to_be_bytes (error_code_as_u16 c) @ message"

definition error_code_try_from :: "u16 \<Rightarrow> ProtocolError + ErrorCode" where
  "error_code_try_from v =
    (if v = 1 then Inr UnknownMethod
     else if v = 2 then Inr InvalidRequest
     else if v = 3 then Inr DeadlineExceeded
     else if v = 4 then Inr Cancelled
     else if v = 5 then Inr ResourceExhausted
     else if v = 6 then Inr Internal
     else if v = 7 then Inr Unauthenticated
     else if v = 8 then Inr PermissionDenied
     else if v = 9 then Inr Unavailable
     else if v = 10 then Inr CompressionFailure
     else if v = 11 then Inr ReplayGap
     else if v = 12 then Inr FailedPrecondition
     else if v = 13 then Inr UnsupportedProtocol
     else Inl (UnknownErrorCode v))"

section \<open>Lemmas\<close>

lemma slice_join: "a \<le> b \<Longrightarrow> b \<le> c \<Longrightarrow> slice xs a b @ slice xs b c = slice xs a c"
  unfolding slice_def by (metis add_diff_inverse_nat diff_add_assoc2 drop_drop le_add_diff_inverse
      le_add_diff_inverse2 not_less take_add)

lemma slice_join_assoc:
  "a \<le> b \<Longrightarrow> b \<le> c \<Longrightarrow> slice xs a b @ slice xs b c @ ys = slice xs a c @ ys"
  using slice_join by (metis append.assoc)

lemma slice_all: "length xs = n \<Longrightarrow> slice xs 0 n = xs"
  by (simp add: slice_def)

lemma slice_single: "i < length xs \<Longrightarrow> [xs ! i] = slice xs i (Suc i)"
  by (simp add: slice_def take_Suc_conv_app_nth)

lemma frame_kind_roundtrip [simp]: "frame_kind_try_from (frame_kind_as_u8 k) = Inr k"
  by (cases k) (simp_all add: frame_kind_try_from_def)

lemma frame_kind_try_from_Inr: "frame_kind_try_from v = Inr k \<longleftrightarrow> v = frame_kind_as_u8 k"
  by (auto simp: frame_kind_try_from_def split: if_splits)
     (cases k; simp)+

lemma error_code_roundtrip [simp]: "error_code_try_from (error_code_as_u16 c) = Inr c"
  by (cases c) (simp_all add: error_code_try_from_def)

lemma frame_new_sel [simp]:
  "kind (frame_new k m r b) = k" "flags (frame_new k m r b) = 0"
  "method_id (frame_new k m r b) = m" "request_id (frame_new k m r b) = r"
  "body (frame_new k m r b) = b"
  by (simp_all add: frame_new_def)

lemma frame_with_flags_sel [simp]:
  "kind (frame_with_flags f fl) = kind f" "flags (frame_with_flags f fl) = fl"
  "method_id (frame_with_flags f fl) = method_id f"
  "request_id (frame_with_flags f fl) = request_id f" "body (frame_with_flags f fl) = body f"
  by (simp_all add: frame_with_flags_def)

text \<open>The header bytes a frame is encoded with.\<close>

definition header_bytes :: "DecodedHeader \<Rightarrow> bytes" where
  "header_bytes h =
     u32_to_be_bytes MAGIC @ [VERSION] @ [frame_kind_as_u8 (hdr_kind h)]
     @ u16_to_be_bytes (hdr_flags h) @ u32_to_be_bytes (hdr_body_len h)
     @ u32_to_be_bytes (hdr_method_id h) @ u64_to_be_bytes (hdr_request_id h)"

lemma length_header_bytes [simp, wire_length]: "length (header_bytes h) = HEADER_LEN"
  by (simp add: header_bytes_def HEADER_LEN_def)

lemma decode_header_bytes:
  "decode_header (header_bytes h) m =
    (if hdr_flags h AND NOT KNOWN_FLAGS \<noteq> 0 then Inl (UnsupportedFlags (hdr_flags h))
     else if hdr_body_len h > m then Inl (BodyTooLarge (hdr_body_len h))
     else Inr h)"
  by (simp add: decode_header_def header_bytes_def slice_def nth_append Let_def)

lemma header_bytes_decode:
  assumes "length header = HEADER_LEN" "decode_header header m = Inr h"
  shows "header = header_bytes h"
proof -
  have len: "length header = 24" using assms(1) by (simp add: HEADER_LEN_def)
  note dec = assms(2) [unfolded decode_header_def Let_def]
  have magic: "u32_from_be_bytes (slice header 0 4) = MAGIC"
    and ver: "header ! 4 = VERSION"
    and kind: "header ! 5 = frame_kind_as_u8 (hdr_kind h)"
    and fl: "u16_from_be_bytes (slice header 6 8) = hdr_flags h"
    and bl: "u32_from_be_bytes (slice header 8 12) = hdr_body_len h"
    and mi: "u32_from_be_bytes (slice header 12 16) = hdr_method_id h"
    and ri: "u64_from_be_bytes (slice header 16 24) = hdr_request_id h"
    using dec by (auto simp: frame_kind_try_from_Inr split: if_splits)
  have "header_bytes h = slice header 0 4 @ slice header 4 5 @ slice header 5 6 @ slice header 6 8
      @ slice header 8 12 @ slice header 12 16 @ slice header 16 24"
    unfolding header_bytes_def magic [symmetric] ver [symmetric] kind [symmetric] fl [symmetric]
      bl [symmetric] mi [symmetric] ri [symmetric]
    using len by (simp add: be_int_roundtrip length_slice slice_single)
  also have "\<dots> = slice header 0 24"
    by (simp add: slice_join slice_join_assoc)
  finally show ?thesis using len by (simp add: slice_all)
qed

lemma decode_header_Inr_bounds:
  "decode_header header m = Inr h \<Longrightarrow>
   hdr_flags h AND NOT KNOWN_FLAGS = 0 \<and> hdr_body_len h \<le> m"
  by (auto simp: decode_header_def Let_def split: if_splits)

lemma frame_encode_into_Inr:
  "frame_encode_into f out = Inr bs \<longleftrightarrow>
     flags f AND NOT KNOWN_FLAGS = 0 \<and> length (body f) \<le> u32_max \<and>
     bs = out @ header_bytes \<lparr>hdr_kind = kind f, hdr_flags = flags f,
                     hdr_body_len = word_of_nat (length (body f)),
                     hdr_method_id = method_id f, hdr_request_id = request_id f\<rparr> @ body f"
  by (auto simp: frame_encode_into_def header_bytes_def)

lemma settings_encode_length [simp, wire_length]:
  "length (settings_encode s) = SETTINGS_BODY_LEN"
  by (simp add: settings_encode_def SETTINGS_BODY_LEN_def)

text \<open>The settings that \<open>decode\<close> accepts.\<close>

definition settings_valid :: "PeerSettingsV2 \<Rightarrow> bool" where
  "settings_valid s =
    (max_body_len s \<noteq> 0 \<and> max_decoded_body_len s \<noteq> 0 \<and> max_metadata_len s \<noteq> 0
     \<and> max_in_flight s \<noteq> 0 \<and> max_concurrent_streams s \<noteq> 0 \<and> initial_stream_credit s \<noteq> 0
     \<and> compression_codecs s AND 1 \<noteq> 0)"

lemma settings_decode_encode:
  "settings_decode (settings_encode s) =
     (if settings_valid s then Inr s else Inl InvalidSettingsValue)"
  unfolding settings_decode_def Let_def settings_valid_def
  by (simp add: settings_encode_def SETTINGS_BODY_LEN_def slice_def)

lemma settings_encode_decode:
  assumes "settings_decode b = Inr s"
  shows "b = settings_encode s"
proof -
  have len: "length b = 44" and
    s: "s = \<lparr>max_body_len = u32_from_be_bytes (slice b 0 4),
                max_decoded_body_len = u32_from_be_bytes (slice b 4 8),
                max_metadata_len = u32_from_be_bytes (slice b 8 12),
                max_in_flight = u32_from_be_bytes (slice b 12 16),
                max_concurrent_streams = u32_from_be_bytes (slice b 16 20),
                initial_stream_credit = u32_from_be_bytes (slice b 20 24),
                compression_codecs = u32_from_be_bytes (slice b 24 28),
                features = u64_from_be_bytes (slice b 28 36),
                diagnostic_features = u64_from_be_bytes (slice b 36 44)\<rparr>"
    using assms by (auto simp: settings_decode_def SETTINGS_BODY_LEN_def Let_def split: if_splits)
  have "settings_encode s = slice b 0 4 @ slice b 4 8 @ slice b 8 12 @ slice b 12 16
     @ slice b 16 20 @ slice b 20 24 @ slice b 24 28 @ slice b 28 36 @ slice b 36 44"
    unfolding s settings_encode_def using len by (simp add: be_int_roundtrip length_slice)
  also have "\<dots> = slice b 0 44"
    by (simp add: slice_join slice_join_assoc)
  finally show ?thesis using len by (simp add: slice_all)
qed

lemma trace_context_decode_encode:
  assumes "trace_context_wf t"
  shows "trace_context_decode (trace_context_encode_into t [] @ rest) = Inr t"
proof -
  have len: "length (trace_id t) = 16" "length (parent_span_id t) = 8"
    using assms by (simp_all add: trace_context_wf_def)
  let ?bs = "trace_context_encode_into t [] @ rest"
  have "?bs ! 24 = (if sampled t then 1 else 0)"
    using len by (simp add: trace_context_encode_into_def nth_append)
  moreover have "slice ?bs 0 16 = trace_id t" "slice ?bs 16 24 = parent_span_id t"
    using len by (simp_all add: trace_context_encode_into_def slice_def)
  moreover have "\<not> length ?bs < TRACE_CONTEXT_LEN"
    using len by (simp add: trace_context_encode_into_def TRACE_CONTEXT_LEN_def)
  ultimately show ?thesis
    by (cases "sampled t") (simp_all add: trace_context_decode_def del: rbind_eq_Inr)
qed

section \<open>Properties\<close>

text \<open>A frame that encodes is decoded back: the first 24 bytes pass header validation
  under any limit that admits the body and give exactly the frame's fields and the body length,
  and what follows is the body.\<close>

theorem frame_roundtrip:
  assumes "frame_encode f = Inr bs" and "length (body f) \<le> unat max_len"
  shows "decode_header (take HEADER_LEN bs) max_len =
           Inr \<lparr>hdr_kind = kind f, hdr_flags = flags f,
                hdr_body_len = word_of_nat (length (body f)),
                hdr_method_id = method_id f, hdr_request_id = request_id f\<rparr>
         \<and> drop HEADER_LEN bs = body f"
proof -
  let ?h = "\<lparr>hdr_kind = kind f, hdr_flags = flags f, hdr_body_len = word_of_nat (length (body f)),
             hdr_method_id = method_id f, hdr_request_id = request_id f\<rparr>"
  have fl: "flags f AND NOT KNOWN_FLAGS = 0" and len: "length (body f) \<le> u32_max"
    and bs: "bs = header_bytes ?h @ body f"
    using assms(1) by (simp_all add: frame_encode_def frame_encode_into_Inr)
  have "\<not> max_len < hdr_body_len ?h"
    using assms(2) len by (simp add: not_less word_le_nat_alt)
  then show ?thesis using bs fl by (simp add: decode_header_bytes)
qed

theorem frame_roundtrip_witness:
  "decode_header (take HEADER_LEN
      (header_bytes \<lparr>hdr_kind = Request, hdr_flags = 0, hdr_body_len = 2, hdr_method_id = 42,
                    hdr_request_id = 99\<rparr> @ [104, 105])) 8
   = Inr \<lparr>hdr_kind = Request, hdr_flags = 0, hdr_body_len = 2, hdr_method_id = 42,
          hdr_request_id = 99\<rparr>"
proof -
  let ?f = "frame_new Request 42 99 [104, 105]"
  let ?bs = "header_bytes \<lparr>hdr_kind = Request, hdr_flags = 0, hdr_body_len = 2,
               hdr_method_id = 42, hdr_request_id = 99\<rparr> @ [104, 105]"
  have "frame_encode ?f = Inr ?bs"
    by (simp add: frame_encode_def frame_encode_into_Inr u32_max_def)
  moreover have "length (body ?f) \<le> unat (8 :: u32)" by simp
  ultimately show ?thesis using frame_roundtrip [of ?f ?bs 8] by simp
qed

text \<open>Claim C8. Header validation is strict: a 24-byte header is accepted with the fields \<open>h\<close>
  exactly when it is, byte for byte, the header this version writes for \<open>h\<close>, no unknown flag is
  set, and the announced body fits the limit.  No two byte strings are read as the same header.\<close>

theorem decode_header_strict:
  assumes "length header = HEADER_LEN"
  shows "decode_header header max_len = Inr h \<longleftrightarrow>
           header = header_bytes h \<and> hdr_flags h AND NOT KNOWN_FLAGS = 0
           \<and> hdr_body_len h \<le> max_len"
proof
  assume "decode_header header max_len = Inr h"
  then show "header = header_bytes h \<and> hdr_flags h AND NOT KNOWN_FLAGS = 0
      \<and> hdr_body_len h \<le> max_len"
    using header_bytes_decode [OF assms] decode_header_Inr_bounds by blast
qed (auto simp: decode_header_bytes)

theorem decode_header_strict_witness:
  "decode_header (header_bytes \<lparr>hdr_kind = Ping, hdr_flags = 1, hdr_body_len = 9,
      hdr_method_id = 0, hdr_request_id = 7\<rparr>) 8 \<noteq>
   Inr \<lparr>hdr_kind = Ping, hdr_flags = 1, hdr_body_len = 9, hdr_method_id = 0,
        hdr_request_id = 7\<rparr>"
  by (subst decode_header_strict) simp_all

text \<open>The settings codec is exact: a HELLO or WELCOME body decodes to \<open>s\<close> precisely when
  every safety limit of \<open>s\<close> is non-zero, the identity codec bit is set, and the body is the
  44-byte encoding of \<open>s\<close>.\<close>

theorem settings_decode_iff:
  "settings_decode b = Inr s \<longleftrightarrow> settings_valid s \<and> b = settings_encode s"
proof
  assume "settings_decode b = Inr s"
  then show "settings_valid s \<and> b = settings_encode s"
    using settings_encode_decode settings_decode_encode
    by (metis Inl_Inr_False)
qed (simp add: settings_decode_encode)

text \<open>A trace context written into a buffer is read back from it, whatever follows, and
  a buffer is rejected when it is short or its sampling byte is neither zero nor one.\<close>

theorem trace_context_codec:
  assumes "trace_context_wf t"
  shows "trace_context_decode (trace_context_encode_into t [] @ rest) = Inr t
    \<and> (length input < TRACE_CONTEXT_LEN \<longrightarrow>
         trace_context_decode input = Inl (InvalidTraceContextLength (length input)))
    \<and> (length input \<ge> TRACE_CONTEXT_LEN \<and> input ! 24 \<notin> {0, 1} \<longrightarrow>
         trace_context_decode input = Inl (InvalidTraceSampling (input ! 24)))"
  by (auto simp: trace_context_decode_encode [OF assms]) (auto simp: trace_context_decode_def)

theorem trace_context_codec_witness:
  "trace_context_decode (replicate 16 7 @ replicate 8 9 @ [1] @ [5]) =
     Inr \<lparr>trace_id = replicate 16 7, parent_span_id = replicate 8 9, sampled = True\<rparr>"
  using trace_context_codec [of "\<lparr>trace_id = replicate 16 7, parent_span_id = replicate 8 9,
      sampled = True\<rparr>" "[5]"]
  by (simp add: trace_context_wf_def trace_context_encode_into_def)

end
