(* ===== verification/Wire_Metadata.thy ===== *)
theory Wire_Metadata
  imports Wire_Protocol
begin

text \<open>
  Canonical request metadata, crates/moonlight-bridge-protocol/src/metadata.rs: the reserved
  keys, the ordered block \<open>Metadata\<close> (a \<open>BTreeMap\<close>, here a key-sorted association list),
  its encoder, the bounded validator, and the three walks over a validated block
  (\<open>reserved_entries\<close>, \<open>get_reserved\<close>, \<open>into_metadata\<close>).

  The loops walk the block by position exactly as the source does.  The lemmas relate each of
  them to one list, the raw entries of the block (\<open>raw_entries\<close>), so that the properties are
  statements about sorted lists.
\<close>

definition CRITICAL_BIT :: u16 where "CRITICAL_BIT = push_bit 15 1"
definition KEY_MASK :: u16 where "KEY_MASK = NOT CRITICAL_BIT"
definition USER_KEY_ID :: u16 where "USER_KEY_ID = 0x7fff"
definition ENTRY_HEADER_LEN :: nat where "ENTRY_HEADER_LEN = 7"

record MetadataLimits =
  max_bytes :: u32
  max_entries :: u16
  max_value_bytes :: u32

definition metadata_limits_default :: MetadataLimits where
  "metadata_limits_default =
     \<lparr>max_bytes = 16 * 1024, max_entries = 64, max_value_bytes = 8 * 1024\<rparr>"

datatype ReservedMetadataKey =
    DeadlineMillis | TraceContextKey | IdempotencyKey | Authorization | RequiredScopes
  | CompressionCodecKey | OriginalLength | LogicalCallId | RetryAttempt | EventCursor
  | EventSequence | ContentType | DiagnosticCorrelation

fun reserved_as_u16 :: "ReservedMetadataKey \<Rightarrow> u16" where
  "reserved_as_u16 DeadlineMillis = 1"
| "reserved_as_u16 TraceContextKey = 2"
| "reserved_as_u16 IdempotencyKey = 3"
| "reserved_as_u16 Authorization = 4"
| "reserved_as_u16 RequiredScopes = 5"
| "reserved_as_u16 CompressionCodecKey = 6"
| "reserved_as_u16 OriginalLength = 7"
| "reserved_as_u16 LogicalCallId = 8"
| "reserved_as_u16 RetryAttempt = 9"
| "reserved_as_u16 EventCursor = 10"
| "reserved_as_u16 EventSequence = 11"
| "reserved_as_u16 ContentType = 12"
| "reserved_as_u16 DiagnosticCorrelation = 13"

definition reserved_try_from :: "u16 \<Rightarrow> ReservedMetadataKey option" where
  "reserved_try_from v =
    (if v = 1 then Some DeadlineMillis
     else if v = 2 then Some TraceContextKey
     else if v = 3 then Some IdempotencyKey
     else if v = 4 then Some Authorization
     else if v = 5 then Some RequiredScopes
     else if v = 6 then Some CompressionCodecKey
     else if v = 7 then Some OriginalLength
     else if v = 8 then Some LogicalCallId
     else if v = 9 then Some RetryAttempt
     else if v = 10 then Some EventCursor
     else if v = 11 then Some EventSequence
     else if v = 12 then Some ContentType
     else if v = 13 then Some DiagnosticCorrelation
     else None)"

lemma reserved_as_u16_inj: "reserved_as_u16 a = reserved_as_u16 b \<longleftrightarrow> a = b"
  by (cases a; cases b) simp_all

text \<open>The derived \<open>Ord\<close> of the two key types: variant order first, then the payload.\<close>

instantiation ReservedMetadataKey :: linorder
begin

definition less_eq_ReservedMetadataKey :: "ReservedMetadataKey \<Rightarrow> ReservedMetadataKey \<Rightarrow> bool" where
  "less_eq_ReservedMetadataKey a b = (reserved_as_u16 a \<le> reserved_as_u16 b)"

definition less_ReservedMetadataKey :: "ReservedMetadataKey \<Rightarrow> ReservedMetadataKey \<Rightarrow> bool" where
  "less_ReservedMetadataKey a b = (reserved_as_u16 a < reserved_as_u16 b)"

instance
  by standard (auto simp: less_eq_ReservedMetadataKey_def less_ReservedMetadataKey_def
      simp flip: reserved_as_u16_inj)

end

datatype MetadataKey = Reserved ReservedMetadataKey | User bytes

fun metadata_key_le :: "MetadataKey \<Rightarrow> MetadataKey \<Rightarrow> bool" where
  "metadata_key_le (Reserved a) (Reserved b) = (a \<le> b)"
| "metadata_key_le (Reserved _) (User _) = True"
| "metadata_key_le (User _) (Reserved _) = False"
| "metadata_key_le (User a) (User b) = (a \<le> b)"

instantiation MetadataKey :: linorder
begin

definition less_eq_MetadataKey :: "MetadataKey \<Rightarrow> MetadataKey \<Rightarrow> bool" where
  "less_eq_MetadataKey a b = metadata_key_le a b"

definition less_MetadataKey :: "MetadataKey \<Rightarrow> MetadataKey \<Rightarrow> bool" where
  "less_MetadataKey a b = (metadata_key_le a b \<and> \<not> metadata_key_le b a)"

instance
proof
  fix x y z :: MetadataKey
  show "x < y \<longleftrightarrow> x \<le> y \<and> \<not> y \<le> x"
    by (simp add: less_eq_MetadataKey_def less_MetadataKey_def)
  show "x \<le> x"
    by (cases x) (simp_all add: less_eq_MetadataKey_def)
  show "x \<le> y \<Longrightarrow> y \<le> z \<Longrightarrow> x \<le> z"
    by (cases x; cases y; cases z) (simp_all add: less_eq_MetadataKey_def)
  show "x \<le> y \<Longrightarrow> y \<le> x \<Longrightarrow> x = y"
    by (cases x; cases y) (simp_all add: less_eq_MetadataKey_def)
  show "x \<le> y \<or> y \<le> x"
    by (cases x; cases y) (simp_all add: less_eq_MetadataKey_def linear)
qed

end

section \<open>The owned block\<close>

type_synonym Metadata = "(MetadataKey, bytes) btree_map"

definition metadata_new :: Metadata where "metadata_new = []"

definition metadata_is_empty :: "Metadata \<Rightarrow> bool" where "metadata_is_empty m = (m = [])"

definition validate_user_key :: "bytes \<Rightarrow> ProtocolError + unit" where
  "validate_user_key name =
    (if name = [] \<or> length name > 255
        \<or> \<not> list_all (\<lambda>b. is_ascii_lowercase b \<or> is_ascii_digit b \<or> b \<in> set (str ''-_.'')) name
     then Inl InvalidUserMetadataKey
     else Inr ())"

definition metadata_insert :: "MetadataKey \<Rightarrow> bytes \<Rightarrow> Metadata \<Rightarrow> ProtocolError + Metadata" where
  "metadata_insert key value m =
    (if bt_contains m key then Inl DuplicateMetadataKey else Inr (bt_insert key value m))"

definition insert_reserved ::
    "ReservedMetadataKey \<Rightarrow> bytes \<Rightarrow> Metadata \<Rightarrow> ProtocolError + Metadata" where
  "insert_reserved key value m = metadata_insert (Reserved key) value m"

definition insert_user :: "bytes \<Rightarrow> bytes \<Rightarrow> Metadata \<Rightarrow> ProtocolError + Metadata" where
  "insert_user name value m =
     rbind (validate_user_key name) (\<lambda>_. metadata_insert (User name) value m)"

definition metadata_get :: "Metadata \<Rightarrow> MetadataKey \<Rightarrow> bytes option" where
  "metadata_get m key = bt_get m key"

section \<open>Encoding\<close>

fun key_name :: "MetadataKey \<Rightarrow> bytes" where
  "key_name (Reserved _) = []"
| "key_name (User name) = name"

fun tagged_id :: "MetadataKey \<Rightarrow> u16" where
  "tagged_id (Reserved k) = CRITICAL_BIT OR reserved_as_u16 k"
| "tagged_id (User _) = USER_KEY_ID"

definition encoded_len_step :: "nat \<Rightarrow> MetadataKey \<times> bytes \<Rightarrow> ProtocolError + nat" where
  "encoded_len_step so_far kv =
     ok_or InvalidMetadataEntryLength
       (Option.bind (usize_checked_add so_far ENTRY_HEADER_LEN) (\<lambda>l.
        Option.bind (usize_checked_add l (length (key_name (fst kv)))) (\<lambda>l.
        usize_checked_add l (length (snd kv)))))"

text \<open>The writing loop; the output written so far stays in the buffer when an entry fails.\<close>

fun encode_entries :: "bytes \<Rightarrow> Metadata \<Rightarrow> bytes \<times> (ProtocolError + unit)" where
  "encode_entries out [] = (out, Inr ())"
| "encode_entries out ((key, value) # rest) =
    (case u8_try_from (length (key_name key)) of
       None \<Rightarrow> (out, Inl InvalidUserMetadataKey)
     | Some name_len \<Rightarrow>
        (case u32_try_from (length value) of
           None \<Rightarrow> (out, Inl InvalidMetadataEntryLength)
         | Some value_len \<Rightarrow>
             encode_entries (out @ u16_to_be_bytes (tagged_id key) @ [name_len]
                @ u32_to_be_bytes value_len @ key_name key @ value) rest))"

definition encode_prefix :: "Metadata \<Rightarrow> bytes \<Rightarrow> bytes \<times> (ProtocolError + unit)" where
  "encode_prefix m out =
    (case try_fold encoded_len_step 0 m of
       Inl e \<Rightarrow> (out, Inl e)
     | Inr n \<Rightarrow>
        (case u32_try_from n of
           None \<Rightarrow> (out, Inl (MetadataTooLarge (word_of_nat u32_max)))
         | Some encoded_len \<Rightarrow> encode_entries (out @ u32_to_be_bytes encoded_len) m))"

section \<open>Raw entries\<close>

record RawEntry =
  re_key_id :: u16
  re_critical :: bool
  re_name :: bytes
  re_value :: bytes
  re_value_len :: u32
  re_end :: nat

definition raw_entry :: "bytes \<Rightarrow> nat \<Rightarrow> ProtocolError + RawEntry" where
  "raw_entry block position =
     rbind (ok_or InvalidMetadataEntryLength (usize_checked_add position ENTRY_HEADER_LEN))
       (\<lambda>header_end.
     rbind (ok_or InvalidMetadataEntryLength (get_range block position header_end)) (\<lambda>header.
     let tagged = u16_from_be_bytes (slice header 0 2);
         name_len = unat (header ! 2);
         value_len = u32_from_be_bytes (slice header 3 7) in
     rbind (ok_or InvalidMetadataEntryLength (usize_checked_add header_end name_len))
       (\<lambda>value_start.
     rbind (ok_or InvalidMetadataEntryLength (usize_checked_add value_start (unat value_len)))
       (\<lambda>end_pos.
     rbind (ok_or InvalidMetadataEntryLength (get_range block header_end value_start)) (\<lambda>name.
     rbind (ok_or InvalidMetadataEntryLength (get_range block value_start end_pos)) (\<lambda>value.
     Inr \<lparr>re_key_id = tagged AND KEY_MASK,
          re_critical = (tagged AND CRITICAL_BIT \<noteq> 0),
          re_name = name,
          re_value = value,
          re_value_len = value_len,
          re_end = end_pos\<rparr>))))))"

text \<open>Progress and containment: every entry ends past where it starts and inside the block.
  All loops over a block terminate because of it.\<close>

lemma raw_entry_progress:
  assumes "raw_entry block position = Inr e"
  shows "position < re_end e" and "re_end e \<le> length block"
  using assms
  by (auto simp: raw_entry_def Let_def usize_checked_add_def get_range_Some ENTRY_HEADER_LEN_def
      split: if_splits)

section \<open>Validation\<close>

definition order_check :: "(u16 \<times> bytes) option \<Rightarrow> RawEntry \<Rightarrow> ProtocolError + unit" where
  "order_check previous e =
    (case previous of
       None \<Rightarrow> Inr ()
     | Some (previous_id, previous_name) \<Rightarrow>
        if previous_id > re_key_id e
           \<or> (previous_id = re_key_id e \<and> previous_name \<ge> re_name e)
        then Inl (if previous_id = re_key_id e \<and> previous_name = re_name e
                  then DuplicateMetadataKey else NonCanonicalMetadataOrder)
        else Inr ())"

definition key_check :: "RawEntry \<Rightarrow> ProtocolError + unit" where
  "key_check e =
    (if re_key_id e = USER_KEY_ID then
       if \<not> utf8_valid (re_name e) then Inl InvalidUserMetadataKey
       else validate_user_key (re_name e)
     else if re_name e \<noteq> [] then Inl InvalidUserMetadataKey
     else
       (case reserved_try_from (re_key_id e) of
          Some _ \<Rightarrow> Inr ()
        | None \<Rightarrow> if re_critical e then Inl (UnknownCriticalMetadataKey (re_key_id e))
                  else Inr ()))"

function validate_loop ::
    "MetadataLimits \<Rightarrow> bytes \<Rightarrow> nat \<Rightarrow> u16 \<Rightarrow> (u16 \<times> bytes) option \<Rightarrow> ProtocolError + unit" where
  "validate_loop limits block position count previous =
    (if position < length block then
       rbind (ok_or (TooManyMetadataEntries 0xFFFF) (u16_checked_add count 1)) (\<lambda>count.
       if count > max_entries limits then Inl (TooManyMetadataEntries count)
       else (case raw_entry block position of
           Inl err \<Rightarrow> Inl err
         | Inr e \<Rightarrow>
             if re_value_len e > max_value_bytes limits
             then Inl (MetadataValueTooLarge (re_value_len e))
             else
               rbind (order_check previous e) (\<lambda>_.
               rbind (key_check e) (\<lambda>_.
               validate_loop limits block (re_end e) count (Some (re_key_id e, re_name e))))))
     else Inr ())"
  by pat_completeness auto
termination
  by (relation "measure (\<lambda>(limits, block, position, count, previous). length block - position)")
    (auto dest: raw_entry_progress)

declare validate_loop.simps [simp del]

definition metadata_validate :: "bytes \<Rightarrow> MetadataLimits \<Rightarrow> ProtocolError + (bytes \<times> bytes)" where
  "metadata_validate input limits =
     rbind (ok_or (InvalidMetadataLength 0 (length input)) (get_range input 0 4)) (\<lambda>length_bytes.
     let announced = u32_from_be_bytes length_bytes;
         available = length input - 4;
         block_len = unat announced in
     if block_len > available then Inl (InvalidMetadataLength announced available)
     else if announced > max_bytes limits then Inl (MetadataTooLarge announced)
     else
       let block = slice input 4 (4 + block_len) in
       rbind (validate_loop limits block 0 0 None) (\<lambda>_.
       Inr (block, drop (4 + block_len) input)))"

section \<open>Walks over a validated block\<close>

text \<open>\<open>reserved_entries\<close>: the items the iterator yields, in order.\<close>

function reserved_entries_from :: "bytes \<Rightarrow> nat \<Rightarrow> (ReservedMetadataKey \<times> bytes) list" where
  "reserved_entries_from block position =
    (if position < length block then
       (case raw_entry block position of
          Inl _ \<Rightarrow> []
        | Inr e \<Rightarrow>
           (case reserved_try_from (re_key_id e) of
              Some key \<Rightarrow> (key, re_value e) # reserved_entries_from block (re_end e)
            | None \<Rightarrow> reserved_entries_from block (re_end e)))
     else [])"
  by pat_completeness auto
termination
  by (relation "measure (\<lambda>(block, position). length block - position)")
    (auto dest: raw_entry_progress)

declare reserved_entries_from.simps [simp del]

definition reserved_entries :: "bytes \<Rightarrow> (ReservedMetadataKey \<times> bytes) list" where
  "reserved_entries block = reserved_entries_from block 0"

function get_reserved_from :: "u16 \<Rightarrow> bytes \<Rightarrow> nat \<Rightarrow> bytes option" where
  "get_reserved_from wanted block position =
    (if position < length block then
       (case raw_entry block position of
          Inl _ \<Rightarrow> None
        | Inr e \<Rightarrow>
            if re_key_id e = wanted then Some (re_value e)
            else if re_key_id e > wanted then None
            else get_reserved_from wanted block (re_end e))
     else None)"
  by pat_completeness auto
termination
  by (relation "measure (\<lambda>(wanted, block, position). length block - position)")
    (auto dest: raw_entry_progress)

declare get_reserved_from.simps [simp del]

definition get_reserved :: "bytes \<Rightarrow> ReservedMetadataKey \<Rightarrow> bytes option" where
  "get_reserved block key = get_reserved_from (reserved_as_u16 key) block 0"

definition entry_key :: "RawEntry \<Rightarrow> ProtocolError + MetadataKey option" where
  "entry_key e =
    (if re_key_id e = USER_KEY_ID then
       if utf8_valid (re_name e) then Inr (Some (User (re_name e)))
       else Inl InvalidUserMetadataKey
     else Inr (map_option Reserved (reserved_try_from (re_key_id e))))"

function into_metadata_from :: "bytes \<Rightarrow> nat \<Rightarrow> Metadata \<Rightarrow> ProtocolError + Metadata" where
  "into_metadata_from block position metadata =
    (if position < length block then
       (case raw_entry block position of
          Inl err \<Rightarrow> Inl err
        | Inr e \<Rightarrow>
            rbind (entry_key e) (\<lambda>key.
            rbind (case key of Some k \<Rightarrow> metadata_insert k (re_value e) metadata
                             | None \<Rightarrow> Inr metadata) (\<lambda>metadata.
            into_metadata_from block (re_end e) metadata)))
     else Inr metadata)"
  by pat_completeness auto
termination
  by (relation "measure (\<lambda>(block, position, metadata). length block - position)")
    (auto dest: raw_entry_progress)

declare into_metadata_from.simps [simp del]

definition into_metadata :: "bytes \<Rightarrow> ProtocolError + Metadata" where
  "into_metadata block = into_metadata_from block 0 metadata_new"

definition metadata_decode :: "bytes \<Rightarrow> MetadataLimits \<Rightarrow> ProtocolError + (Metadata \<times> bytes)" where
  "metadata_decode input limits =
     rbind (metadata_validate input limits) (\<lambda>(block, payload).
     rbind (into_metadata block) (\<lambda>m. Inr (m, payload)))"

section \<open>The raw entries of a block\<close>

function raw_entries :: "bytes \<Rightarrow> nat \<Rightarrow> ProtocolError + RawEntry list" where
  "raw_entries block position =
    (if position < length block then
       (case raw_entry block position of
          Inl err \<Rightarrow> Inl err
        | Inr e \<Rightarrow> rbind (raw_entries block (re_end e)) (\<lambda>es. Inr (e # es)))
     else Inr [])"
  by pat_completeness auto
termination
  by (relation "measure (\<lambda>(block, position). length block - position)")
    (auto dest: raw_entry_progress)

declare raw_entries.simps [simp del]

definition entry_order :: "RawEntry \<Rightarrow> u16 \<times> bytes" where
  "entry_order e = (re_key_id e, re_name e)"

fun entries_ok :: "MetadataLimits \<Rightarrow> (u16 \<times> bytes) option \<Rightarrow> RawEntry list \<Rightarrow> bool" where
  "entries_ok limits previous [] = True"
| "entries_ok limits previous (e # es) =
    (re_value_len e \<le> max_value_bytes limits \<and> order_check previous e = Inr ()
     \<and> key_check e = Inr () \<and> entries_ok limits (Some (entry_order e)) es)"

definition known_entries :: "RawEntry list \<Rightarrow> Metadata" where
  "known_entries es =
     List.map_filter (\<lambda>e. case entry_key e of
        Inr (Some k) \<Rightarrow> Some (k, re_value e) | _ \<Rightarrow> None) es"

lemma known_entries_simps [simp]:
  "known_entries [] = []"
  "known_entries (e # es) =
     (case entry_key e of Inr (Some k) \<Rightarrow> [(k, re_value e)] | _ \<Rightarrow> []) @ known_entries es"
  by (auto simp: known_entries_def map_filter_simps split: sum.splits option.splits)

lemma validate_loop_iff:
  "unat count \<le> unat (max_entries limits) \<Longrightarrow>
   validate_loop limits block position count previous = Inr () \<longleftrightarrow>
   (\<exists>es. raw_entries block position = Inr es
        \<and> unat count + length es \<le> unat (max_entries limits)
        \<and> entries_ok limits previous es)"
proof (induction limits block position count previous rule: validate_loop.induct)
  case (1 limits block position count previous)
  show ?case
  proof (cases "position < length block")
    case False
    then show ?thesis
      using "1.prems" by (simp add: validate_loop.simps [of _ _ position] raw_entries.simps [of _ position])
  next
    case True
    show ?thesis
    proof (cases "raw_entry block position")
      case (Inl err)
      then show ?thesis using True
        by (auto simp: validate_loop.simps [of _ _ position] raw_entries.simps [of _ position])
    next
      case (Inr e)
      show ?thesis
      proof (cases "unat count < unat (max_entries limits)")
        case False
        then have "\<not> (\<exists>c. u16_checked_add count 1 = Some c \<and> \<not> c > max_entries limits)"
          by (auto simp: word_less_nat_alt dest!: unat_u16_checked_add)
        with False True Inr show ?thesis
          by (auto simp: validate_loop.simps [of _ _ position] raw_entries.simps [of _ position])
      next
        case lt: True
        then have add: "u16_checked_add count 1 = Some (count + 1)"
          using unat_bounds(2) [of "max_entries limits"] by (simp add: u16_checked_add_Some)
        then have u: "unat (count + 1) = unat count + 1"
          using unat_u16_checked_add by fastforce
        then have le: "\<not> count + 1 > max_entries limits"
          using lt by (simp add: word_less_nat_alt)
        have IH: "validate_loop limits block (re_end e) (count + 1) (Some (entry_order e)) = Inr () \<longleftrightarrow>
           (\<exists>es. raw_entries block (re_end e) = Inr es
              \<and> unat (count + 1) + length es \<le> unat (max_entries limits)
              \<and> entries_ok limits (Some (entry_order e)) es)"
          if "\<not> re_value_len e > max_value_bytes limits" "order_check previous e = Inr ()" "key_check e = Inr ()"
          using "1.IH" [of "count + 1" e] True Inr that lt u le
          by (simp add: entry_order_def)
        show ?thesis
          using True Inr add le u IH
          by (auto simp: validate_loop.simps [of _ _ position] raw_entries.simps [of _ position]
              entry_order_def not_less)
      qed
    qed
  qed
qed

lemma order_check_iff [simp]:
  "order_check None e = Inr ()"
  "order_check (Some p) e = Inr () \<longleftrightarrow> p < entry_order e"
  by (auto simp: order_check_def entry_order_def less_prod_def split: prod.splits)

lemma entries_ok_sorted:
  "entries_ok limits previous es \<Longrightarrow>
   sorted_wrt (<) (map entry_order es)
   \<and> (\<forall>p. previous = Some p \<longrightarrow> (\<forall>e \<in> set es. p < entry_order e))"
proof (induction es arbitrary: previous)
  case (Cons e es)
  have "entries_ok limits (Some (entry_order e)) es" using Cons.prems by simp
  then have "sorted_wrt (<) (map entry_order es)" "\<forall>e' \<in> set es. entry_order e < entry_order e'"
    using Cons.IH by blast+
  with Cons.prems show ?case by (cases previous) auto
qed simp

lemma entries_ok_elems:
  "entries_ok limits previous es \<Longrightarrow> e \<in> set es \<Longrightarrow>
   re_value_len e \<le> max_value_bytes limits \<and> key_check e = Inr ()"
  by (induction es arbitrary: previous) auto

lemma reserved_try_from_Some: "reserved_try_from v = Some k \<longleftrightarrow> v = reserved_as_u16 k"
proof
  show "reserved_try_from v = Some k \<Longrightarrow> v = reserved_as_u16 k"
    by (auto simp: reserved_try_from_def split: if_splits)
  show "v = reserved_as_u16 k \<Longrightarrow> reserved_try_from v = Some k"
    by (cases k) (simp_all add: reserved_try_from_def)
qed

lemma reserved_below_user: "reserved_as_u16 k < USER_KEY_ID"
  by (cases k) (simp_all add: USER_KEY_ID_def)

text \<open>Wire order of the entries is the order of the keys they stand for.\<close>

lemma entry_key_Some:
  "entry_key e = Inr (Some k) \<Longrightarrow> key_check e = Inr () \<Longrightarrow>
   (case k of Reserved r \<Rightarrow> entry_order e = (reserved_as_u16 r, [])
            | User name \<Rightarrow> entry_order e = (USER_KEY_ID, name))"
  by (auto simp: entry_key_def key_check_def entry_order_def reserved_try_from_Some
      split: if_splits option.splits)

lemma entry_key_ok: "key_check e = Inr () \<Longrightarrow> \<exists>k. entry_key e = Inr k"
  by (auto simp: entry_key_def key_check_def split: if_splits)

lemma less_key_simps [simp]:
  "Reserved a < Reserved b \<longleftrightarrow> reserved_as_u16 a < reserved_as_u16 b"
  "Reserved a < User n" "\<not> User n < Reserved a"
  "User m < User n \<longleftrightarrow> m < n"
  by (auto simp: less_MetadataKey_def less_eq_ReservedMetadataKey_def)

lemma entry_key_mono:
  assumes "entry_key e = Inr (Some k)" "key_check e = Inr ()"
    and "entry_key e' = Inr (Some k')" "key_check e' = Inr ()"
    and "entry_order e < entry_order e'"
  shows "k < k'"
  using entry_key_Some [OF assms(1,2)] entry_key_Some [OF assms(3,4)] assms(5)
    reserved_below_user
  by (cases k; cases k') (auto simp: less_prod_def dest: less_asym)

lemma in_known_entries:
  "(k, v) \<in> set (known_entries es) \<longleftrightarrow> (\<exists>e \<in> set es. entry_key e = Inr (Some k) \<and> v = re_value e)"
  by (induction es) (auto split: sum.splits option.splits)

lemma known_entries_wf:
  "entries_ok limits previous es \<Longrightarrow> bt_wf (known_entries es)"
proof (induction es arbitrary: previous)
  case (Cons e es)
  have wf: "bt_wf (known_entries es)" using Cons by auto
  have key: "\<And>e'. e' \<in> set (e # es) \<Longrightarrow> key_check e' = Inr ()"
    using entries_ok_elems [OF Cons.prems] by blast
  have lt: "\<And>e'. e' \<in> set es \<Longrightarrow> entry_order e < entry_order e'"
    using entries_ok_sorted [OF Cons.prems] by auto
  have "\<forall>k' \<in> fst ` set (known_entries es). k < k'" if "entry_key e = Inr (Some k)" for k
  proof
    fix k' assume "k' \<in> fst ` set (known_entries es)"
    then obtain e' where "e' \<in> set es" "entry_key e' = Inr (Some k')"
      by (auto simp: in_known_entries)
    then show "k < k'" using entry_key_mono [OF that] key lt by simp
  qed
  with wf show ?case by (auto simp: bt_wf_Cons split: sum.splits option.splits)
qed (simp add: bt_wf_def)

definition insert_entry :: "Metadata \<Rightarrow> RawEntry \<Rightarrow> ProtocolError + Metadata" where
  "insert_entry m e =
     rbind (entry_key e) (\<lambda>key.
       case key of Some k \<Rightarrow> metadata_insert k (re_value e) m | None \<Rightarrow> Inr m)"

lemma into_metadata_from_entries:
  "raw_entries block position = Inr es \<Longrightarrow>
   into_metadata_from block position m = try_fold insert_entry m es"
proof (induction block position m arbitrary: es rule: into_metadata_from.induct)
  case (1 block position m)
  show ?case
  proof (cases "position < length block")
    case False
    with 1 show ?thesis
      by (simp add: raw_entries.simps [of _ position] into_metadata_from.simps [of _ position])
  next
    case True
    then obtain e es' where e: "raw_entry block position = Inr e"
      "raw_entries block (re_end e) = Inr es'" "es = e # es'"
      using "1.prems" by (auto simp: raw_entries.simps [of _ position] split: sum.splits)
    show ?thesis
    proof (cases "entry_key e")
      case (Inl err)
      then show ?thesis using True e
        by (simp add: into_metadata_from.simps [of _ position] insert_entry_def)
    next
      case (Inr ko)
      let ?ins = "case ko of Some k \<Rightarrow> metadata_insert k (re_value e) m | None \<Rightarrow> Inr m"
      show ?thesis
      proof (cases ?ins)
        case (Inl err)
        then show ?thesis using True e Inr
          by (simp add: into_metadata_from.simps [of _ position] insert_entry_def)
      next
        case ins: (Inr m')
        have "into_metadata_from block (re_end e) m' = try_fold insert_entry m' es'"
          using "1.IH" [OF True e(1)] e(2) by blast
        then show ?thesis using True e Inr ins
          by (simp add: into_metadata_from.simps [of _ position] insert_entry_def [of m e])
      qed
    qed
  qed
qed

lemma insert_beyond:
  assumes "bt_wf m" "\<forall>k' \<in> fst ` set m. k' < k"
  shows "metadata_insert k v m = Inr (m @ [(k, v)])"
proof -
  have "k \<notin> fst ` set m" using assms(2) by blast
  then have "\<not> bt_contains m k"
    by (auto simp: bt_contains_def bt_get_def map_of_eq_None_iff dest: map_of_SomeD)
  then show ?thesis
    using bt.entries_insert_beyond [OF assms] by (simp add: metadata_insert_def)
qed

lemma insert_entries_known:
  "entries_ok limits previous es \<Longrightarrow> bt_wf (m @ known_entries es) \<Longrightarrow>
   try_fold insert_entry m es = Inr (m @ known_entries es)"
proof (induction es arbitrary: m previous)
  case (Cons e es)
  have ok: "entries_ok limits (Some (entry_order e)) es" using Cons.prems by simp
  obtain ko where ko: "entry_key e = Inr ko"
    using entry_key_ok Cons.prems(1) by auto
  show ?case
  proof (cases ko)
    case None
    then show ?thesis using Cons.IH [OF ok, of m] Cons.prems(2) ko by (simp add: insert_entry_def)
  next
    case (Some k)
    have wf: "bt_wf m" and lt: "\<forall>k' \<in> fst ` set m. k' < k"
      using Cons.prems(2) ko Some by (auto simp: bt_wf_def sorted_wrt_append)
    have "insert_entry m e = Inr (m @ [(k, re_value e)])"
      using ko Some insert_beyond [OF wf lt] by (simp add: insert_entry_def)
    then show ?thesis
      using Cons.IH [OF ok, of "m @ [(k, re_value e)]"] Cons.prems(2) ko Some by simp
  qed
qed simp

lemma into_metadata_known:
  assumes "raw_entries block 0 = Inr es" "entries_ok limits None es"
  shows "into_metadata block = Inr (known_entries es)"
  using into_metadata_from_entries [OF assms(1)] insert_entries_known [OF assms(2), of "[]"]
    known_entries_wf [OF assms(2)]
  by (simp add: into_metadata_def metadata_new_def)

lemma reserved_entries_from_entries:
  "raw_entries block position = Inr es \<Longrightarrow>
   reserved_entries_from block position =
     List.map_filter (\<lambda>e. map_option (\<lambda>k. (k, re_value e)) (reserved_try_from (re_key_id e))) es"
proof (induction block position arbitrary: es rule: reserved_entries_from.induct)
  case (1 block position)
  show ?case
  proof (cases "position < length block")
    case False
    with 1 show ?thesis
      by (simp add: raw_entries.simps [of _ position] reserved_entries_from.simps [of _ position]
          map_filter_simps)
  next
    case True
    then obtain e es' where e: "raw_entry block position = Inr e"
      "raw_entries block (re_end e) = Inr es'" "es = e # es'"
      using "1.prems" by (auto simp: raw_entries.simps [of _ position] split: sum.splits)
    show ?thesis
      using "1.IH"(1) [OF True e(1) _ e(2)] "1.IH"(2) [OF True e(1) _ e(2)] True e
      by (simp add: reserved_entries_from.simps [of _ position] map_filter_simps split: option.split)
  qed
qed

lemma get_reserved_from_entries:
  "raw_entries block position = Inr es \<Longrightarrow>
   get_reserved_from wanted block position =
     (case dropWhile (\<lambda>e. re_key_id e < wanted) es of
        [] \<Rightarrow> None
      | e # _ \<Rightarrow> if re_key_id e = wanted then Some (re_value e) else None)"
proof (induction wanted block position arbitrary: es rule: get_reserved_from.induct)
  case (1 wanted block position)
  show ?case
  proof (cases "position < length block")
    case False
    with 1 show ?thesis
      by (simp add: raw_entries.simps [of _ position] get_reserved_from.simps [of _ _ position])
  next
    case True
    then obtain e es' where e: "raw_entry block position = Inr e"
      "raw_entries block (re_end e) = Inr es'" "es = e # es'"
      using "1.prems" by (auto simp: raw_entries.simps [of _ position] split: sum.splits)
    show ?thesis
      using "1.IH" [OF True e(1) _ _ e(2)] True e
      by (cases "re_key_id e" wanted rule: linorder_cases)
        (auto simp: get_reserved_from.simps [of _ _ position])
  qed
qed

text \<open>In a validated block the ids are ascending, so stopping at the first larger id is sound.\<close>

lemma sorted_find_id:
  assumes "sorted_wrt (<) (map entry_order es)"
    and "\<And>e. e \<in> set es \<Longrightarrow> key_check e = Inr ()"
  shows "(case dropWhile (\<lambda>e. re_key_id e < reserved_as_u16 k) es of
            [] \<Rightarrow> None
          | e # _ \<Rightarrow> if re_key_id e = reserved_as_u16 k then Some (re_value e) else None)
         = map_of (known_entries es) (Reserved k)"
  using assms
proof (induction es)
  case (Cons e es)
  have key: "key_check e = Inr ()" using Cons.prems(2) by simp
  have IH: "(case dropWhile (\<lambda>e. re_key_id e < reserved_as_u16 k) es of
            [] \<Rightarrow> None
          | e # _ \<Rightarrow> if re_key_id e = reserved_as_u16 k then Some (re_value e) else None)
         = map_of (known_entries es) (Reserved k)"
    using Cons by simp
  obtain ko where ko: "entry_key e = Inr ko" using key entry_key_ok by blast
  consider (lt) "re_key_id e < reserved_as_u16 k" | (eq) "re_key_id e = reserved_as_u16 k"
    | (gt) "re_key_id e > reserved_as_u16 k" by fastforce
  then show ?case
  proof cases
    case lt
    then have "ko \<noteq> Some (Reserved k)"
      using ko entry_key_Some [OF _ key] by (auto simp: entry_order_def)
    with lt IH ko show ?thesis by (auto split: option.split)
  next
    case eq
    then have "ko = Some (Reserved k)"
      using ko reserved_below_user [of k] by (auto simp: entry_key_def reserved_try_from_Some split: if_splits)
    with eq ko show ?thesis by simp
  next
    case gt
    have "(Reserved k, v) \<notin> set (known_entries (e # es))" for v
    proof
      assume "(Reserved k, v) \<in> set (known_entries (e # es))"
      then obtain e' where e': "e' \<in> set (e # es)" "entry_key e' = Inr (Some (Reserved k))"
        by (auto simp only: in_known_entries)
      then have "entry_order e' = (reserved_as_u16 k, [])"
        using entry_key_Some [OF e'(2)] Cons.prems(2) by simp
      moreover have "entry_order e \<le> entry_order e'"
        using e'(1) Cons.prems(1) by (auto intro: less_imp_le)
      ultimately show False using gt by (auto simp: entry_order_def less_eq_prod_def)
    qed
    then have "map_of (known_entries (e # es)) (Reserved k) = None"
      by (meson map_of_SomeD not_None_eq)
    moreover have "\<not> re_key_id e < reserved_as_u16 k" "re_key_id e \<noteq> reserved_as_u16 k"
      using gt by auto
    ultimately show ?thesis by (simp del: known_entries_simps)
  qed
qed simp

lemma reserved_filter_known:
  assumes "\<And>e. e \<in> set es \<Longrightarrow> key_check e = Inr ()"
  shows "List.map_filter (\<lambda>e. map_option (\<lambda>k. (k, re_value e)) (reserved_try_from (re_key_id e))) es
         = List.map_filter (\<lambda>(k, v). case k of Reserved r \<Rightarrow> Some (r, v) | User _ \<Rightarrow> None)
             (known_entries es)"
  using assms
proof (induction es)
  case (Cons e es)
  have key: "key_check e = Inr ()" using Cons.prems by simp
  show ?case
  proof (cases "re_key_id e = USER_KEY_ID")
    case True
    moreover have "reserved_try_from USER_KEY_ID = None"
      using reserved_below_user by (metis not_None_eq reserved_try_from_Some less_irrefl)
    moreover have "utf8_valid (re_name e)"
      using key True by (auto simp: key_check_def split: if_splits)
    ultimately show ?thesis using Cons by (simp add: map_filter_simps entry_key_def)
  next
    case False
    then show ?thesis using Cons
      by (cases "reserved_try_from (re_key_id e)") (simp_all add: map_filter_simps entry_key_def)
  qed
qed (simp add: map_filter_simps)

lemma metadata_validate_Inr:
  "metadata_validate input limits = Inr (block, payload) \<longleftrightarrow>
   (\<exists>es. input = u32_to_be_bytes (word_of_nat (length block)) @ block @ payload
      \<and> length block \<le> unat (max_bytes limits)
      \<and> raw_entries block 0 = Inr es \<and> length es \<le> unat (max_entries limits)
      \<and> entries_ok limits None es)" (is "?L \<longleftrightarrow> ?R")
proof
  assume ?L
  then have len: "4 \<le> length input"
    by (auto simp: metadata_validate_def get_range_def split: if_splits)
  let ?a = "u32_from_be_bytes (slice input 0 4)"
  have b: "unat ?a \<le> length input - 4" "unat ?a \<le> unat (max_bytes limits)"
    "block = slice input 4 (4 + unat ?a)" "payload = drop (4 + unat ?a) input"
    "validate_loop limits block 0 0 None = Inr ()"
    using \<open>?L\<close> len
    by (auto simp: metadata_validate_def get_range_def Let_def word_less_nat_alt not_less
        split: if_splits)
  have lb: "length block = unat ?a" using b(1,3) len by (simp add: length_slice)
  have "u32_to_be_bytes (word_of_nat (length block)) = slice input 0 4"
    using lb len by (simp add: be_int_roundtrip length_slice)
  then have "u32_to_be_bytes (word_of_nat (length block)) @ block @ payload = input"
    using b(3,4) by (simp add: slice_def) (metis append_take_drop_id drop_drop add.commute)
  with b lb show ?R
    using validate_loop_iff [of 0 limits block 0 None] by auto
next
  assume ?R
  then obtain es where es: "input = u32_to_be_bytes (word_of_nat (length block)) @ block @ payload"
     "length block \<le> unat (max_bytes limits)"
     "raw_entries block 0 = Inr es" "length es \<le> unat (max_entries limits)"
     "entries_ok limits None es" by blast
  have "length block \<le> u32_max" using es(2) unat_u32_le_max le_trans by blast
  then have u: "unat (word_of_nat (length block) :: u32) = length block" by simp
  have "validate_loop limits block 0 0 None = Inr ()"
    using validate_loop_iff [of 0 limits block 0 None] es by auto
  then show ?L
    using es(1,2) u
    by (simp add: metadata_validate_def get_range_def Let_def slice_def word_less_nat_alt not_less del: rbind_eq_Inr)
qed

section \<open>Encoded blocks\<close>

text \<open>The well-formed blocks: what \<open>insert_reserved\<close> and \<open>insert_user\<close> can build.\<close>

definition key_ok :: "MetadataKey \<Rightarrow> bool" where
  "key_ok k = (case k of Reserved _ \<Rightarrow> True | User name \<Rightarrow> validate_user_key name = Inr ())"

definition metadata_wf :: "Metadata \<Rightarrow> bool" where
  "metadata_wf m = (bt_wf m \<and> list_all (\<lambda>(k, v). key_ok k) m)"

definition entry_bytes :: "MetadataKey \<times> bytes \<Rightarrow> bytes" where
  "entry_bytes kv =
     u16_to_be_bytes (tagged_id (fst kv)) @ [word_of_nat (length (key_name (fst kv)))]
     @ u32_to_be_bytes (word_of_nat (length (snd kv))) @ key_name (fst kv) @ snd kv"

definition block_bytes :: "Metadata \<Rightarrow> bytes" where
  "block_bytes m = concat (map entry_bytes m)"

lemma block_bytes_simps [simp]:
  "block_bytes [] = []"
  "block_bytes (kv # m) = entry_bytes kv @ block_bytes m"
  by (simp_all add: block_bytes_def)

lemma length_entry_bytes [wire_length]:
  "length (entry_bytes (k, v)) = ENTRY_HEADER_LEN + length (key_name k) + length v"
  by (simp add: entry_bytes_def ENTRY_HEADER_LEN_def)

lemma validate_user_key_ok:
  assumes "validate_user_key name = Inr ()"
  shows "0 < length name" "length name \<le> 255" "utf8_valid name"
proof -
  have "b < 0x80" if "b \<in> set name" for b
  proof -
    have "is_ascii_lowercase b \<or> is_ascii_digit b \<or> b \<in> set (str ''-_.'')"
      using assms that by (auto simp: validate_user_key_def list_all_iff split: if_splits)
    then consider "b \<le> 0x7A" | "b \<le> 0x39" | "b \<in> {0x2D, 0x5F, 0x2E}"
      by (auto simp: is_ascii_lowercase_def is_ascii_digit_def in_range_def str_def)
    then show ?thesis
      using order.strict_trans1 [of b "0x7A" "0x80"] order.strict_trans1 [of b "0x39" "0x80"]
      by cases auto
  qed
  then show "utf8_valid name" by (rule utf8_valid_ascii)
  show "0 < length name" "length name \<le> 255"
    using assms by (auto simp: validate_user_key_def split: if_splits)
qed

lemma key_name_length: "key_ok k \<Longrightarrow> length (key_name k) \<le> 255"
  by (cases k) (auto simp: key_ok_def dest: validate_user_key_ok)

lemma encode_entries_ok:
  "\<forall>(k, v) \<in> set m. key_ok k \<and> length v \<le> u32_max \<Longrightarrow>
   encode_entries out m = (out @ block_bytes m, Inr ())"
proof (induction m arbitrary: out)
  case (Cons kv m)
  obtain k v where kv: "kv = (k, v)" by (cases kv)
  have "length (key_name k) \<le> 255" "length v \<le> u32_max"
    using Cons.prems kv key_name_length by auto
  with Cons kv show ?case
    by (simp add: u8_try_from_def u32_try_from_def entry_bytes_def)
qed simp

lemma encoded_len_fold:
  "s + length (block_bytes m) \<le> usize_max \<Longrightarrow>
   try_fold encoded_len_step s m = Inr (s + length (block_bytes m))"
proof (induction m arbitrary: s)
  case (Cons kv m)
  obtain k v where kv: "kv = (k, v)" by (cases kv)
  let ?n = "ENTRY_HEADER_LEN + length (key_name k) + length v"
  have "encoded_len_step s kv = Inr (s + ?n)"
    using Cons.prems kv
    by (simp add: encoded_len_step_def usize_checked_add_def length_entry_bytes)
  with Cons kv show ?case by (simp add: length_entry_bytes)
qed simp

lemma encoded_value_bound: "(k, v) \<in> set m \<Longrightarrow> length v \<le> length (block_bytes m)"
  by (induction m) (auto simp: length_entry_bytes)

lemma encode_prefix_ok:
  assumes "metadata_wf m" "length (block_bytes m) \<le> u32_max"
  shows "encode_prefix m out =
           (out @ u32_to_be_bytes (word_of_nat (length (block_bytes m))) @ block_bytes m, Inr ())"
proof -
  have "length (block_bytes m) \<le> usize_max" using assms(2) u32_max_le_usize_max by linarith
  then have "try_fold encoded_len_step 0 m = Inr (length (block_bytes m))"
    using encoded_len_fold [of 0 m] by simp
  moreover have "\<forall>(k, v) \<in> set m. key_ok k \<and> length v \<le> u32_max"
    using assms encoded_value_bound by (fastforce simp: metadata_wf_def list_all_iff)
  ultimately show ?thesis
    using assms(2) by (simp add: encode_prefix_def u32_try_from_def encode_entries_ok)
qed

text \<open>What the raw reader makes of one encoded entry.\<close>

definition read_back :: "nat \<Rightarrow> MetadataKey \<times> bytes \<Rightarrow> RawEntry" where
  "read_back position kv =
    \<lparr>re_key_id = tagged_id (fst kv) AND KEY_MASK,
     re_critical = (tagged_id (fst kv) AND CRITICAL_BIT \<noteq> 0),
     re_name = key_name (fst kv), re_value = snd kv,
     re_value_len = word_of_nat (length (snd kv)),
     re_end = position + length (entry_bytes kv)\<rparr>"

fun read_all :: "nat \<Rightarrow> Metadata \<Rightarrow> RawEntry list" where
  "read_all position [] = []"
| "read_all position (kv # m) =
     read_back position kv # read_all (position + length (entry_bytes kv)) m"

lemma raw_entry_encoded:
  assumes "key_ok k" "length v \<le> u32_max"
    and "length pre + length (entry_bytes (k, v)) \<le> usize_max"
  shows "raw_entry (pre @ entry_bytes (k, v) @ post) (length pre) = Inr (read_back (length pre) (k, v))"
proof -
  let ?blk = "pre @ entry_bytes (k, v) @ post"
  define hdr where "hdr = u16_to_be_bytes (tagged_id k) @ [word_of_nat (length (key_name k))]
     @ u32_to_be_bytes (word_of_nat (length v))"
  have nl: "length (key_name k) \<le> 255" using assms(1) key_name_length by blast
  then have un: "unat (word_of_nat (length (key_name k)) :: u8) = length (key_name k)"
    by (rule unat_u8_of_nat)
  have eb: "entry_bytes (k, v) = hdr @ key_name k @ v" by (simp add: entry_bytes_def hdr_def)
  have lh: "length hdr = 7" by (simp add: hdr_def)
  have g1: "get_range ?blk (length pre) (length pre + 7) = Some hdr"
    using lh eb by (simp add: get_range_def slice_def)
  have g2: "get_range ?blk (length pre + 7) (length pre + 7 + length (key_name k)) = Some (key_name k)"
    using lh eb by (simp add: get_range_def slice_def)
  have g3: "get_range ?blk (length pre + 7 + length (key_name k))
      (length pre + 7 + length (key_name k) + length v) = Some v"
    using lh eb by (simp add: get_range_def slice_def)
  have h: "slice hdr 0 2 = u16_to_be_bytes (tagged_id k)" "hdr ! 2 = word_of_nat (length (key_name k))"
    "slice hdr 3 7 = u32_to_be_bytes (word_of_nat (length v))"
    by (simp_all add: hdr_def slice_def nth_append)
  have ub: "length pre + 7 + length (key_name k) + length v \<le> usize_max"
    using assms(3) by (simp add: length_entry_bytes ENTRY_HEADER_LEN_def)
  then have c: "usize_checked_add (length pre) 7 = Some (length pre + 7)"
    "usize_checked_add (length pre + 7) (length (key_name k)) = Some (length pre + 7 + length (key_name k))"
    "usize_checked_add (length pre + 7 + length (key_name k)) (length v) =
       Some (length pre + 7 + length (key_name k) + length v)"
    by (simp_all add: usize_checked_add_def)
  show ?thesis
    unfolding raw_entry_def ENTRY_HEADER_LEN_def c(1) ok_or_simps rbind_simps g1 Let_def h
    using un assms(2) c(2,3) g2 g3
    by (simp add: read_back_def length_entry_bytes ENTRY_HEADER_LEN_def del: rbind_eq_Inr)
qed

lemma raw_entries_encoded:
  "\<lbrakk>\<forall>(k, v) \<in> set m. key_ok k; length (pre @ block_bytes m) \<le> u32_max\<rbrakk> \<Longrightarrow>
   raw_entries (pre @ block_bytes m) (length pre) = Inr (read_all (length pre) m)"
proof (induction m arbitrary: pre)
  case Nil
  then show ?case by (simp add: raw_entries.simps)
next
  case (Cons kv m)
  obtain k v where kv: "kv = (k, v)" by (cases kv)
  have ok: "key_ok k" using Cons.prems(1) kv by simp
  have lens: "length v \<le> u32_max" "length pre + length (entry_bytes (k, v)) \<le> usize_max"
    using Cons.prems(2) kv u32_max_le_usize_max by (simp_all add: length_entry_bytes)
  have e: "raw_entry (pre @ block_bytes (kv # m)) (length pre) = Inr (read_back (length pre) (k, v))"
    using raw_entry_encoded [OF ok lens, of "block_bytes m"] kv by simp
  have pos: "length pre < length (pre @ block_bytes (kv # m))"
    using kv by (simp add: length_entry_bytes ENTRY_HEADER_LEN_def)
  have IH: "raw_entries ((pre @ entry_bytes kv) @ block_bytes m) (length (pre @ entry_bytes kv)) =
      Inr (read_all (length (pre @ entry_bytes kv)) m)"
    by (rule Cons.IH) (use Cons.prems in auto)
  show ?case
    using e pos IH kv
    by (simp add: raw_entries.simps [of _ "length pre"] read_back_def)
qed

lemma tagged_id_masked [simp]:
  "(CRITICAL_BIT OR reserved_as_u16 r) AND KEY_MASK = reserved_as_u16 r"
  "USER_KEY_ID AND KEY_MASK = USER_KEY_ID"
proof -
  show "(CRITICAL_BIT OR reserved_as_u16 r) AND KEY_MASK = reserved_as_u16 r"
    by (cases r) (simp_all add: CRITICAL_BIT_def KEY_MASK_def)
  show "USER_KEY_ID AND KEY_MASK = USER_KEY_ID"
    by (simp add: CRITICAL_BIT_def KEY_MASK_def USER_KEY_ID_def)
qed

lemma reserved_not_user [simp]:
  "reserved_as_u16 r \<noteq> USER_KEY_ID" "reserved_try_from (reserved_as_u16 r) = Some r"
  using reserved_below_user [of r] by (auto simp: reserved_try_from_Some)

lemma read_back_key [simp]:
  assumes "key_ok k"
  shows "entry_key (read_back p (k, v)) = Inr (Some k)"
    and "key_check (read_back p (k, v)) = Inr ()"
  using assms
  by (cases k; simp add: entry_key_def key_check_def read_back_def key_ok_def validate_user_key_ok)+

lemma read_back_value [simp]: "re_value (read_back p (k, v)) = v"
  by (simp add: read_back_def)

lemma read_back_order:
  "entry_order (read_back p (k, v)) =
    (case k of Reserved r \<Rightarrow> (reserved_as_u16 r, []) | User n \<Rightarrow> (USER_KEY_ID, n))"
  by (cases k) (simp_all add: entry_order_def read_back_def)

lemma read_back_mono: "k < k' \<Longrightarrow> entry_order (read_back p (k, v)) < entry_order (read_back p' (k', v'))"
  by (cases k; cases k') (simp_all add: read_back_order less_prod_def reserved_below_user)

lemma known_read_all: "\<forall>(k, v) \<in> set m. key_ok k \<Longrightarrow> known_entries (read_all p m) = m"
  by (induction m arbitrary: p) auto

lemma length_read_all [simp]: "length (read_all p m) = length m"
  by (induction m arbitrary: p) auto

lemma read_all_ok:
  assumes "bt_wf m" "\<And>k v. (k, v) \<in> set m \<Longrightarrow> key_ok k \<and> length v \<le> unat (max_value_bytes limits)"
    and "\<And>q. previous = Some q \<Longrightarrow> \<forall>k v p. (k, v) \<in> set m \<longrightarrow> q < entry_order (read_back p (k, v))"
  shows "entries_ok limits previous (read_all p m)"
  using assms
proof (induction m arbitrary: p previous)
  case (Cons kv m)
  obtain k v where kv: "kv = (k, v)" by (cases kv)
  have lv: "length v \<le> unat (max_value_bytes limits)" and ok: "key_ok k"
    using Cons.prems(2) kv by auto
  have "length v \<le> u32_max" using lv unat_u32_le_max le_trans by blast
  then have "re_value_len (read_back p kv) \<le> max_value_bytes limits"
    using lv kv by (simp add: read_back_def word_le_nat_alt)
  moreover have "order_check previous (read_back p kv) = Inr ()"
    using Cons.prems(3) kv by (cases previous) auto
  moreover have "entries_ok limits (Some (entry_order (read_back p kv)))
      (read_all (p + length (entry_bytes kv)) m)"
  proof (rule Cons.IH)
    show "bt_wf m" using Cons.prems(1) by (simp add: bt_wf_Cons)
    show "\<forall>k' v' p'. (k', v') \<in> set m \<longrightarrow> q < entry_order (read_back p' (k', v'))"
      if "Some (entry_order (read_back p kv)) = Some q" for q
      using that Cons.prems(1) kv read_back_mono by (fastforce simp: bt_wf_Cons)
  qed (use Cons.prems(2) in auto)
  ultimately show ?case using ok kv by simp
qed simp

lemma raw_entry_value_len: "raw_entry block p = Inr e \<Longrightarrow> length (re_value e) = unat (re_value_len e)"
  by (auto simp: raw_entry_def Let_def usize_checked_add_def get_range_Some length_slice split: if_splits)

lemma raw_entries_value_len:
  "raw_entries block p = Inr es \<Longrightarrow> e \<in> set es \<Longrightarrow> length (re_value e) = unat (re_value_len e)"
proof (induction block p arbitrary: es rule: raw_entries.induct)
  case (1 block p)
  show ?case
  proof (cases "p < length block")
    case False
    with "1.prems" show ?thesis by (simp add: raw_entries.simps [of _ p])
  next
    case True
    then obtain e' es' where e: "raw_entry block p = Inr e'"
      "raw_entries block (re_end e') = Inr es'" "es = e' # es'"
      using "1.prems" by (auto simp: raw_entries.simps [of _ p] split: sum.splits)
    show ?thesis
      using "1.IH" [OF True e(1) e(2)] "1.prems"(2) e raw_entry_value_len by auto
  qed
qed

lemma known_entries_length: "length (known_entries es) \<le> length es"
  by (induction es) (auto split: sum.splits option.splits)

lemma known_entries_keys_ok:
  "\<lbrakk>\<forall>e \<in> set es. key_check e = Inr (); (k, v) \<in> set (known_entries es)\<rbrakk> \<Longrightarrow> key_ok k"
  by (auto simp: in_known_entries entry_key_def key_check_def key_ok_def split: if_splits)

lemma metadata_validate_known:
  assumes "metadata_validate input limits = Inr (block, payload)"
  obtains es where "raw_entries block 0 = Inr es" "entries_ok limits None es"
    "length es \<le> unat (max_entries limits)" "into_metadata block = Inr (known_entries es)"
  using assms into_metadata_known by (auto simp: metadata_validate_Inr)

lemma metadata_wf_keys: "metadata_wf m \<longleftrightarrow> bt_wf m \<and> (\<forall>k \<in> fst ` set m. key_ok k)"
  by (auto simp: metadata_wf_def list_all_iff)

lemma metadata_insert_ok:
  assumes "metadata_wf m" "key_ok k" "metadata_insert k v m = Inr m'"
  shows "metadata_wf m' \<and> metadata_get m k = None \<and> metadata_get m' = (metadata_get m)(k \<mapsto> v)"
proof -
  have m': "m' = bt_insert k v m" and new: "bt_get m k = None"
    using assms(3) by (auto simp: metadata_insert_def bt_contains_def split: if_splits)
  have "metadata_wf m'"
    using assms(1,2) by (simp add: metadata_wf_keys m' bt_insert_wf bt_insert_fst)
  moreover have "metadata_get m' = (metadata_get m)(k \<mapsto> v)"
    using assms(1) by (simp add: fun_eq_iff metadata_get_def m' bt_get_def metadata_wf_def bt_insert_map_of)
  ultimately show ?thesis using new by (simp add: metadata_get_def)
qed

lemmas metadata_eval = raw_entry_def Let_def usize_checked_add_def usize_max_def get_range_def slice_def
  u16_checked_add_def u16_from_be_bytes_def u32_from_be_bytes_def from_be_def ENTRY_HEADER_LEN_def
  KEY_MASK_def CRITICAL_BIT_def USER_KEY_ID_def

lemma validate_encoded:
  assumes "metadata_wf m" and "length (block_bytes m) \<le> unat (max_bytes limits)"
    and "length m \<le> unat (max_entries limits)"
    and "\<forall>(k, v) \<in> set m. length v \<le> unat (max_value_bytes limits)"
  shows "metadata_validate ((u32_to_be_bytes (word_of_nat (length (block_bytes m))) @ block_bytes m) @ payload)
           limits = Inr (block_bytes m, payload)"
    and "into_metadata (block_bytes m) = Inr m"
proof -
  have len: "length (block_bytes m) \<le> u32_max" using assms(2) unat_u32_le_max le_trans by blast
  have keys: "\<forall>(k, v) \<in> set m. key_ok k" and wf: "bt_wf m"
    using assms(1) by (auto simp: metadata_wf_def list_all_iff)
  have ok: "entries_ok limits None (read_all 0 m)"
    by (rule read_all_ok) (use keys wf assms(4) in auto)
  have raw: "raw_entries (block_bytes m) 0 = Inr (read_all 0 m)"
    using raw_entries_encoded [of m "[]"] keys len by simp
  show "metadata_validate ((u32_to_be_bytes (word_of_nat (length (block_bytes m))) @ block_bytes m) @ payload)
      limits = Inr (block_bytes m, payload)"
    using assms(2,3) raw ok by (auto simp: metadata_validate_Inr)
  show "into_metadata (block_bytes m) = Inr m"
    using into_metadata_known [OF raw ok] known_read_all [OF keys] by simp
qed

lemma reserved_entries_validated:
  assumes "metadata_validate input limits = Inr (block, payload)" "into_metadata block = Inr m"
  shows "reserved_entries block =
    List.map_filter (\<lambda>(k, v). case k of Reserved r \<Rightarrow> Some (r, v) | User _ \<Rightarrow> None) m"
proof -
  obtain es where es: "raw_entries block 0 = Inr es" "entries_ok limits None es"
    "into_metadata block = Inr (known_entries es)"
    using assms(1) by (rule metadata_validate_known)
  then have "\<And>e. e \<in> set es \<Longrightarrow> key_check e = Inr ()" and "m = known_entries es"
    using entries_ok_elems [OF es(2)] assms(2) by auto
  then show ?thesis
    using reserved_filter_known by (simp add: reserved_entries_def reserved_entries_from_entries [OF es(1)])
qed

lemma get_reserved_validated:
  assumes "metadata_validate input limits = Inr (block, payload)" "into_metadata block = Inr m"
  shows "get_reserved block key = metadata_get m (Reserved key)"
proof -
  obtain es where es: "raw_entries block 0 = Inr es" "entries_ok limits None es"
    "into_metadata block = Inr (known_entries es)"
    using assms(1) by (rule metadata_validate_known)
  then have keys: "\<And>e. e \<in> set es \<Longrightarrow> key_check e = Inr ()" and m: "m = known_entries es"
    using entries_ok_elems [OF es(2)] assms(2) by auto
  show ?thesis
    using sorted_find_id [OF _ keys] entries_ok_sorted [OF es(2)] m
    by (simp add: get_reserved_def get_reserved_from_entries [OF es(1)] metadata_get_def bt_get_def)
qed

section \<open>Properties\<close>

text \<open>Claim C9. Metadata round trip: a well-formed block within the receiver's limits is written
  without error, appended to whatever the buffer held, and the receiver decodes exactly the same
  block and hands back exactly the application payload that followed it.\<close>

theorem metadata_roundtrip:
  assumes "metadata_wf m" and "length (block_bytes m) \<le> unat (max_bytes limits)"
    and "length m \<le> unat (max_entries limits)"
    and "\<forall>(k, v) \<in> set m. length v \<le> unat (max_value_bytes limits)"
  shows "\<exists>bs. encode_prefix m out = (out @ bs, Inr ())
           \<and> metadata_decode (bs @ payload) limits = Inr (m, payload)"
  using encode_prefix_ok [OF assms(1), of out] validate_encoded(1) [OF assms, of payload] validate_encoded(2) [OF assms]
    assms(2) le_trans [OF _ unat_u32_le_max]
  by (auto simp: metadata_decode_def)

theorem metadata_roundtrip_witness:
  "\<exists>bs. encode_prefix [(Reserved DeadlineMillis, [0, 0, 0, 5]), (User [0x61], [1])] [] = ([] @ bs, Inr ())
     \<and> metadata_decode (bs @ [42]) metadata_limits_default =
         Inr ([(Reserved DeadlineMillis, [0, 0, 0, 5]), (User [0x61], [1])], [42])"
  by (rule metadata_roundtrip)
    (simp_all add: metadata_wf_def bt_wf_def key_ok_def validate_user_key_def is_ascii_lowercase_def
      in_range_def length_entry_bytes ENTRY_HEADER_LEN_def metadata_limits_default_def)

text \<open>Validation is complete: once a block has been validated, materialising it cannot
  fail, and the owned block is well formed (strictly ordered, valid user keys) and within the entry
  count and value limits.  So \<open>decode\<close> fails only where \<open>validate\<close> does.\<close>

theorem validated_block_materialises:
  assumes "metadata_validate input limits = Inr (block, payload)"
  shows "\<exists>m. into_metadata block = Inr m \<and> metadata_decode input limits = Inr (m, payload)
           \<and> metadata_wf m \<and> length m \<le> unat (max_entries limits)
           \<and> (\<forall>(k, v) \<in> set m. length v \<le> unat (max_value_bytes limits))
           \<and> length block \<le> unat (max_bytes limits)
           \<and> input = u32_to_be_bytes (word_of_nat (length block)) @ block @ payload"
proof -
  obtain es where es: "raw_entries block 0 = Inr es" "entries_ok limits None es"
    "length es \<le> unat (max_entries limits)" "into_metadata block = Inr (known_entries es)"
    using assms by (rule metadata_validate_known)
  have "metadata_wf (known_entries es)"
    using known_entries_wf [OF es(2)] known_entries_keys_ok entries_ok_elems [OF es(2)]
    by (fastforce simp: metadata_wf_def list_all_iff)
  moreover have "length (known_entries es) \<le> unat (max_entries limits)"
    using known_entries_length [of es] es(3) by linarith
  moreover have "\<forall>(k, v) \<in> set (known_entries es). length v \<le> unat (max_value_bytes limits)"
    using entries_ok_elems [OF es(2)] raw_entries_value_len [OF es(1)]
    by (auto simp: in_known_entries word_le_nat_alt)
  ultimately show ?thesis using assms es(4)
    by (auto simp: metadata_decode_def metadata_validate_Inr)
qed

theorem validated_block_materialises_witness:
  "\<exists>m. into_metadata [] = Inr m \<and> metadata_decode [0, 0, 0, 0, 9] metadata_limits_default = Inr (m, [9])
     \<and> metadata_wf m \<and> length m \<le> unat (max_entries metadata_limits_default)
     \<and> (\<forall>(k, v) \<in> set m. length v \<le> unat (max_value_bytes metadata_limits_default))
     \<and> length ([] :: bytes) \<le> unat (max_bytes metadata_limits_default)
     \<and> [0, 0, 0, 0, 9] = u32_to_be_bytes (word_of_nat (length ([] :: bytes))) @ [] @ [9]"
proof (rule validated_block_materialises)
  show "metadata_validate [0, 0, 0, 0, 9] metadata_limits_default = Inr ([], [9])"
    by code_simp
qed

text \<open>The allocation-free views agree with the owned block: on a validated block,
  \<open>get_reserved\<close> (with its early exit on a larger key) is the lookup in the materialised metadata,
  and \<open>reserved_entries\<close> iterates over exactly its runtime-owned bindings in key order.\<close>

theorem borrowed_views_agree:
  assumes "metadata_validate input limits = Inr (block, payload)"
    and "into_metadata block = Inr m"
  shows "get_reserved block key = metadata_get m (Reserved key)
    \<and> reserved_entries block =
        List.map_filter (\<lambda>(k, v). case k of Reserved r \<Rightarrow> Some (r, v) | User _ \<Rightarrow> None) m"
  using get_reserved_validated [OF assms] reserved_entries_validated [OF assms] by simp

theorem borrowed_views_agree_witness:
  "get_reserved [0x80, 1, 0, 0, 0, 0, 1, 7] DeadlineMillis =
     metadata_get [(Reserved DeadlineMillis, [7])] (Reserved DeadlineMillis)"
proof -
  have "metadata_validate [0, 0, 0, 8, 0x80, 1, 0, 0, 0, 0, 1, 7] metadata_limits_default =
      Inr ([0x80, 1, 0, 0, 0, 0, 1, 7], [])"
    by (simp add: metadata_validate_def validate_loop.simps order_check_def key_check_def
        metadata_limits_default_def reserved_try_from_def metadata_eval del: rbind_eq_Inr ok_or_eq_Inr)
  moreover have "into_metadata [0x80, 1, 0, 0, 0, 0, 1, 7] = Inr [(Reserved DeadlineMillis, [7])]"
    by (simp add: into_metadata_def into_metadata_from.simps entry_key_def metadata_insert_def metadata_new_def
        bt_contains_def bt_get_def reserved_try_from_def metadata_eval del: rbind_eq_Inr ok_or_eq_Inr)
  ultimately show ?thesis using borrowed_views_agree by blast
qed

text \<open>Insertion keeps the block well formed, never overwrites: a key that is present is
  refused, and otherwise the new binding is the only change.  A user key that is not 1 to 255 bytes of
  lower-case ASCII, digits, or one of the three punctuation bytes is refused.\<close>

theorem metadata_insert_sound:
  assumes "metadata_wf m"
  shows "(insert_reserved r v m = Inl DuplicateMetadataKey) = (metadata_get m (Reserved r) \<noteq> None)
    \<and> (\<forall>m'. insert_reserved r v m = Inr m' \<longrightarrow>
           metadata_wf m' \<and> metadata_get m' = (metadata_get m)(Reserved r \<mapsto> v))
    \<and> (\<forall>m'. insert_user n v m = Inr m' \<longrightarrow>
           metadata_wf m' \<and> metadata_get m (User n) = None
           \<and> metadata_get m' = (metadata_get m)(User n \<mapsto> v)
           \<and> 0 < length n \<and> length n \<le> 255)"
proof (intro conjI allI impI)
  show "(insert_reserved r v m = Inl DuplicateMetadataKey) = (metadata_get m (Reserved r) \<noteq> None)"
    by (auto simp: insert_reserved_def metadata_insert_def bt_contains_def metadata_get_def)
next
  fix m' assume "insert_reserved r v m = Inr m'"
  then have "metadata_insert (Reserved r) v m = Inr m'" by (simp add: insert_reserved_def)
  from metadata_insert_ok [OF assms _ this]
  show "metadata_wf m'" "metadata_get m' = (metadata_get m)(Reserved r \<mapsto> v)"
    by (simp_all add: key_ok_def)
next
  fix m' assume "insert_user n v m = Inr m'"
  then have key: "validate_user_key n = Inr ()" and "metadata_insert (User n) v m = Inr m'"
    by (auto simp: insert_user_def)
  from metadata_insert_ok [OF assms _ this(2)] key
  show "metadata_wf m'" "metadata_get m (User n) = None" "metadata_get m' = (metadata_get m)(User n \<mapsto> v)"
    by (simp_all add: key_ok_def)
  show "0 < length n" "length n \<le> 255" using validate_user_key_ok [OF key] by simp_all
qed

theorem metadata_insert_sound_witness:
  "metadata_get [(Reserved DeadlineMillis, [7])] (Reserved DeadlineMillis) = Some [7]
   \<and> insert_reserved DeadlineMillis [9] [(Reserved DeadlineMillis, [7])] = Inl DuplicateMetadataKey"
proof -
  have "metadata_wf [(Reserved DeadlineMillis, [7])]" by code_simp
  from metadata_insert_sound [OF this, of DeadlineMillis "[9]" "[]"]
  show ?thesis by (simp add: metadata_get_def bt_get_def)
qed

end
