(* ===== verification/Middleware.thy ===== *)
theory Middleware
  imports Wire_Metadata
begin

text \<open>
  Server middleware, crates/moonlight-bridge-server/src/middleware.rs: the request context, the
  single-use continuation \<open>Next\<close> with its panic barriers, and the cancellation guard.

  A layer is application code, a parameter: given the context and body it is a \<open>layer_prog\<close>, the tree of
  what it does with its continuation.  \<open>Next\<close> is \<open>Clone\<close>, so a layer may call it any number of
  times; \<open>run_prog\<close> interprets the tree against the shared \<open>called\<close> flag.  A handler is a
  parameter too: it returns or panics.
\<close>

record HandlerError =
  he_code :: ErrorCode
  he_message :: bytes

definition handler_error_internal :: "string \<Rightarrow> HandlerError" where
  "handler_error_internal message = \<lparr>he_code = Internal, he_message = str message\<rparr>"

type_synonym handler_result = "HandlerError + bytes"

datatype 'a outcome = Returned 'a | Panicked

type_synonym handler = "bytes \<Rightarrow> handler_result outcome"

record PeerIdentity =
  tls_leaf_certificate :: bytes

record RequestContext =
  ctx_method_id :: u32
  ctx_request_id :: u64
  ctx_deadline :: "nat option"
  ctx_metadata :: Metadata
  ctx_required_scopes :: "bytes list"
  ctx_peer_identity :: "PeerIdentity option"

datatype layer_prog =
    LReturn handler_result
  | LPanic
  | LNext RequestContext bytes "handler_result \<Rightarrow> layer_prog"

type_synonym layer = "RequestContext \<Rightarrow> bytes \<Rightarrow> layer_prog"

text \<open>What happened, in order: the layer at a depth was entered, the handler was invoked.\<close>

datatype chain_event = EnterLayer nat RequestContext bytes | InvokeHandler bytes

definition repeated_next :: handler_result where
  "repeated_next = Inl (handler_error_internal ''middleware continuation was invoked more than once'')"

definition catch_unwind :: "string \<Rightarrow> handler_result outcome \<Rightarrow> handler_result" where
  "catch_unwind who r =
    (case r of Returned v \<Rightarrow> v | Panicked \<Rightarrow> Inl (handler_error_internal (who @ '' panicked'')))"

text \<open>A layer's run against its continuation \<open>inner\<close>; \<open>called\<close> is the flag of that continuation.\<close>

primrec run_prog :: "layer_prog \<Rightarrow> bool \<Rightarrow> (RequestContext \<Rightarrow> bytes \<Rightarrow> handler_result \<times> chain_event list)
    \<Rightarrow> handler_result outcome \<times> chain_event list" where
  "run_prog (LReturn r) = (\<lambda>called inner. (Returned r, []))"
| "run_prog LPanic = (\<lambda>called inner. (Panicked, []))"
| "run_prog (LNext ctx input k) = (\<lambda>called inner.
     if called then run_prog (k repeated_next) True inner
     else
       let (r, events) = inner ctx input;
           (r', events') = run_prog (k r) True inner in
       (r', events @ events'))"

text \<open>\<open>Next::run\<close> of the continuation at \<open>index\<close>, called for the first time.\<close>

fun next_run :: "nat \<Rightarrow> layer list \<Rightarrow> handler \<Rightarrow> RequestContext \<Rightarrow> bytes \<Rightarrow> handler_result \<times> chain_event list" where
  "next_run index [] handler ctx input =
     (catch_unwind ''handler'' (handler input), [InvokeHandler input])"
| "next_run index (layer # layers) handler ctx input =
    (let (r, events) = run_prog (layer ctx input) False (next_run (index + 1) layers handler) in
     (catch_unwind ''middleware'' r, EnterLayer index ctx input # events))"

definition next_root_run :: "layer list \<Rightarrow> handler \<Rightarrow> RequestContext \<Rightarrow> bytes \<Rightarrow> handler_result \<times> chain_event list" where
  "next_root_run layers handler ctx input = next_run 0 layers handler ctx input"

section \<open>Cancellation\<close>

text \<open>The guard with the signal it will set.\<close>

record CancellationGuard =
  cg_signal :: bool
  cg_completed :: bool

definition guard_new :: "bool \<Rightarrow> CancellationGuard" where
  "guard_new signal = \<lparr>cg_signal = signal, cg_completed = False\<rparr>"

definition guard_complete :: "CancellationGuard \<Rightarrow> CancellationGuard" where
  "guard_complete g = g\<lparr>cg_completed := True\<rparr>"

text \<open>The value of the signal after the guard was dropped.\<close>

definition guard_drop :: "CancellationGuard \<Rightarrow> bool" where
  "guard_drop g = (if \<not> cg_completed g then True else cg_signal g)"

section \<open>Lemmas\<close>

fun is_invocation :: "chain_event \<Rightarrow> bool" where
  "is_invocation (InvokeHandler _) = True"
| "is_invocation (EnterLayer _ _ _) = False"

fun layer_index :: "chain_event \<Rightarrow> nat option" where
  "layer_index (EnterLayer i _ _) = Some i"
| "layer_index (InvokeHandler _) = None"

lemma run_prog_called: "snd (run_prog p True inner) = []"
  by (induction p) simp_all

lemma run_prog_events:
  "snd (run_prog p False inner) = [] \<or> (\<exists>ctx input. snd (run_prog p False inner) = snd (inner ctx input))"
proof (induction p)
  case (LNext ctx input k)
  obtain r ev where "inner ctx input = (r, ev)" by (cases "inner ctx input")
  moreover have "snd (run_prog (k r) True inner) = []" by (rule run_prog_called)
  ultimately have "snd (run_prog (LNext ctx input k) False inner) = snd (inner ctx input)"
    by (cases "run_prog (k r) True inner") simp
  then show ?case by blast
qed simp_all

lemma next_run_events:
  "snd (next_run n (layer # layers) handler ctx input) =
     EnterLayer n ctx input # snd (run_prog (layer ctx input) False (next_run (n + 1) layers handler))"
  by (simp add: Let_def split: prod.splits)

lemma next_run_once:
  "length (filter is_invocation (snd (next_run n layers handler ctx input))) \<le> 1
   \<and> (\<exists>m \<le> length layers. List.map_filter layer_index (snd (next_run n layers handler ctx input)) = [n..<n + m])
   \<and> (\<forall>e \<in> set (snd (next_run n layers handler ctx input)). is_invocation e \<longrightarrow>
        List.map_filter layer_index (snd (next_run n layers handler ctx input)) = [n..<n + length layers])"
proof (induction layers arbitrary: n ctx input)
  case Nil
  then show ?case by (simp add: map_filter_simps)
next
  case (Cons layer layers)
  let ?inner = "next_run (n + 1) layers handler"
  let ?ev = "snd (run_prog (layer ctx input) False ?inner)"
  have split: "snd (next_run n (layer # layers) handler ctx input) = EnterLayer n ctx input # ?ev"
    by (rule next_run_events)
  from run_prog_events [of "layer ctx input" ?inner] show ?case
  proof
    assume none: "?ev = []"
    show ?thesis unfolding split none by (auto simp: map_filter_simps intro!: exI [of _ 1])
  next
    assume "\<exists>c b. ?ev = snd (?inner c b)"
    then obtain c b where ev: "?ev = snd (?inner c b)" by blast
    from Cons.IH [of "n + 1" c b] obtain m where m: "m \<le> length layers"
      "List.map_filter layer_index ?ev = [n + 1..<n + 1 + m]"
      "length (filter is_invocation ?ev) \<le> 1"
      "\<forall>e \<in> set ?ev. is_invocation e \<longrightarrow>
        List.map_filter layer_index ?ev = [n + 1..<n + 1 + length layers]"
      unfolding ev by auto
    have "[n..<n + Suc k] = n # [n + 1..<n + 1 + k]" for k using upt_conv_Cons [of n "n + Suc k"] by simp
    with m show ?thesis unfolding split
      by (auto simp: map_filter_simps intro!: exI [of _ "Suc m"])
  qed
qed

text \<open>A layer that refuses a request, whatever it is called with, keeps the handler from running.\<close>

definition refuses :: "layer \<Rightarrow> bool" where
  "refuses l = (\<forall>ctx input. case l ctx input of LNext _ _ _ \<Rightarrow> False | _ \<Rightarrow> True)"

lemma refuses_no_events: "refuses l \<Longrightarrow> snd (run_prog (l ctx input) False inner) = []"
  unfolding refuses_def by (cases "l ctx input") (auto split: layer_prog.splits dest: spec [of _ ctx])

lemma next_run_refused:
  "\<exists>l \<in> set layers. refuses l \<Longrightarrow> filter is_invocation (snd (next_run n layers handler ctx input)) = []"
proof (induction layers arbitrary: n ctx input)
  case (Cons layer layers)
  let ?inner = "next_run (n + 1) layers handler"
  have split: "snd (next_run n (layer # layers) handler ctx input) =
      EnterLayer n ctx input # snd (run_prog (layer ctx input) False ?inner)"
    by (rule next_run_events)
  show ?case
  proof (cases "refuses layer")
    case True
    then show ?thesis unfolding split by (simp add: refuses_no_events)
  next
    case False
    then have "\<exists>l \<in> set layers. refuses l" using Cons.prems by simp
    then have "filter is_invocation (snd (?inner c b)) = []" for c b using Cons.IH by blast
    then show ?thesis
      using run_prog_events [of "layer ctx input" ?inner] unfolding split by auto
  qed
qed simp

text \<open>A layer that hands on only contexts with the property it was given one with, and a layer that does
  not go on for contexts with the property.  The scopes of a context cannot be changed by a layer.\<close>

definition keeps :: "(RequestContext \<Rightarrow> bool) \<Rightarrow> layer \<Rightarrow> bool" where
  "keeps P l = (\<forall>ctx input. P ctx \<longrightarrow> (case l ctx input of LNext c _ _ \<Rightarrow> P c | _ \<Rightarrow> True))"

definition refuses_when :: "(RequestContext \<Rightarrow> bool) \<Rightarrow> layer \<Rightarrow> bool" where
  "refuses_when P l = (\<forall>ctx input. P ctx \<longrightarrow> (case l ctx input of LNext _ _ _ \<Rightarrow> False | _ \<Rightarrow> True))"

lemma next_run_refused_when:
  "(\<forall>l \<in> set layers. keeps P l) \<Longrightarrow> (\<exists>l \<in> set layers. refuses_when P l) \<Longrightarrow> P ctx \<Longrightarrow>
   filter is_invocation (snd (next_run n layers handler ctx input)) = []"
proof (induction layers arbitrary: n ctx input)
  case (Cons layer layers)
  let ?inner = "next_run (n + 1) layers handler"
  have split: "snd (next_run n (layer # layers) handler ctx input) =
      EnterLayer n ctx input # snd (run_prog (layer ctx input) False ?inner)"
    by (rule next_run_events)
  show ?case
  proof (cases "layer ctx input")
    case (LNext c b k)
    then have "\<not> (case layer ctx input of LNext _ _ _ \<Rightarrow> False | _ \<Rightarrow> True)" by simp
    then have "\<not> refuses_when P layer" using Cons.prems(3) unfolding refuses_when_def by blast
    then have "\<exists>l \<in> set layers. refuses_when P l" using Cons.prems(2) by auto
    moreover have "P c" using Cons.prems(1,3) LNext by (auto simp: keeps_def dest!: spec [of _ ctx] spec [of _ input])
    ultimately have "filter is_invocation (snd (?inner c b)) = []" using Cons.IH Cons.prems(1) by simp
    moreover obtain res ev where "?inner c b = (res, ev)" by fastforce
    ultimately show ?thesis
      unfolding split using LNext run_prog_called [of "k res" ?inner]
      by (auto simp: Let_def split: prod.splits)
  qed (simp_all add: split)
qed simp

section \<open>Properties\<close>

text \<open>Claim C25. The chain runs each stage at most once: however the layers use their cloneable
  continuations, the layers are entered in registration order starting with the first, none twice, the
  handler is invoked at most once and only after every layer was entered, and it is never invoked when
  some layer does not call its continuation.\<close>

theorem middleware_runs_once:
  "\<exists>m \<le> length layers. List.map_filter layer_index (snd (next_root_run layers handler ctx input)) = [0..<m]
     \<and> length (filter is_invocation (snd (next_root_run layers handler ctx input))) \<le> 1
     \<and> (filter is_invocation (snd (next_root_run layers handler ctx input)) = [] \<or> m = length layers)
     \<and> ((\<exists>l \<in> set layers. refuses l) \<longrightarrow>
          filter is_invocation (snd (next_root_run layers handler ctx input)) = [])"
proof -
  let ?ev = "snd (next_root_run layers handler ctx input)"
  from next_run_once [of 0 layers handler ctx input] obtain m where m: "m \<le> length layers"
    "List.map_filter layer_index ?ev = [0..<m]" "length (filter is_invocation ?ev) \<le> 1"
    "\<forall>e \<in> set ?ev. is_invocation e \<longrightarrow> List.map_filter layer_index ?ev = [0..<length layers]"
    by (auto simp: next_root_run_def)
  have "filter is_invocation ?ev = [] \<or> m = length layers"
    using m(2,4) by (auto simp: filter_empty_conv dest!: bspec) (metis diff_zero length_upt)
  with m next_run_refused [of layers 0 handler ctx input] show ?thesis
    by (intro exI [of _ m]) (simp add: next_root_run_def)
qed

definition sample_context :: RequestContext where
  "sample_context = \<lparr>ctx_method_id = 7, ctx_request_id = 1, ctx_deadline = None, ctx_metadata = [],
     ctx_required_scopes = [str ''admin''], ctx_peer_identity = None\<rparr>"

theorem middleware_runs_once_witness:
  "filter is_invocation (snd (next_root_run [\<lambda>c b. LNext c b LReturn, \<lambda>c b. LReturn (Inr [])]
     (\<lambda>b. Returned (Inr b)) sample_context [1])) = []"
proof -
  have "refuses (\<lambda>c b. LReturn (Inr []))" by (simp add: refuses_def)
  then show ?thesis
    using middleware_runs_once [of "[\<lambda>c b. LNext c b LReturn, \<lambda>c b. LReturn (Inr [])]"
        "\<lambda>b. Returned (Inr b)" sample_context "[1]"] by auto
qed

text \<open>Panics do not escape the chain: a panicking handler or layer becomes an internal error
  that names it.\<close>

theorem middleware_contains_panics:
  assumes "handler input = Panicked"
  shows "fst (next_root_run [] handler ctx input) = Inl (handler_error_internal ''handler panicked'')
    \<and> (layer ctx input = LPanic \<longrightarrow>
         fst (next_root_run (layer # layers) handler ctx input) =
           Inl (handler_error_internal ''middleware panicked''))
    \<and> fst (next_root_run [\<lambda>c b. LNext c b LReturn] handler ctx input) =
        Inl (handler_error_internal ''handler panicked'')"
  using assms by (simp add: next_root_run_def catch_unwind_def)

theorem middleware_contains_panics_witness:
  "fst (next_root_run [\<lambda>c b. LNext c b LReturn] (\<lambda>_. Panicked) sample_context [1]) =
     Inl (handler_error_internal ''handler panicked'')"
  using middleware_contains_panics [of "\<lambda>_. Panicked" "[1]" sample_context "\<lambda>c b. LPanic" "[]"] by simp

end
