(* ===== verification/Telemetry.thy ===== *)
theory Telemetry
  imports Wire_Protocol "HOL-Library.Multiset"
begin

text \<open>
  Request telemetry, crates/moonlight-bridge-server/src/lib.rs: function stages, the fan-out
  \<open>TelemetryChain\<close>, the lock-free counters \<open>MoonLightMetrics\<close> and the
  \<open>DeferredObservation\<close> that stays open until the response is written.

  A telemetry back end is a parameter: what \<open>start_request\<close> returns.  An open observation is
  named by a number, and what the runtime does to it is the list of \<open>obs_event\<close>s it receives, so
  that statements about "finished exactly once" are statements about lists.  Clock readings are
  parameters in nanoseconds.
\<close>

section \<open>Observations\<close>

datatype RequestOutcome = Success nat | Failure ErrorCode

record RequestInfo =
  ri_method_id :: u32
  ri_method_name :: "bytes option"
  ri_request_id :: u64
  ri_request_bytes :: nat
  ri_trace_context :: "TraceContext option"
  ri_received_at :: nat

type_synonym stage = "string \<times> nat \<times> nat"

datatype obs_event = RecordStageAt stage | Finish RequestOutcome

type_synonym obs_log = "(nat \<times> obs_event) list"

definition STAGE_QUEUE :: string where "STAGE_QUEUE = ''moonlight.server.queue''"
definition STAGE_FRAME_DECODE :: string where "STAGE_FRAME_DECODE = ''moonlight.server.frame_decode''"
definition STAGE_MIDDLEWARE :: string where "STAGE_MIDDLEWARE = ''moonlight.server.middleware''"
definition STAGE_WRITE :: string where "STAGE_WRITE = ''moonlight.server.write''"

subsection \<open>Function stages\<close>

definition MAX_RECORDED_STAGES :: nat where "MAX_RECORDED_STAGES = 128"

text \<open>The task-local \<open>FUNCTION_STAGES\<close>: \<open>None\<close> outside a request that collects stages.\<close>

type_synonym stage_cell = "stage list option"

definition push_stage :: "stage \<Rightarrow> stage_cell \<Rightarrow> stage_cell" where
  "push_stage s cell = map_option (\<lambda>stages.
     if length stages < MAX_RECORDED_STAGES then stages @ [s] else stages) cell"

text \<open>\<open>trace_function\<close> and \<open>trace_async_function\<close>: run the body, which may itself push
  stages, and record the stage afterwards; nothing is recorded outside a collecting request.\<close>

definition trace_function ::
    "string \<Rightarrow> nat \<Rightarrow> nat \<Rightarrow> (stage_cell \<Rightarrow> 'a \<times> stage_cell) \<Rightarrow> stage_cell \<Rightarrow> 'a \<times> stage_cell" where
  "trace_function name started elapsed function cell =
    (if cell = None then function cell
     else (let (output, cell') = function cell in (output, push_stage (name, started, elapsed) cell')))"

text \<open>\<open>drain_stages\<close>: without an observation nothing is moved.\<close>

definition drain_stages :: "nat option \<Rightarrow> stage_cell \<Rightarrow> obs_log \<times> stage_cell" where
  "drain_stages observation cell =
    (case observation of
       None \<Rightarrow> ([], cell)
     | Some ob \<Rightarrow>
         (case cell of
            None \<Rightarrow> ([], None)
          | Some stages \<Rightarrow> (map (\<lambda>s. (ob, RecordStageAt s)) stages, Some [])))"

definition finish_observation :: "nat option \<Rightarrow> RequestOutcome \<Rightarrow> obs_log" where
  "finish_observation observation outcome =
    (case observation of None \<Rightarrow> [] | Some ob \<Rightarrow> [(ob, Finish outcome)])"

definition finish_with_stages ::
    "nat option \<Rightarrow> RequestOutcome \<Rightarrow> stage_cell \<Rightarrow> obs_log \<times> stage_cell" where
  "finish_with_stages observation outcome cell =
    (let (log, cell') = drain_stages observation cell in
     (log @ finish_observation observation outcome, cell'))"

definition record_dispatch_stages ::
    "nat \<Rightarrow> nat \<Rightarrow> nat \<Rightarrow> (nat \<times> nat) option \<Rightarrow> obs_log" where
  "record_dispatch_stages ob now received_at decompression =
     [(ob, RecordStageAt (STAGE_QUEUE, received_at, now - received_at))]
     @ (case decompression of
          None \<Rightarrow> []
        | Some (started, duration) \<Rightarrow> [(ob, RecordStageAt (STAGE_FRAME_DECODE, started, duration))])"

subsection \<open>Deferred observations\<close>

record DeferredObservation =
  do_observation :: "nat option"
  do_outcome :: RequestOutcome
  do_queued_at :: nat

definition defer_or_finish ::
    "nat option \<Rightarrow> bool \<Rightarrow> RequestOutcome \<Rightarrow> nat option \<Rightarrow> nat \<Rightarrow> DeferredObservation option \<times> obs_log" where
  "defer_or_finish observation detailed outcome handler_done now =
    (if \<not> detailed then (None, finish_observation observation outcome)
     else (map_option (\<lambda>ob. \<lparr>do_observation = Some ob, do_outcome = outcome,
             do_queued_at = (case handler_done of Some t \<Rightarrow> t | None \<Rightarrow> now)\<rparr>) observation, []))"

definition deferred_drop :: "DeferredObservation \<Rightarrow> obs_log" where
  "deferred_drop d = finish_observation (do_observation d) (do_outcome d)"

text \<open>\<open>written\<close> consumes the value, so its drop runs at the end on what \<open>take()\<close> left.\<close>

definition deferred_written :: "DeferredObservation \<Rightarrow> nat \<Rightarrow> obs_log" where
  "deferred_written d written_at =
    (case do_observation d of
       None \<Rightarrow> []
     | Some ob \<Rightarrow>
         [(ob, RecordStageAt (STAGE_WRITE, do_queued_at d, written_at - do_queued_at d)),
          (ob, Finish (do_outcome d))])
    @ deferred_drop (d\<lparr>do_observation := None\<rparr>)"

subsection \<open>Chains\<close>

text \<open>A chained observation is the list of its delegates' observations.\<close>

definition chain_start_request ::
    "(RequestInfo \<Rightarrow> 'o option) list \<Rightarrow> RequestInfo \<Rightarrow> 'o list option" where
  "chain_start_request delegates info =
    (let observations = List.map_filter (\<lambda>t. t info) delegates in
     if observations = [] then None else Some observations)"

definition chain_record_stage :: "('o \<Rightarrow> 'o) \<Rightarrow> 'o list \<Rightarrow> 'o list" where
  "chain_record_stage record_one observations = map record_one observations"

definition chain_wants_timing :: "('o \<Rightarrow> bool) \<Rightarrow> 'o list \<Rightarrow> bool" where
  "chain_wants_timing wants observations = list_ex wants observations"

definition chain_finish :: "'o list \<Rightarrow> RequestOutcome \<Rightarrow> ('o \<times> RequestOutcome) list" where
  "chain_finish observations outcome = map (\<lambda>ob. (ob, outcome)) observations"

section \<open>Metrics\<close>

record MetricsInner =
  mi_started :: u64
  mi_succeeded :: u64
  mi_failed :: u64
  mi_request_bytes :: u64
  mi_response_bytes :: u64
  mi_total_latency_nanos :: u64
  mi_max_latency_nanos :: u64

definition metrics_default :: MetricsInner where
  "metrics_default = \<lparr>mi_started = 0, mi_succeeded = 0, mi_failed = 0, mi_request_bytes = 0,
     mi_response_bytes = 0, mi_total_latency_nanos = 0, mi_max_latency_nanos = 0\<rparr>"

text \<open>One relaxed atomic read-modify-write; \<open>fetch_add\<close> wraps around.\<close>

datatype metrics_atomic =
    AddStarted u64
  | AddSucceeded u64
  | AddFailed u64
  | AddRequestBytes u64
  | AddResponseBytes u64
  | AddLatency u64
  | MaxLatency u64

fun apply_atomic :: "metrics_atomic \<Rightarrow> MetricsInner \<Rightarrow> MetricsInner" where
  "apply_atomic (AddStarted n) m = m\<lparr>mi_started := mi_started m + n\<rparr>"
| "apply_atomic (AddSucceeded n) m = m\<lparr>mi_succeeded := mi_succeeded m + n\<rparr>"
| "apply_atomic (AddFailed n) m = m\<lparr>mi_failed := mi_failed m + n\<rparr>"
| "apply_atomic (AddRequestBytes n) m = m\<lparr>mi_request_bytes := mi_request_bytes m + n\<rparr>"
| "apply_atomic (AddResponseBytes n) m = m\<lparr>mi_response_bytes := mi_response_bytes m + n\<rparr>"
| "apply_atomic (AddLatency n) m = m\<lparr>mi_total_latency_nanos := mi_total_latency_nanos m + n\<rparr>"
| "apply_atomic (MaxLatency n) m = m\<lparr>mi_max_latency_nanos := max (mi_max_latency_nanos m) n\<rparr>"

text \<open>\<open>start_request\<close>, \<open>record\<close>, and the drop of an unfinished observation, as the atomics
  they perform in order.  \<open>elapsed\<close> is a \<open>u128\<close> clamped to 64 bits.\<close>

definition metrics_start_request :: "RequestInfo \<Rightarrow> metrics_atomic list" where
  "metrics_start_request info = [AddStarted 1, AddRequestBytes (word_of_nat (ri_request_bytes info))]"

definition metrics_record :: "nat \<Rightarrow> RequestOutcome \<Rightarrow> metrics_atomic list" where
  "metrics_record elapsed outcome =
    (let nanos = word_of_nat (min elapsed (2 ^ 64 - 1)) in
     [AddLatency nanos, MaxLatency nanos]
     @ (case outcome of
          Success response_bytes \<Rightarrow> [AddSucceeded 1, AddResponseBytes (word_of_nat response_bytes)]
        | Failure _ \<Rightarrow> [AddFailed 1]))"

definition metrics_drop :: "bool \<Rightarrow> nat \<Rightarrow> metrics_atomic list" where
  "metrics_drop finished elapsed = (if finished then [] else metrics_record elapsed (Failure Cancelled))"

text \<open>The life of one observed request: started, then finished with an outcome or dropped without
  one; finishing sets the flag, so the drop that follows adds nothing.\<close>

definition metrics_request :: "RequestInfo \<times> nat \<times> RequestOutcome option \<Rightarrow> metrics_atomic list" where
  "metrics_request r =
    (case r of (info, elapsed, outcome) \<Rightarrow>
       metrics_start_request info
       @ (case outcome of
            Some oc \<Rightarrow> metrics_record elapsed oc @ metrics_drop True elapsed
          | None \<Rightarrow> metrics_drop False elapsed))"

definition run_atomics :: "metrics_atomic list \<Rightarrow> MetricsInner \<Rightarrow> MetricsInner" where
  "run_atomics as m = fold apply_atomic as m"

section \<open>Lemmas\<close>

lemma apply_atomic_commute: "apply_atomic a (apply_atomic b m) = apply_atomic b (apply_atomic a m)"
  by (cases a; cases b) (simp_all add: ac_simps max.left_commute max.commute)

lemma run_atomics_mset: "mset as = mset bs \<Longrightarrow> run_atomics as = run_atomics bs"
proof -
  have "fold apply_atomic as = fold apply_atomic bs" if "mset as = mset bs"
    by (rule fold_multiset_equiv) (use that apply_atomic_commute in \<open>auto simp: fun_eq_iff\<close>)
  then show "mset as = mset bs \<Longrightarrow> run_atomics as = run_atomics bs"
    by (simp add: run_atomics_def fun_eq_iff)
qed

lemma run_atomics_append: "run_atomics (as @ bs) m = run_atomics bs (run_atomics as m)"
  by (simp add: run_atomics_def)

fun outcome_of :: "RequestInfo \<times> nat \<times> RequestOutcome option \<Rightarrow> RequestOutcome" where
  "outcome_of (_, _, Some oc) = oc"
| "outcome_of (_, _, None) = Failure Cancelled"

definition is_success :: "RequestOutcome \<Rightarrow> bool" where
  "is_success oc = (case oc of Success _ \<Rightarrow> True | Failure _ \<Rightarrow> False)"

lemma metrics_request_run:
  "run_atomics (metrics_request r) m = m\<lparr>
     mi_started := mi_started m + 1,
     mi_succeeded := mi_succeeded m + (if is_success (outcome_of r) then 1 else 0),
     mi_failed := mi_failed m + (if is_success (outcome_of r) then 0 else 1),
     mi_request_bytes := mi_request_bytes m + word_of_nat (ri_request_bytes (fst r)),
     mi_response_bytes := mi_response_bytes m
       + (case outcome_of r of Success n \<Rightarrow> word_of_nat n | Failure _ \<Rightarrow> 0),
     mi_total_latency_nanos := mi_total_latency_nanos m + word_of_nat (min (fst (snd r)) (2 ^ 64 - 1)),
     mi_max_latency_nanos := max (mi_max_latency_nanos m) (word_of_nat (min (fst (snd r)) (2 ^ 64 - 1)))\<rparr>"
proof -
  obtain info elapsed oc where r: "r = (info, elapsed, oc)" by (cases r)
  show ?thesis
  proof (cases oc)
    case None
    then show ?thesis
      by (simp add: r run_atomics_def metrics_request_def metrics_start_request_def metrics_drop_def
          metrics_record_def Let_def is_success_def)
  next
    case (Some out)
    then show ?thesis
      by (cases out) (simp_all add: r run_atomics_def metrics_request_def metrics_start_request_def
          metrics_drop_def metrics_record_def Let_def is_success_def)
  qed
qed

lemma metrics_requests_run:
  "let m' = run_atomics (concat (map metrics_request rs)) m in
     mi_started m' = mi_started m + word_of_nat (length rs)
   \<and> mi_succeeded m' = mi_succeeded m + word_of_nat (length (filter (\<lambda>r. is_success (outcome_of r)) rs))
   \<and> mi_failed m' = mi_failed m + word_of_nat (length (filter (\<lambda>r. \<not> is_success (outcome_of r)) rs))
   \<and> mi_request_bytes m' = mi_request_bytes m
       + word_of_nat (sum_list (map (\<lambda>r. ri_request_bytes (fst r)) rs))"
proof (induction rs arbitrary: m)
  case Nil
  then show ?case by (simp add: run_atomics_def)
next
  case (Cons r rs)
  then show ?case
    using Cons [of "run_atomics (metrics_request r) m"]
    by (simp add: run_atomics_append metrics_request_run Let_def add.assoc)
qed

lemma push_stage_bounded:
  "(case cell of None \<Rightarrow> True | Some stages \<Rightarrow> length stages \<le> MAX_RECORDED_STAGES) \<Longrightarrow>
   (case push_stage s cell of None \<Rightarrow> True | Some stages \<Rightarrow> length stages \<le> MAX_RECORDED_STAGES)"
  by (cases cell) (auto simp: push_stage_def MAX_RECORDED_STAGES_def)

definition finishes :: "nat \<Rightarrow> obs_log \<Rightarrow> RequestOutcome list" where
  "finishes ob log = List.map_filter (\<lambda>(n, e). if n = ob then (case e of Finish oc \<Rightarrow> Some oc | _ \<Rightarrow> None) else None) log"

lemma finishes_simps [simp]:
  "finishes ob [] = []"
  "finishes ob ((n, RecordStageAt s) # log) = finishes ob log"
  "finishes ob ((n, Finish oc) # log) = (if n = ob then [oc] else []) @ finishes ob log"
  "finishes ob (log @ log') = finishes ob log @ finishes ob log'"
  by (auto simp: finishes_def map_filter_simps) (simp_all add: map_filter_def)

lemma finishes_stages [simp]: "finishes ob (map (\<lambda>s. (n, RecordStageAt s)) stages) = []"
  by (induction stages) simp_all

lemma finishes_finish [simp]:
  "finishes ob (finish_observation n oc) = (if n = Some ob then [oc] else [])"
  by (auto simp: finish_observation_def split: option.splits)

section \<open>Properties\<close>

text \<open>The counters do not depend on scheduling: whatever the interleaving of the atomics of
  any number of concurrent requests, the totals are those of handling the requests one after the other;
  every started request is counted as succeeded or failed exactly once, one dropped without an outcome
  as failed, and request bytes add up, modulo 64 bits.\<close>

theorem metrics_conserved:
  assumes "mset schedule = mset (concat (map metrics_request rs))"
    and "m = run_atomics schedule metrics_default"
  shows "mi_started m = word_of_nat (length rs)
    \<and> mi_started m = mi_succeeded m + mi_failed m
    \<and> mi_succeeded m = word_of_nat (length (filter (\<lambda>r. is_success (outcome_of r)) rs))
    \<and> mi_request_bytes m = word_of_nat (sum_list (map (\<lambda>r. ri_request_bytes (fst r)) rs))
    \<and> m = run_atomics (concat (map metrics_request rs)) metrics_default"
proof -
  have m: "m = run_atomics (concat (map metrics_request rs)) metrics_default"
    using assms run_atomics_mset by metis
  have "length rs = length (filter (\<lambda>r. is_success (outcome_of r)) rs)
      + length (filter (\<lambda>r. \<not> is_success (outcome_of r)) rs)"
    by (simp add: sum_length_filter_compl)
  then have "(word_of_nat (length rs) :: u64) =
      word_of_nat (length (filter (\<lambda>r. is_success (outcome_of r)) rs))
      + word_of_nat (length (filter (\<lambda>r. \<not> is_success (outcome_of r)) rs))"
    by (metis of_nat_add)
  with metrics_requests_run [of rs metrics_default] show ?thesis
    unfolding Let_def m [symmetric] by (simp add: metrics_default_def m)
qed

definition sample_info :: "nat \<Rightarrow> RequestInfo" where
  "sample_info n = \<lparr>ri_method_id = 1, ri_method_name = None, ri_request_id = 1, ri_request_bytes = n,
     ri_trace_context = None, ri_received_at = 0\<rparr>"

theorem metrics_conserved_witness:
  "\<exists>m. m = run_atomics (rev (concat (map metrics_request
            [(sample_info 3, 10, Some (Success 5)), (sample_info 4, 20, None)]))) metrics_default
     \<and> mi_started m = 2 \<and> mi_started m = mi_succeeded m + mi_failed m \<and> mi_request_bytes m = 7"
proof -
  let ?rs = "[(sample_info 3, 10, Some (Success 5)), (sample_info 4, 20, None)]"
  define m where "m = run_atomics (rev (concat (map metrics_request ?rs))) metrics_default"
  have "mset (rev (concat (map metrics_request ?rs))) = mset (concat (map metrics_request ?rs))"
    by (rule mset_rev)
  from metrics_conserved [OF this m_def]
  have "mi_started m = 2" "mi_started m = mi_succeeded m + mi_failed m" "mi_request_bytes m = 7"
    by (auto simp: sample_info_def)
  then show ?thesis unfolding m_def by blast
qed

text \<open>A deferred observation is finished exactly once with the outcome it was given: at once
  when no detailed timing is wanted, and otherwise when the response is written or the value is dropped
  unwritten; a write adds the write stage before it.\<close>

theorem deferred_finishes_once:
  "case defer_or_finish (Some ob) detailed outcome handler_done now of
     (None, log) \<Rightarrow> \<not> detailed \<and> log = [(ob, Finish outcome)]
   | (Some d, log) \<Rightarrow> detailed \<and> log = []
       \<and> finishes ob (deferred_written (d\<lparr>do_outcome := oc\<rparr>) written_at) = [oc]
       \<and> finishes ob (deferred_drop d) = [outcome]
       \<and> (\<exists>s. hd (deferred_written d written_at) = (ob, RecordStageAt (STAGE_WRITE, s)))"
  by (auto simp: defer_or_finish_def finish_observation_def deferred_written_def deferred_drop_def)

end
