(* ===== verification/Router.thy ===== *)
theory Router
  imports Middleware Telemetry
begin

text \<open>
  The router and its builder, crates/moonlight-bridge-server/src/lib.rs: \<open>Router\<close>,
  \<open>RouterBuilder\<close> and every registration method.  A \<open>HashMap\<close> is a key-sorted association list:
  no operation observes its order.  A builder method returns \<open>None\<close> where the source panics.

  A server-streaming handler is a parameter: for a payload it opens, fails or panics, and an opened
  stream gives for its n-th poll an item, an error, a panic or the end.
  Telemetry is a parameter: for a request, an observation and whether it wants detailed timing.
\<close>

type_synonym raw_stream = "nat \<Rightarrow> handler_result outcome option"
type_synonym stream_handler = "bytes \<Rightarrow> (HandlerError + raw_stream) outcome"
type_synonym telemetry = "RequestInfo \<Rightarrow> (nat \<times> bool) option"

record Router =
  handlers :: "(u32, handler) btree_map"
  stream_handlers :: "(u32, stream_handler) btree_map"
  method_names :: "(u32, bytes) btree_map"
  required_scopes :: "(u32, bytes list) btree_map"
  middleware :: "layer list"
  router_telemetry :: "telemetry option"

record RouterBuilder =
  rb_router :: Router
  authorization_configured :: bool
  unsecured_scopes_allowed :: bool

definition builder_new :: RouterBuilder where
  "builder_new = \<lparr>rb_router = \<lparr>handlers = [], stream_handlers = [], method_names = [],
     required_scopes = [], middleware = [], router_telemetry = None\<rparr>,
     authorization_configured = False, unsecured_scopes_allowed = False\<rparr>"

definition is_streaming :: "Router \<Rightarrow> u32 \<Rightarrow> bool" where
  "is_streaming r mid = bt_contains (stream_handlers r) mid"

section \<open>Registration\<close>

definition method_name :: "u32 \<Rightarrow> bytes \<Rightarrow> RouterBuilder \<Rightarrow> RouterBuilder option" where
  "method_name mid name b =
    (let r = rb_router b in
     if \<not> (bt_contains (handlers r) mid \<or> bt_contains (stream_handlers r) mid) then None
     else if name = [] then None
     else if bt_contains (method_names r) mid then None
     else Some (b\<lparr>rb_router := r\<lparr>method_names := bt_insert mid name (method_names r)\<rparr>\<rparr>))"

definition add_layer :: "layer \<Rightarrow> RouterBuilder \<Rightarrow> RouterBuilder option" where
  "add_layer l b = Some (b\<lparr>rb_router := (rb_router b)\<lparr>middleware := middleware (rb_router b) @ [l]\<rparr>\<rparr>)"

definition authorization_layer :: "layer \<Rightarrow> RouterBuilder \<Rightarrow> RouterBuilder option" where
  "authorization_layer l b =
     Some (b\<lparr>rb_router := (rb_router b)\<lparr>middleware := middleware (rb_router b) @ [l]\<rparr>,
             authorization_configured := True\<rparr>)"

definition allow_unsecured_scopes :: "RouterBuilder \<Rightarrow> RouterBuilder option" where
  "allow_unsecured_scopes b = Some (b\<lparr>unsecured_scopes_allowed := True\<rparr>)"

definition set_telemetry :: "telemetry \<Rightarrow> RouterBuilder \<Rightarrow> RouterBuilder option" where
  "set_telemetry t b = Some (b\<lparr>rb_router := (rb_router b)\<lparr>router_telemetry := Some t\<rparr>\<rparr>)"

definition route :: "u32 \<Rightarrow> handler \<Rightarrow> RouterBuilder \<Rightarrow> RouterBuilder option" where
  "route mid h b =
    (let r = rb_router b in
     if bt_contains (stream_handlers r) mid then None
     else if bt_contains (handlers r) mid then None
     else Some (b\<lparr>rb_router := r\<lparr>handlers := bt_insert mid h (handlers r)\<rparr>\<rparr>))"

definition route_scoped :: "u32 \<Rightarrow> bytes list \<Rightarrow> handler \<Rightarrow> RouterBuilder \<Rightarrow> RouterBuilder option" where
  "route_scoped mid scopes h b =
    (let r = rb_router b in
     if bt_contains (stream_handlers r) mid then None
     else if bt_contains (handlers r) mid then None
     else Some (b\<lparr>rb_router := r\<lparr>handlers := bt_insert mid h (handlers r),
                  required_scopes := bt_insert mid scopes (required_scopes r)\<rparr>\<rparr>))"

definition route_stream :: "u32 \<Rightarrow> stream_handler \<Rightarrow> RouterBuilder \<Rightarrow> RouterBuilder option" where
  "route_stream mid h b =
    (let r = rb_router b in
     if \<not> (\<not> bt_contains (handlers r) mid \<and> \<not> bt_contains (stream_handlers r) mid) then None
     else Some (b\<lparr>rb_router := r\<lparr>stream_handlers := bt_insert mid h (stream_handlers r)\<rparr>\<rparr>))"

definition route_stream_scoped ::
    "u32 \<Rightarrow> bytes list \<Rightarrow> stream_handler \<Rightarrow> RouterBuilder \<Rightarrow> RouterBuilder option" where
  "route_stream_scoped mid scopes h b =
    (let r = rb_router b in
     if \<not> (\<not> bt_contains (handlers r) mid \<and> \<not> bt_contains (stream_handlers r) mid) then None
     else Some (b\<lparr>rb_router := r\<lparr>stream_handlers := bt_insert mid h (stream_handlers r),
                  required_scopes := bt_insert mid scopes (required_scopes r)\<rparr>\<rparr>))"

definition router_build :: "RouterBuilder \<Rightarrow> Router option" where
  "router_build b =
    (let has_scoped_routes = list_ex (\<lambda>(mid, scopes). scopes \<noteq> []) (required_scopes (rb_router b)) in
     if \<not> (\<not> has_scoped_routes \<or> authorization_configured b \<or> unsecured_scopes_allowed b) then None
     else Some (rb_router b))"

text \<open>A registration script.\<close>

datatype builder_op =
    MethodName u32 bytes
  | Layer layer
  | AuthorizationLayer layer
  | AllowUnsecuredScopes
  | SetTelemetry telemetry
  | Route u32 handler
  | RouteScoped u32 "bytes list" handler
  | RouteStream u32 stream_handler
  | RouteStreamScoped u32 "bytes list" stream_handler

fun apply_op :: "builder_op \<Rightarrow> RouterBuilder \<Rightarrow> RouterBuilder option" where
  "apply_op (MethodName mid name) = method_name mid name"
| "apply_op (Layer l) = add_layer l"
| "apply_op (AuthorizationLayer l) = authorization_layer l"
| "apply_op AllowUnsecuredScopes = allow_unsecured_scopes"
| "apply_op (SetTelemetry t) = set_telemetry t"
| "apply_op (Route mid h) = route mid h"
| "apply_op (RouteScoped mid scopes h) = route_scoped mid scopes h"
| "apply_op (RouteStream mid h) = route_stream mid h"
| "apply_op (RouteStreamScoped mid scopes h) = route_stream_scoped mid scopes h"

fun run_builder :: "builder_op list \<Rightarrow> RouterBuilder \<Rightarrow> RouterBuilder option" where
  "run_builder [] b = Some b"
| "run_builder (op # ops) b = Option.bind (apply_op op b) (run_builder ops)"

section \<open>Well-formed routers\<close>

definition router_wf :: "Router \<Rightarrow> bool" where
  "router_wf r =
    (bt_wf (handlers r) \<and> bt_wf (stream_handlers r) \<and> bt_wf (method_names r) \<and> bt_wf (required_scopes r)
     \<and> fst ` set (handlers r) \<inter> fst ` set (stream_handlers r) = {}
     \<and> fst ` set (method_names r) \<subseteq> fst ` set (handlers r) \<union> fst ` set (stream_handlers r)
     \<and> fst ` set (required_scopes r) \<subseteq> fst ` set (handlers r) \<union> fst ` set (stream_handlers r)
     \<and> (\<forall>(mid, name) \<in> set (method_names r). name \<noteq> []))"

lemma builder_new_wf: "router_wf (rb_router builder_new)"
  by (simp add: builder_new_def router_wf_def bt_wf_def)

lemmas builder_op_defs = method_name_def add_layer_def authorization_layer_def allow_unsecured_scopes_def
  set_telemetry_def route_def route_scoped_def route_stream_def route_stream_scoped_def

lemma router_wf_handlers:
  "router_wf r \<Longrightarrow> mid \<notin> fst ` set (stream_handlers r) \<Longrightarrow>
   router_wf (r\<lparr>handlers := bt_insert mid h (handlers r)\<rparr>)"
  by (auto simp: router_wf_def bt_insert_wf bt_insert_fst)

lemma router_wf_streams:
  "router_wf r \<Longrightarrow> mid \<notin> fst ` set (handlers r) \<Longrightarrow>
   router_wf (r\<lparr>stream_handlers := bt_insert mid h (stream_handlers r)\<rparr>)"
  by (auto simp: router_wf_def bt_insert_wf bt_insert_fst)

lemma router_wf_scopes:
  "router_wf r \<Longrightarrow> mid \<in> fst ` set (handlers r) \<union> fst ` set (stream_handlers r) \<Longrightarrow>
   router_wf (r\<lparr>required_scopes := bt_insert mid scopes (required_scopes r)\<rparr>)"
  by (auto simp: router_wf_def bt_insert_wf bt_insert_fst)

lemma router_wf_names:
  assumes "router_wf r" "bt_contains (handlers r) mid \<or> bt_contains (stream_handlers r) mid" "name \<noteq> []"
  shows "router_wf (r\<lparr>method_names := bt_insert mid name (method_names r)\<rparr>)"
proof -
  have "\<forall>(i, n) \<in> set (bt_insert mid name (method_names r)). n \<noteq> []"
    using assms(1,3) bt_insert_set [of mid name "method_names r"] by (auto simp: router_wf_def)
  with assms(1,2) show ?thesis by (auto simp: router_wf_def bt_insert_wf bt_insert_fst bt_contains_iff)
qed

lemma router_wf_same:
  "router_wf (r\<lparr>middleware := ls\<rparr>) = router_wf r" "router_wf (r\<lparr>router_telemetry := t\<rparr>) = router_wf r"
  by (simp_all add: router_wf_def)

lemma router_wf_scoped:
  "router_wf (r\<lparr>handlers := bt_insert mid h (handlers r)\<rparr>) \<Longrightarrow>
   router_wf (r\<lparr>handlers := bt_insert mid h (handlers r), required_scopes := bt_insert mid scopes (required_scopes r)\<rparr>)"
  "router_wf (r\<lparr>stream_handlers := bt_insert mid g (stream_handlers r)\<rparr>) \<Longrightarrow>
   router_wf (r\<lparr>stream_handlers := bt_insert mid g (stream_handlers r), required_scopes := bt_insert mid scopes (required_scopes r)\<rparr>)"
  by (frule router_wf_scopes [where mid = mid and scopes = scopes], simp add: bt_insert_fst, simp)+

lemma apply_op_wf:
  assumes "router_wf (rb_router b)" "apply_op op b = Some b'"
  shows "router_wf (rb_router b')"
proof (cases op)
  case (MethodName mid name)
  then show ?thesis using assms
    by (auto simp: method_name_def Let_def intro!: router_wf_names split: if_splits)
next
  case (Route mid h)
  then show ?thesis using assms
    by (auto simp: route_def Let_def bt_contains_iff intro!: router_wf_handlers split: if_splits)
next
  case (RouteScoped mid scopes h)
  then show ?thesis using assms
    by (auto simp: route_scoped_def Let_def bt_contains_iff intro!: router_wf_scoped router_wf_handlers split: if_splits)
next
  case (RouteStream mid h)
  then show ?thesis using assms
    by (auto simp: route_stream_def Let_def bt_contains_iff intro!: router_wf_streams split: if_splits)
next
  case (RouteStreamScoped mid scopes h)
  then show ?thesis using assms
    by (auto simp: route_stream_scoped_def Let_def bt_contains_iff intro!: router_wf_scoped router_wf_streams split: if_splits)
qed (use assms in \<open>auto simp: add_layer_def authorization_layer_def allow_unsecured_scopes_def
  set_telemetry_def router_wf_same\<close>)

text \<open>The authorization flag is set only together with a layer.\<close>

fun auth_layers :: "builder_op list \<Rightarrow> layer list" where
  "auth_layers [] = []"
| "auth_layers (AuthorizationLayer l # ops) = l # auth_layers ops"
| "auth_layers (_ # ops) = auth_layers ops"

lemma apply_op_auth:
  assumes "apply_op op b = Some b'"
  shows "set (middleware (rb_router b)) \<subseteq> set (middleware (rb_router b'))"
    and "authorization_configured b' \<longleftrightarrow> authorization_configured b \<or> (\<exists>l. op = AuthorizationLayer l)"
    and "unsecured_scopes_allowed b' \<longleftrightarrow> unsecured_scopes_allowed b \<or> op = AllowUnsecuredScopes"
    and "\<And>l. op = AuthorizationLayer l \<Longrightarrow> l \<in> set (middleware (rb_router b'))"
  using assms by (cases op; auto simp: builder_op_defs Let_def split: if_splits)+

lemma run_builder_auth:
  "run_builder ops b = Some b' \<Longrightarrow>
     set (middleware (rb_router b)) \<union> set (auth_layers ops) \<subseteq> set (middleware (rb_router b'))
   \<and> (authorization_configured b' \<longleftrightarrow> authorization_configured b \<or> auth_layers ops \<noteq> [])
   \<and> (unsecured_scopes_allowed b' \<longleftrightarrow> unsecured_scopes_allowed b \<or> AllowUnsecuredScopes \<in> set ops)"
proof (induction ops arbitrary: b)
  case (Cons op ops)
  obtain c where c: "apply_op op b = Some c" "run_builder ops c = Some b'"
    using Cons.prems by (auto simp: bind_eq_Some_conv)
  note step = apply_op_auth [OF c(1)]
  have split: "auth_layers (op # ops) = (case op of AuthorizationLayer l \<Rightarrow> [l] | _ \<Rightarrow> []) @ auth_layers ops"
    by (cases op) auto
  show ?case
    using Cons.IH [OF c(2)] step unfolding split by (cases op) auto
qed simp


subsection \<open>Lookups after registration\<close>

fun routed :: "builder_op \<Rightarrow> u32 option" where
  "routed (Route mid h) = Some mid"
| "routed (RouteScoped mid scopes h) = Some mid"
| "routed (RouteStream mid h) = Some mid"
| "routed (RouteStreamScoped mid scopes h) = Some mid"
| "routed _ = None"

text \<open>What an operation promises of the finished router.\<close>

fun registered :: "Router \<Rightarrow> builder_op \<Rightarrow> bool" where
  "registered r (Route mid h) = (bt_get (handlers r) mid = Some h)"
| "registered r (RouteScoped mid scopes h) =
     (bt_get (handlers r) mid = Some h \<and> bt_get (required_scopes r) mid = Some scopes)"
| "registered r (RouteStream mid h) = (bt_get (stream_handlers r) mid = Some h)"
| "registered r (RouteStreamScoped mid scopes h) =
     (bt_get (stream_handlers r) mid = Some h \<and> bt_get (required_scopes r) mid = Some scopes)"
| "registered r (MethodName mid name) = (bt_get (method_names r) mid = Some name)"
| "registered r (Layer l) = (l \<in> set (middleware r))"
| "registered r (AuthorizationLayer l) = (l \<in> set (middleware r))"
| "registered r _ = True"

definition routed_ids :: "Router \<Rightarrow> u32 set" where
  "routed_ids r = fst ` set (handlers r) \<union> fst ` set (stream_handlers r)"



lemma registered_routed:
  "router_wf r \<Longrightarrow> registered r op \<Longrightarrow> routed op = Some mid \<Longrightarrow> mid \<in> routed_ids r"
  by (cases op) (auto simp: routed_ids_def bt_get_def dest!: map_of_SomeD intro: rev_image_eqI)


lemma apply_op_fresh:
  "apply_op op b = Some b' \<Longrightarrow> routed op = Some mid \<Longrightarrow> mid \<notin> routed_ids (rb_router b)"
  by (cases op) (simp_all add: builder_op_defs Let_def routed_ids_def bt_contains_iff split: if_splits)




section \<open>Properties\<close>

fun scoped_op :: "builder_op \<Rightarrow> bool" where
  "scoped_op (RouteScoped mid scopes h) = (scopes \<noteq> [])"
| "scoped_op (RouteStreamScoped mid scopes h) = (scopes \<noteq> [])"
| "scoped_op _ = False"

definition has_scoped :: "Router \<Rightarrow> bool" where
  "has_scoped r = (\<exists>(mid, scopes) \<in> set (required_scopes r). scopes \<noteq> [])"

lemma apply_op_scoped:
  assumes "router_wf (rb_router b)" "apply_op op b = Some b'"
  shows "has_scoped (rb_router b') \<longleftrightarrow> has_scoped (rb_router b) \<or> scoped_op op"
proof -
  have "mid \<notin> fst ` set (required_scopes (rb_router b))" if "routed op = Some mid" for mid
    using apply_op_fresh [OF assms(2) that] assms(1) by (simp add: router_wf_def routed_ids_def subset_iff) blast
  then show ?thesis using assms(2)
    by (cases op; clarsimp simp: builder_op_defs Let_def has_scoped_def bt_insert_fresh split: if_splits)
      blast+
qed

lemma run_builder_scoped:
  "router_wf (rb_router b) \<Longrightarrow> run_builder ops b = Some b' \<Longrightarrow>
   has_scoped (rb_router b') \<longleftrightarrow> has_scoped (rb_router b) \<or> list_ex scoped_op ops"
  by (induction ops arbitrary: b) (auto simp: bind_eq_Some_conv dest: apply_op_wf apply_op_scoped)

lemma router_build_None:
  "router_build b = None \<longleftrightarrow>
     has_scoped (rb_router b) \<and> \<not> authorization_configured b \<and> \<not> unsecured_scopes_allowed b"
  by (auto simp: router_build_def has_scoped_def list_ex_iff Let_def)

lemma router_build_Some: "router_build b = Some r \<Longrightarrow> r = rb_router b"
  by (simp add: router_build_def Let_def split: if_splits)



text \<open>Scoped routes are never built unprotected: building panics exactly when a call registered a
  non-empty scope list and no authorization layer was installed and the opt-out was not taken; so a
  router with a scoped route, built without the opt-out, has an authorization layer in its chain.\<close>

theorem scoped_routes_need_authorization:
  assumes "run_builder ops builder_new = Some b"
  shows "(router_build b = None \<longleftrightarrow>
            list_ex scoped_op ops \<and> auth_layers ops = [] \<and> AllowUnsecuredScopes \<notin> set ops)
    \<and> (router_build b = Some r \<and> list_ex scoped_op ops \<and> AllowUnsecuredScopes \<notin> set ops \<longrightarrow>
         auth_layers ops \<noteq> [] \<and> set (auth_layers ops) \<subseteq> set (middleware r))"
proof -
  have "has_scoped (rb_router b) \<longleftrightarrow> list_ex scoped_op ops"
    using run_builder_scoped [OF builder_new_wf assms] by (simp add: has_scoped_def builder_new_def)
  moreover have "authorization_configured b \<longleftrightarrow> auth_layers ops \<noteq> []"
    "unsecured_scopes_allowed b \<longleftrightarrow> AllowUnsecuredScopes \<in> set ops"
    "set (auth_layers ops) \<subseteq> set (middleware (rb_router b))"
    using run_builder_auth [OF assms] by (auto simp: builder_new_def)
  ultimately show ?thesis
    using router_build_None [of b] router_build_Some [of b r] by auto
qed

theorem scoped_routes_need_authorization_witness:
  "\<exists>b. run_builder [RouteScoped 9 [str ''admin''] (\<lambda>x. Panicked)] builder_new = Some b \<and> router_build b = None"
proof -
  let ?ops = "[RouteScoped 9 [str ''admin''] (\<lambda>x. Panicked)]"
  have "run_builder ?ops builder_new \<noteq> None"
    by (simp add: builder_op_defs builder_new_def bt_contains_def bt_get_def)
  then obtain b where b: "run_builder ?ops builder_new = Some b" by blast
  with scoped_routes_need_authorization [OF b] show ?thesis by simp
qed

end
