(* ===== verification/Compression.thy ===== *)
theory Compression
  imports Wire_Protocol
begin

text \<open>
  Bounded compression, crates/moonlight-bridge-protocol/src/compression.rs.

  \<^item> \<open>CompressionPolicy::encode\<close>, \<open>decode_with_reservation\<close> and \<open>decode\<close> as functions.
    The Zstandard library is the parameter \<open>zstd\<close>, a record of its two bulk operations; what
    the code relies on is the hypothesis \<open>zstd_laws\<close>.
  \<^item> \<open>DecodedByteBudget\<close> twice: as the atomic operations the rest of the code sees
    (\<open>try_reserve\<close>, \<open>permit_drop\<close>), and as the compare-and-swap loop the source
    runs, a step relation over any number of threads that interleave at every access to the
    shared counter.  The loop refines the atomic operations.
\<close>

section \<open>Data\<close>

datatype CompressionCodec = CodecNone | Zstd

datatype CompressionError =
    InvalidPolicy
  | InvalidBudget
  | UnknownCodec u8
  | CodecFailure
  | CorruptPayload
  | DecodedLengthTooLarge u32 u32
  | DecodedLengthMismatch u32 nat
  | ExpansionRatioExceeded nat u32 u32
  | DecodedBudgetExhausted nat nat

definition codec_try_from :: "u8 \<Rightarrow> CompressionError + CompressionCodec" where
  "codec_try_from value =
    (if value = 0 then Inr CodecNone else if value = 1 then Inr Zstd else Inl (UnknownCodec value))"

fun codec_as_u8 :: "CompressionCodec \<Rightarrow> u8" where
  "codec_as_u8 CodecNone = 0"
| "codec_as_u8 Zstd = 1"

record CompressionPolicy =
  min_payload_bytes :: nat
  min_savings_bytes :: nat
  cp_max_decoded_body_len :: u32
  max_expansion_ratio :: u32
  compression_level :: int

definition compression_policy_default :: CompressionPolicy where
  "compression_policy_default =
     \<lparr>min_payload_bytes = 1024, min_savings_bytes = 64,
      cp_max_decoded_body_len = 16 * 1024 * 1024, max_expansion_ratio = 64, compression_level = 1\<rparr>"

record CompressedPayload =
  cp_codec :: CompressionCodec
  original_len :: u32
  cp_bytes :: bytes

text \<open>\<open>zstd::bulk::compress\<close> and \<open>zstd::bulk::decompress\<close>; \<open>None\<close> is an
  \<open>io::Error\<close>.\<close>

record zstd =
  zstd_compress :: "bytes \<Rightarrow> int \<Rightarrow> bytes option"
  zstd_decompress :: "bytes \<Rightarrow> nat \<Rightarrow> bytes option"

text \<open>The documented behaviour: output of the compressor is decompressed to its input by any
  call whose capacity is large enough.\<close>

definition zstd_laws :: "zstd \<Rightarrow> bool" where
  "zstd_laws z = (\<forall>x l c n. zstd_compress z x l = Some c \<longrightarrow> length x \<le> n \<longrightarrow>
     zstd_decompress z c n = Some x)"

section \<open>The decoded-byte budget\<close>

record BudgetInner =
  capacity :: nat
  used :: nat

definition budget_new :: "nat \<Rightarrow> CompressionError + BudgetInner" where
  "budget_new cap = (if cap = 0 then Inl InvalidBudget else Inr \<lparr>capacity = cap, used = 0\<rparr>)"

text \<open>One pass of the \<open>try_reserve\<close> loop up to the compare-and-swap: the value to install
  for an observed counter, or the error to return.\<close>

definition reserve_decision :: "nat \<Rightarrow> nat \<Rightarrow> nat \<Rightarrow> CompressionError + nat" where
  "reserve_decision cap observed requested =
    (let available = cap - observed in
     if requested > available then Inl (DecodedBudgetExhausted requested available)
     else ok_or (DecodedBudgetExhausted requested available) (usize_checked_add observed requested))"

text \<open>\<open>try_reserve\<close> and the drop of a permit as atomic operations; a permit is the number
  of bytes it holds.\<close>

definition try_reserve :: "BudgetInner \<Rightarrow> nat \<Rightarrow> CompressionError + (BudgetInner \<times> nat)" where
  "try_reserve b requested =
     rbind (reserve_decision (capacity b) (used b) requested) (\<lambda>updated.
       Inr (b\<lparr>used := updated\<rparr>, requested))"

definition permit_drop :: "BudgetInner \<Rightarrow> nat \<Rightarrow> BudgetInner" where
  "permit_drop b reserved = b\<lparr>used := nat ((int (used b) - int reserved) mod 2 ^ 64)\<rparr>"

subsection \<open>The compare-and-swap loop\<close>

text \<open>A thread inside \<open>try_reserve\<close>: about to load the counter, at the head of the loop with
  its local copy \<open>used\<close>, about to compare and swap, returned with a permit or an error, or
  past the drop of the permit.\<close>

datatype reserve_thread =
    Loading nat
  | Checking nat nat
  | Swapping nat nat nat
  | Holding nat
  | Refused CompressionError
  | Released

record budget_world =
  shared :: BudgetInner
  threads :: "reserve_thread list"

text \<open>One atomic access by thread \<open>i\<close>.  \<open>compare_exchange_weak\<close> may fail although the
  counter has the expected value (\<open>swap_fail\<close> has no condition on it).\<close>

inductive budget_step :: "budget_world \<Rightarrow> budget_world \<Rightarrow> bool" where
  load: "\<lbrakk>i < length (threads w); threads w ! i = Loading requested\<rbrakk> \<Longrightarrow>
    budget_step w (w\<lparr>threads := (threads w)[i := Checking requested (used (shared w))]\<rparr>)"
| refuse: "\<lbrakk>i < length (threads w); threads w ! i = Checking requested observed;
     reserve_decision (capacity (shared w)) observed requested = Inl e\<rbrakk> \<Longrightarrow>
    budget_step w (w\<lparr>threads := (threads w)[i := Refused e]\<rparr>)"
| decide: "\<lbrakk>i < length (threads w); threads w ! i = Checking requested observed;
     reserve_decision (capacity (shared w)) observed requested = Inr updated\<rbrakk> \<Longrightarrow>
    budget_step w (w\<lparr>threads := (threads w)[i := Swapping requested observed updated]\<rparr>)"
| swap_ok: "\<lbrakk>i < length (threads w); threads w ! i = Swapping requested observed updated;
     used (shared w) = observed\<rbrakk> \<Longrightarrow>
    budget_step w (w\<lparr>shared := (shared w)\<lparr>used := updated\<rparr>,
      threads := (threads w)[i := Holding requested]\<rparr>)"
| swap_fail: "\<lbrakk>i < length (threads w); threads w ! i = Swapping requested observed updated\<rbrakk> \<Longrightarrow>
    budget_step w (w\<lparr>threads := (threads w)[i := Checking requested (used (shared w))]\<rparr>)"
| drop: "\<lbrakk>i < length (threads w); threads w ! i = Holding reserved\<rbrakk> \<Longrightarrow>
    budget_step w (w\<lparr>shared := permit_drop (shared w) reserved,
      threads := (threads w)[i := Released]\<rparr>)"
| enter: "budget_step w (w\<lparr>threads := threads w @ [Loading requested]\<rparr>)"

section \<open>The policy\<close>

definition policy_validate :: "CompressionPolicy \<Rightarrow> CompressionError + unit" where
  "policy_validate p =
    (if cp_max_decoded_body_len p = 0 \<or> max_expansion_ratio p = 0 then Inl InvalidPolicy else Inr ())"

definition compression_encode ::
    "zstd \<Rightarrow> CompressionPolicy \<Rightarrow> bytes \<Rightarrow> CompressionCodec \<Rightarrow> CompressionError + CompressedPayload" where
  "compression_encode z p payload codec =
     rbind (policy_validate p) (\<lambda>_.
     rbind (ok_or (DecodedLengthTooLarge (word_of_nat u32_max) (cp_max_decoded_body_len p))
              (u32_try_from (length payload))) (\<lambda>len.
     if len > cp_max_decoded_body_len p
     then Inl (DecodedLengthTooLarge len (cp_max_decoded_body_len p))
     else if codec = CodecNone \<or> length payload < min_payload_bytes p
     then Inr \<lparr>cp_codec = CodecNone, original_len = len, cp_bytes = payload\<rparr>
     else
       rbind (ok_or CodecFailure (zstd_compress z payload (compression_level p))) (\<lambda>compressed.
       let worthwhile = (case usize_checked_add (length compressed) (min_savings_bytes p) of
             None \<Rightarrow> False | Some minimum_original \<Rightarrow> minimum_original \<le> length payload);
           within_ratio =
             (length payload \<le> length compressed * unat (max_expansion_ratio p)) in
       if worthwhile \<and> within_ratio
       then Inr \<lparr>cp_codec = codec, original_len = len, cp_bytes = compressed\<rparr>
       else Inr \<lparr>cp_codec = CodecNone, original_len = len, cp_bytes = payload\<rparr>)))"

text \<open>The reservation is a local of the function: an error after it was taken drops it, so the
  budget is part of the result on every path.\<close>

definition decode_with_reservation ::
    "zstd \<Rightarrow> CompressionPolicy \<Rightarrow> CompressionCodec \<Rightarrow> bytes \<Rightarrow> u32 \<Rightarrow> BudgetInner
      \<Rightarrow> (CompressionError + (bytes \<times> nat option)) \<times> BudgetInner" where
  "decode_with_reservation z p codec encoded len budget =
    (case policy_validate p of
       Inl e \<Rightarrow> (Inl e, budget)
     | Inr _ \<Rightarrow>
        if len > cp_max_decoded_body_len p
        then (Inl (DecodedLengthTooLarge len (cp_max_decoded_body_len p)), budget)
        else if codec = CodecNone then
          if length encoded \<noteq> unat len
          then (Inl (DecodedLengthMismatch len (length encoded)), budget)
          else (Inr (encoded, None), budget)
        else if unat len > length encoded * unat (max_expansion_ratio p)
        then (Inl (ExpansionRatioExceeded (length encoded) len (max_expansion_ratio p)), budget)
        else
          (case try_reserve budget (unat len) of
             Inl e \<Rightarrow> (Inl e, budget)
           | Inr (budget', reservation) \<Rightarrow>
              (case zstd_decompress z encoded (unat len) of
                 None \<Rightarrow> (Inl CorruptPayload, permit_drop budget' reservation)
               | Some decoded \<Rightarrow>
                  if length decoded \<noteq> unat len
                  then (Inl (DecodedLengthMismatch len (length decoded)),
                        permit_drop budget' reservation)
                  else (Inr (decoded, Some reservation), budget'))))"

definition compression_decode ::
    "zstd \<Rightarrow> CompressionPolicy \<Rightarrow> CompressionCodec \<Rightarrow> bytes \<Rightarrow> u32 \<Rightarrow> BudgetInner
      \<Rightarrow> (CompressionError + bytes) \<times> BudgetInner" where
  "compression_decode z p codec encoded len budget =
    (case decode_with_reservation z p codec encoded len budget of
       (Inl e, b) \<Rightarrow> (Inl e, b)
     | (Inr (bytes, reservation), b) \<Rightarrow>
         (Inr bytes, case reservation of None \<Rightarrow> b | Some r \<Rightarrow> permit_drop b r))"

section \<open>Lemmas on the budget\<close>

definition budget_wf :: "BudgetInner \<Rightarrow> bool" where
  "budget_wf b = (used b \<le> capacity b \<and> capacity b \<le> usize_max)"

lemma budget_new_wf: "budget_new cap = Inr b \<Longrightarrow> cap \<le> usize_max \<Longrightarrow> budget_wf b \<and> used b = 0"
  by (auto simp: budget_new_def budget_wf_def split: if_splits)

lemma reserve_decision_Inr:
  "reserve_decision cap u r = Inr v \<longleftrightarrow> r \<le> cap - u \<and> u + r \<le> usize_max \<and> v = u + r"
  by (auto simp: reserve_decision_def Let_def usize_checked_add_def)

lemma reserve_decision_Inl:
  "u \<le> cap \<Longrightarrow> cap \<le> usize_max \<Longrightarrow>
   reserve_decision cap u r = Inl e \<longleftrightarrow> cap - u < r \<and> e = DecodedBudgetExhausted r (cap - u)"
  by (auto simp: reserve_decision_def Let_def usize_checked_add_def ok_or_eq_Inl)

lemma try_reserve_Inr:
  "budget_wf b \<Longrightarrow> try_reserve b r = Inr (b', p) \<longleftrightarrow>
     used b + r \<le> capacity b \<and> b' = b\<lparr>used := used b + r\<rparr> \<and> p = r"
  by (auto simp: try_reserve_def reserve_decision_Inr budget_wf_def)

lemma try_reserve_Inl:
  "budget_wf b \<Longrightarrow> try_reserve b r = Inl e \<longleftrightarrow>
     capacity b < used b + r \<and> e = DecodedBudgetExhausted r (capacity b - used b)"
  by (auto simp: try_reserve_def rbind_eq_Inl reserve_decision_Inl budget_wf_def)

lemma permit_drop_used:
  assumes "budget_wf b" "r \<le> used b"
  shows "permit_drop b r = b\<lparr>used := used b - r\<rparr>"
proof -
  have "int (used b) - int r < 2 ^ 64" using assms by (simp add: budget_wf_def usize_max_def)
  then have "(int (used b) - int r) mod 2 ^ 64 = int (used b - r)"
    using assms(2) by (simp add: mod_pos_pos_trivial of_nat_diff)
  then show ?thesis by (simp add: permit_drop_def)
qed

lemma reserve_then_drop:
  assumes "budget_wf b" "try_reserve b r = Inr (b', p)"
  shows "permit_drop b' p = b" "budget_wf b'"
proof -
  have *: "used b + r \<le> capacity b" "b' = b\<lparr>used := used b + r\<rparr>" "p = r"
    using assms by (simp_all add: try_reserve_Inr)
  then show "budget_wf b'" using assms(1) by (simp add: budget_wf_def)
  with * show "permit_drop b' p = b" by (simp add: permit_drop_used)
qed

fun held :: "reserve_thread \<Rightarrow> nat" where
  "held (Holding n) = n"
| "held _ = 0"

fun thread_ok :: "nat \<Rightarrow> reserve_thread \<Rightarrow> bool" where
  "thread_ok cap (Checking requested observed) = (observed \<le> cap)"
| "thread_ok cap (Swapping requested observed updated) =
     (updated = observed + requested \<and> updated \<le> cap)"
| "thread_ok cap _ = True"

definition budget_inv :: "budget_world \<Rightarrow> bool" where
  "budget_inv w = (budget_wf (shared w)
     \<and> used (shared w) = sum_list (map held (threads w))
     \<and> list_all (thread_ok (capacity (shared w))) (threads w))"

lemma held_update:
  "i < length ts \<Longrightarrow> held (ts ! i) \<le> sum_list (map held ts)"
  "i < length ts \<Longrightarrow>
   sum_list (map held (ts[i := t])) = sum_list (map held ts) + held t - held (ts ! i)"
  using elem_le_sum_list [of i "map held ts"]
  by (simp_all add: map_update sum_list_update)

lemma list_all_update: "list_all P xs \<Longrightarrow> P x \<Longrightarrow> list_all P (xs[i := x])"
  by (metis list_all_length length_list_update nth_list_update nth_list_update_neq)

lemma list_all_nthD: "list_all P xs \<Longrightarrow> i < length xs \<Longrightarrow> P (xs ! i)"
  by (simp add: list_all_length)

lemma budget_step_inv: "budget_step w w' \<Longrightarrow> budget_inv w \<Longrightarrow> budget_inv w'"
proof (induction rule: budget_step.induct)
  case (load i w requested)
  then show ?case
    by (auto simp: budget_inv_def budget_wf_def held_update intro!: list_all_update)
next
  case (refuse i w requested observed e)
  then show ?case by (auto simp: budget_inv_def held_update intro!: list_all_update)
next
  case (decide i w requested observed updated)
  then have "observed \<le> capacity (shared w)"
    using list_all_nthD by (fastforce simp: budget_inv_def)
  with decide show ?case
    by (auto simp: budget_inv_def held_update reserve_decision_Inr intro!: list_all_update)
next
  case (swap_ok i w requested observed updated)
  then have "updated = observed + requested" "updated \<le> capacity (shared w)"
    using list_all_nthD by (fastforce simp: budget_inv_def)+
  with swap_ok show ?case
    by (auto simp: budget_inv_def budget_wf_def held_update intro!: list_all_update)
next
  case (swap_fail i w requested observed updated)
  then show ?case
    by (auto simp: budget_inv_def budget_wf_def held_update intro!: list_all_update)
next
  case (drop i w reserved)
  then have "reserved \<le> used (shared w)"
    using held_update(1) [of i "threads w"] by (simp add: budget_inv_def)
  with drop show ?case
    by (auto simp: budget_inv_def permit_drop_used budget_wf_def held_update intro!: list_all_update)
next
  case (enter w requested)
  then show ?case by (auto simp: budget_inv_def)
qed

lemma budget_reachable_inv:
  assumes "budget_new cap = Inr b" "cap \<le> usize_max"
    and "budget_step\<^sup>*\<^sup>* \<lparr>shared = b, threads = []\<rparr> w"
  shows "budget_inv w"
  using assms(3)
proof (induction rule: rtranclp_induct)
  case base
  then show ?case using budget_new_wf [OF assms(1,2)] by (simp add: budget_inv_def)
next
  case (step y z)
  then show ?case using budget_step_inv by blast
qed

subsection \<open>Refinement of the atomic budget\<close>

text \<open>The specification of concurrent use: threads join, acquire by one atomic
  \<open>try_reserve\<close>, and release by one atomic drop.\<close>

inductive budget_spec :: "BudgetInner \<times> nat option list \<Rightarrow> BudgetInner \<times> nat option list \<Rightarrow> bool" where
  join: "budget_spec (b, ps) (b, ps @ [None])"
| acquire: "\<lbrakk>i < length ps; ps ! i = None; try_reserve b r = Inr (b', p)\<rbrakk> \<Longrightarrow>
    budget_spec (b, ps) (b', ps[i := Some p])"
| release: "\<lbrakk>i < length ps; ps ! i = Some p\<rbrakk> \<Longrightarrow>
    budget_spec (b, ps) (permit_drop b p, ps[i := None])"

fun permit_of :: "reserve_thread \<Rightarrow> nat option" where
  "permit_of (Holding n) = Some n"
| "permit_of _ = None"

definition budget_abs :: "budget_world \<Rightarrow> BudgetInner \<times> nat option list" where
  "budget_abs w = (shared w, map permit_of (threads w))"

lemma permit_unchanged:
  assumes "i < length ts" "permit_of (ts ! i) = None" "permit_of t = None"
  shows "map permit_of (ts[i := t]) = map permit_of ts"
  by (metis assms length_map list_update_id map_update nth_map)

lemma budget_step_refines:
  "budget_step w w' \<Longrightarrow> budget_inv w \<Longrightarrow> budget_spec\<^sup>*\<^sup>* (budget_abs w) (budget_abs w')"
proof (induction rule: budget_step.induct)
  case (swap_ok i w requested observed updated)
  then have "updated = observed + requested" "updated \<le> capacity (shared w)"
    using list_all_nthD by (fastforce simp: budget_inv_def)+
  then have "try_reserve (shared w) requested = Inr ((shared w)\<lparr>used := updated\<rparr>, requested)"
    using swap_ok by (simp add: try_reserve_Inr budget_inv_def)
  from budget_spec.acquire [OF _ _ this, of i "map permit_of (threads w)"]
  show ?case using swap_ok by (simp add: budget_abs_def map_update r_into_rtranclp)
next
  case (drop i w reserved)
  then show ?case
    using budget_spec.release [of i "map permit_of (threads w)" reserved "shared w"]
    by (simp add: budget_abs_def map_update r_into_rtranclp)
next
  case (enter w requested)
  then show ?case by (simp add: budget_abs_def budget_spec.join r_into_rtranclp)
qed (simp_all add: budget_abs_def permit_unchanged)

section \<open>Lemmas on the policy\<close>

lemma compression_encode_Inr:
  assumes "compression_encode z p payload codec = Inr c"
  shows "length payload \<le> unat (cp_max_decoded_body_len p)"
    and "original_len c = word_of_nat (length payload)"
    and "0 < max_expansion_ratio p" "0 < cp_max_decoded_body_len p"
    and "(cp_codec c = CodecNone \<and> cp_bytes c = payload)
       \<or> (cp_codec c = Zstd \<and> zstd_compress z payload (compression_level p) = Some (cp_bytes c)
          \<and> min_payload_bytes p \<le> length payload
          \<and> length (cp_bytes c) + min_savings_bytes p \<le> length payload
          \<and> length payload \<le> length (cp_bytes c) * unat (max_expansion_ratio p))"
proof -
  have valid: "policy_validate p = Inr ()" and len: "length payload \<le> u32_max"
    and fits: "\<not> word_of_nat (length payload) > cp_max_decoded_body_len p"
    using assms by (auto simp: compression_encode_def split: if_splits)
  show "length payload \<le> unat (cp_max_decoded_body_len p)"
    using fits len by (simp add: not_less word_le_nat_alt)
  show "0 < max_expansion_ratio p" "0 < cp_max_decoded_body_len p"
    using valid by (auto simp: policy_validate_def word_neq_0_conv split: if_splits)
  have codec: "codec = CodecNone \<or> codec = Zstd" by (cases codec) auto
  show "original_len c = word_of_nat (length payload)"
    using assms by (auto simp: compression_encode_def Let_def split: if_splits)
  show "(cp_codec c = CodecNone \<and> cp_bytes c = payload)
       \<or> (cp_codec c = Zstd \<and> zstd_compress z payload (compression_level p) = Some (cp_bytes c)
          \<and> min_payload_bytes p \<le> length payload
          \<and> length (cp_bytes c) + min_savings_bytes p \<le> length payload
          \<and> length payload \<le> length (cp_bytes c) * unat (max_expansion_ratio p))"
    using assms codec
    by (auto simp: compression_encode_def Let_def usize_checked_add_def split: if_splits option.splits)
qed

lemma decode_none:
  "\<lbrakk>policy_validate p = Inr (); unat len \<le> unat (cp_max_decoded_body_len p); length bs = unat len\<rbrakk> \<Longrightarrow>
   decode_with_reservation z p CodecNone bs len b = (Inr (bs, None), b)"
  by (simp add: decode_with_reservation_def word_less_nat_alt)

lemma decode_zstd:
  assumes "policy_validate p = Inr ()" "unat len \<le> unat (cp_max_decoded_body_len p)"
    and "unat len \<le> length bs * unat (max_expansion_ratio p)"
    and "budget_wf b" "used b + unat len \<le> capacity b"
    and "zstd_decompress z bs (unat len) = Some out" "length out = unat len"
  shows "decode_with_reservation z p Zstd bs len b =
    (Inr (out, Some (unat len)), b\<lparr>used := used b + unat len\<rparr>)"
proof -
  have "try_reserve b (unat len) = Inr (b\<lparr>used := used b + unat len\<rparr>, unat len)"
    using assms(4,5) by (simp add: try_reserve_Inr)
  then show ?thesis
    using assms by (simp add: decode_with_reservation_def word_less_nat_alt)
qed

lemma decode_with_reservation_Inr:
  assumes "budget_wf b" "decode_with_reservation z p codec bs len b = (Inr (out, res), b')"
  shows "length out = unat len" "unat len \<le> unat (cp_max_decoded_body_len p)" "budget_wf b'"
    and "case res of
           None \<Rightarrow> codec = CodecNone \<and> out = bs \<and> b' = b
         | Some r \<Rightarrow> codec \<noteq> CodecNone \<and> r = unat len \<and> b' = b\<lparr>used := used b + r\<rparr>
             \<and> used b + r \<le> capacity b
             \<and> length out \<le> length bs * unat (max_expansion_ratio p)
             \<and> zstd_decompress z bs (unat len) = Some out"
  using assms
  by (auto simp: decode_with_reservation_def try_reserve_Inr try_reserve_Inl word_less_nat_alt not_less
      budget_wf_def split: sum.splits if_splits option.splits)

lemma decode_with_reservation_Inl:
  assumes "budget_wf b" "decode_with_reservation z p codec bs len b = (Inl e, b')"
  shows "b' = b"
  using assms reserve_then_drop [OF assms(1)]
  by (auto simp: decode_with_reservation_def split: sum.splits if_splits option.splits)

lemma decode_of_encode:
  assumes "zstd_laws z" and "compression_encode z p payload codec = Inr c"
    and "unat (cp_max_decoded_body_len p) \<le> unat (cp_max_decoded_body_len q)"
    and "unat (max_expansion_ratio p) \<le> unat (max_expansion_ratio q)"
    and "budget_wf b" and "used b + length payload \<le> capacity b"
  shows "fst (decode_with_reservation z q (cp_codec c) (cp_bytes c) (original_len c) b) =
           Inr (payload, if cp_codec c = CodecNone then None else Some (length payload))
     \<and> compression_decode z q (cp_codec c) (cp_bytes c) (original_len c) b = (Inr payload, b)
     \<and> length (cp_bytes c) \<le> length payload"
proof -
  note enc = compression_encode_Inr [OF assms(2)]
  have fits: "length payload \<le> unat (cp_max_decoded_body_len q)" using enc(1) assms(3) by linarith
  have len: "unat (original_len c) = length payload"
    using enc(2) le_trans [OF enc(1) unat_u32_le_max] by simp
  have ok: "policy_validate q = Inr ()"
  proof -
    have "0 < unat (max_expansion_ratio p)" "0 < unat (cp_max_decoded_body_len p)"
      using enc(3,4) by (simp_all add: word_less_nat_alt)
    then have "max_expansion_ratio q \<noteq> 0" "cp_max_decoded_body_len q \<noteq> 0"
      using assms(3,4) by fastforce+
    then show ?thesis by (simp add: policy_validate_def)
  qed
  show ?thesis
  proof (cases "cp_codec c")
    case CodecNone
    then have stored: "cp_bytes c = payload" using enc(5) by auto
    have "decode_with_reservation z q CodecNone payload (original_len c) b = (Inr (payload, None), b)"
      using len fits by (intro decode_none [OF ok]) simp_all
    with CodecNone stored show ?thesis by (simp add: compression_decode_def)
  next
    case Zstd
    then have zip: "zstd_compress z payload (compression_level p) = Some (cp_bytes c)"
      and ratio: "length payload \<le> length (cp_bytes c) * unat (max_expansion_ratio p)"
      and smaller: "length (cp_bytes c) \<le> length payload" using enc(5) by auto
    have "zstd_decompress z (cp_bytes c) (length payload) = Some payload"
      using assms(1) zip by (auto simp: zstd_laws_def)
    moreover have "length payload \<le> length (cp_bytes c) * unat (max_expansion_ratio q)"
      by (rule order_trans [OF ratio mult_le_mono2 [OF assms(4)]])
    ultimately have dec: "decode_with_reservation z q Zstd (cp_bytes c) (original_len c) b =
        (Inr (payload, Some (length payload)), b\<lparr>used := used b + length payload\<rparr>)"
      using decode_zstd [OF ok, of "original_len c" "cp_bytes c" b z payload] fits assms(5,6)
      unfolding len by blast
    have "permit_drop (b\<lparr>used := used b + length payload\<rparr>) (length payload) = b"
      using assms(5,6) by (simp add: permit_drop_used budget_wf_def)
    with dec Zstd smaller show ?thesis by (simp add: compression_decode_def)
  qed
qed

section \<open>Properties\<close>

text \<open>Claim C5. The shared decoded-byte budget is never oversubscribed: however the threads inside
  \<open>try_reserve\<close> and the drops of permits interleave at the shared counter, spurious
  compare-and-swap failures included, the counter is exactly the sum of the permits alive and at most
  the capacity, so no drop ever wraps it around.\<close>

theorem budget_never_oversubscribed:
  assumes "budget_new cap = Inr b" and "cap \<le> usize_max"
    and "budget_step\<^sup>*\<^sup>* \<lparr>shared = b, threads = []\<rparr> w"
  shows "used (shared w) = sum_list (map held (threads w)) \<and> used (shared w) \<le> capacity (shared w)
    \<and> (\<forall>i < length (threads w). \<forall>r. threads w ! i = Holding r \<longrightarrow>
         used (permit_drop (shared w) r) = used (shared w) - r \<and> r \<le> used (shared w))"
proof -
  have inv: "budget_inv w" using assms by (rule budget_reachable_inv)
  then show ?thesis
    using held_update(1) [of _ "threads w"]
    by (fastforce simp: budget_inv_def budget_wf_def permit_drop_used)
qed

theorem budget_never_oversubscribed_witness:
  "\<exists>w. budget_step\<^sup>*\<^sup>* \<lparr>shared = \<lparr>capacity = 8, used = 0\<rparr>, threads = []\<rparr> w
     \<and> threads w = [Loading 5] \<and> used (shared w) = sum_list (map held (threads w))"
proof -
  let ?w = "\<lparr>shared = \<lparr>capacity = 8, used = 0\<rparr>, threads = [Loading 5]\<rparr>"
  have new: "budget_new 8 = Inr \<lparr>capacity = 8, used = 0\<rparr>" by (simp add: budget_new_def)
  have cap: "(8 :: nat) \<le> usize_max" by (simp add: usize_max_def)
  have run: "budget_step\<^sup>*\<^sup>* \<lparr>shared = \<lparr>capacity = 8, used = 0\<rparr>, threads = []\<rparr> ?w"
    using budget_step.enter [of "\<lparr>shared = \<lparr>capacity = 8, used = 0\<rparr>, threads = []\<rparr>" 5]
    by (simp add: r_into_rtranclp)
  then show ?thesis using budget_never_oversubscribed [OF new cap run] by auto
qed

text \<open>Claim C13. The compare-and-swap loop implements the atomic budget: every run of the interleaved
  loop, seen through the shared counter and the permits alive, is a run of the specification in
  which \<open>try_reserve\<close> and the drop of a permit are single steps.\<close>

theorem budget_loop_refines_atomic:
  assumes "budget_new cap = Inr b" and "cap \<le> usize_max"
    and "budget_step\<^sup>*\<^sup>* \<lparr>shared = b, threads = []\<rparr> w"
  shows "budget_spec\<^sup>*\<^sup>* (b, []) (budget_abs w)"
  using assms(3)
proof (induction rule: rtranclp_induct)
  case base
  then show ?case by (simp add: budget_abs_def)
next
  case (step y z)
  then have "budget_inv y" using budget_reachable_inv [OF assms(1,2)] by blast
  then show ?case using step budget_step_refines by (meson rtranclp_trans)
qed

theorem budget_loop_refines_atomic_witness:
  "\<exists>w. budget_step\<^sup>*\<^sup>* \<lparr>shared = \<lparr>capacity = 8, used = 0\<rparr>, threads = []\<rparr> w
     \<and> threads w = [Loading 5] \<and> budget_spec\<^sup>*\<^sup>* (\<lparr>capacity = 8, used = 0\<rparr>, []) (budget_abs w)"
proof -
  let ?w = "\<lparr>shared = \<lparr>capacity = 8, used = 0\<rparr>, threads = [Loading 5]\<rparr>"
  have new: "budget_new 8 = Inr \<lparr>capacity = 8, used = 0\<rparr>" by (simp add: budget_new_def)
  have cap: "(8 :: nat) \<le> usize_max" by (simp add: usize_max_def)
  have run: "budget_step\<^sup>*\<^sup>* \<lparr>shared = \<lparr>capacity = 8, used = 0\<rparr>, threads = []\<rparr> ?w"
    using budget_step.enter [of "\<lparr>shared = \<lparr>capacity = 8, used = 0\<rparr>, threads = []\<rparr>" 5]
    by (simp add: r_into_rtranclp)
  then show ?thesis using budget_loop_refines_atomic [OF new cap run] by auto
qed

text \<open>Claim C12. Compression round trip: what a sender's policy produces, compressed or stored, is
  decoded to the original payload by any receiver whose size and ratio limits are at least the
  sender's and whose budget has room; the receiver's reservation is the payload length when the
  payload was compressed, and nothing otherwise.\<close>

theorem compression_roundtrip:
  assumes "zstd_laws z" and "compression_encode z p payload codec = Inr c"
    and "unat (cp_max_decoded_body_len p) \<le> unat (cp_max_decoded_body_len q)"
    and "unat (max_expansion_ratio p) \<le> unat (max_expansion_ratio q)"
    and "budget_wf b" and "used b + length payload \<le> capacity b"
  shows "fst (decode_with_reservation z q (cp_codec c) (cp_bytes c) (original_len c) b) =
           Inr (payload, if cp_codec c = CodecNone then None else Some (length payload))
     \<and> compression_decode z q (cp_codec c) (cp_bytes c) (original_len c) b = (Inr payload, b)
     \<and> length (cp_bytes c) \<le> length payload"
  using assms by (rule decode_of_encode)

text \<open>Claim C6. Decompression is bounded: a decoded payload has exactly the announced length, within
  the size limit, and, when it was compressed, within the expansion ratio and charged to the budget for
  exactly that length without exceeding the capacity.  Every failure, corrupt input included,
  leaves the budget as it was.\<close>

theorem decode_bounded:
  assumes "budget_wf b" and "decode_with_reservation z p codec encoded len b = (r, b')"
  shows "(\<forall>e. r = Inl e \<longrightarrow> b' = b)
    \<and> (\<forall>out res. r = Inr (out, res) \<longrightarrow>
         length out = unat len \<and> length out \<le> unat (cp_max_decoded_body_len p)
       \<and> used b' = used b + (case res of None \<Rightarrow> 0 | Some n \<Rightarrow> n) \<and> used b' \<le> capacity b'
       \<and> (codec \<noteq> CodecNone \<longrightarrow>
            res = Some (length out) \<and> length out \<le> length encoded * unat (max_expansion_ratio p)))"
proof (intro conjI allI impI)
  fix e assume "r = Inl e"
  then show "b' = b" using decode_with_reservation_Inl assms by simp
next
  fix out res assume r: "r = Inr (out, res)"
  note d = decode_with_reservation_Inr [OF assms(1) assms(2) [unfolded r]]
  show "length out = unat len" by (rule d(1))
  show "length out \<le> unat (cp_max_decoded_body_len p)" using d(1,2) by simp
  show "used b' = used b + (case res of None \<Rightarrow> 0 | Some n \<Rightarrow> n)" using d(4) by (auto split: option.splits)
  show "used b' \<le> capacity b'" using d(3) by (simp add: budget_wf_def)
  assume "codec \<noteq> CodecNone"
  then show "res = Some (length out)" "length out \<le> length encoded * unat (max_expansion_ratio p)"
    using d(1,4) by (auto split: option.splits)
qed

text \<open>A concrete codec for the witnesses: stored blocks.\<close>

definition stored_codec :: zstd where
  "stored_codec = \<lparr>zstd_compress = (\<lambda>x _. Some x),
     zstd_decompress = (\<lambda>c n. if length c \<le> n then Some c else None)\<rparr>"

lemma stored_codec_laws: "zstd_laws stored_codec"
  by (simp add: zstd_laws_def stored_codec_def)

theorem compression_roundtrip_witness:
  "compression_decode stored_codec compression_policy_default Zstd [1, 2, 3] 3 \<lparr>capacity = 4, used = 0\<rparr>
     = (Inr [1, 2, 3], \<lparr>capacity = 4, used = 0\<rparr>)"
proof -
  let ?p = "compression_policy_default\<lparr>min_payload_bytes := 0, min_savings_bytes := 0\<rparr>"
  have enc: "compression_encode stored_codec ?p [1, 2, 3] Zstd =
      Inr \<lparr>cp_codec = Zstd, original_len = 3, cp_bytes = [1, 2, 3]\<rparr>"
    by (simp add: compression_encode_def policy_validate_def compression_policy_default_def
        stored_codec_def u32_try_from_def u32_max_def usize_checked_add_def usize_max_def Let_def
        del: rbind_eq_Inr)
  show ?thesis
    using compression_roundtrip [OF stored_codec_laws enc, of compression_policy_default "\<lparr>capacity = 4, used = 0\<rparr>"]
    by (simp add: budget_wf_def usize_max_def compression_policy_default_def)
qed

theorem decode_bounded_witness:
  "\<exists>r b'. decode_with_reservation stored_codec compression_policy_default Zstd [1, 2, 3] 3
       \<lparr>capacity = 4, used = 0\<rparr> = (r, b') \<and> r = Inr ([1, 2, 3], Some 3) \<and> used b' = 3"
proof -
  let ?b = "\<lparr>capacity = 4, used = 0\<rparr>"
  have wf: "budget_wf ?b" by (simp add: budget_wf_def usize_max_def)
  have dec: "decode_with_reservation stored_codec compression_policy_default Zstd [1, 2, 3] 3 ?b
      = (Inr ([1, 2, 3], Some 3), ?b\<lparr>used := 3\<rparr>)"
    by (simp add: decode_with_reservation_def policy_validate_def compression_policy_default_def
        stored_codec_def try_reserve_def reserve_decision_def usize_checked_add_def usize_max_def)
  from decode_bounded [OF wf dec] dec show ?thesis by auto
qed

end
