(* ===== verification/Frame_Transport.thy ===== *)
theory Frame_Transport
  imports Wire_Protocol
begin

text \<open>
  Reading and writing frames on a byte stream, crates/moonlight-bridge-server/src/lib.rs:
  \<open>read_frame\<close>, \<open>read_frame_buffered\<close> and \<open>write_frame\<close>.  A reader is the bytes
  it will still deliver before end of stream.  The request-byte semaphore and the clock are
  parameters of \<open>read_frame_buffered\<close>: whether the permits are granted, and whether the read
  timeout fires first.
\<close>

datatype io_kind = UnexpectedEof | TimedOut | BrokenPipe | InvalidData | InvalidInput | OtherError

datatype io_detail = Message string | Protocol ProtocolError | NoDetail

record io_error =
  error_kind :: io_kind
  error_detail :: io_detail

definition io_error_new :: "io_kind \<Rightarrow> string \<Rightarrow> io_error" where
  "io_error_new k m = \<lparr>error_kind = k, error_detail = Message m\<rparr>"

definition invalid_data :: "ProtocolError \<Rightarrow> io_error" where
  "invalid_data e = \<lparr>error_kind = InvalidData, error_detail = Protocol e\<rparr>"

text \<open>\<open>AsyncReadExt::read_exact\<close>: the bytes read and the rest of the stream.\<close>

definition read_exact :: "nat \<Rightarrow> bytes \<Rightarrow> io_error + (bytes \<times> bytes)" where
  "read_exact n input =
    (if n \<le> length input then Inr (take n input, drop n input)
     else Inl \<lparr>error_kind = UnexpectedEof, error_detail = NoDetail\<rparr>)"

definition read_frame :: "bytes \<Rightarrow> u32 \<Rightarrow> io_error + (Frame \<times> bytes)" where
  "read_frame reader body_limit =
     rbind (read_exact HEADER_LEN reader) (\<lambda>(header, reader).
     rbind (map_err invalid_data (decode_header header body_limit)) (\<lambda>decoded.
     rbind (read_exact (unat (hdr_body_len decoded)) reader) (\<lambda>(body, reader).
     Inr (frame_with_flags
            (frame_new (hdr_kind decoded) (hdr_method_id decoded) (hdr_request_id decoded) body)
            (hdr_flags decoded), reader))))"

record BufferedFrame =
  bf_frame :: Frame
  bf_permit :: "u32 option"
  bf_received_at :: "nat option"

text \<open>\<open>granted n\<close>: \<open>acquire_many_owned(n)\<close> returns the permits (it fails only on a closed
  semaphore).  \<open>timed_out\<close>: the read timeout elapses before the inner future is done.
  \<open>now\<close>: the clock when the frame is complete.\<close>

definition read_frame_buffered ::
    "bytes \<Rightarrow> u32 \<Rightarrow> bool \<Rightarrow> (u32 \<Rightarrow> bool) \<Rightarrow> bool \<Rightarrow> nat \<Rightarrow> io_error + (BufferedFrame \<times> bytes)" where
  "read_frame_buffered reader body_limit timed_out granted stamp now =
    (if timed_out then Inl (io_error_new TimedOut ''MoonLightBridge frame read timed out'')
     else
       rbind (read_exact HEADER_LEN reader) (\<lambda>(header, reader).
       rbind (map_err invalid_data (decode_header header body_limit)) (\<lambda>decoded.
       rbind (if hdr_body_len decoded = 0 then Inr None
              else if granted (hdr_body_len decoded) then Inr (Some (hdr_body_len decoded))
              else Inl (io_error_new BrokenPipe ''request byte budget closed'')) (\<lambda>permit.
       rbind (read_exact (unat (hdr_body_len decoded)) reader) (\<lambda>(body, reader).
       Inr (\<lparr>bf_frame = frame_with_flags
               (frame_new (hdr_kind decoded) (hdr_method_id decoded) (hdr_request_id decoded) body)
               (hdr_flags decoded),
             bf_permit = permit,
             bf_received_at = (if stamp then Some now else None)\<rparr>, reader))))))"

definition write_frame :: "bytes \<Rightarrow> Frame \<Rightarrow> io_error + bytes" where
  "write_frame written frame =
     rbind (map_err invalid_data (frame_encode frame)) (\<lambda>encoded. Inr (written @ encoded))"

text \<open>Reading frame after frame until the stream ends, as the reader task does; \<open>fuel\<close> bounds
  the number of frames.\<close>

fun read_frames :: "nat \<Rightarrow> bytes \<Rightarrow> u32 \<Rightarrow> Frame list \<times> io_error option" where
  "read_frames 0 reader m = ([], None)"
| "read_frames (Suc fuel) reader m =
    (case read_frame reader m of
       Inl e \<Rightarrow> ([], Some e)
     | Inr (f, rest) \<Rightarrow> (let (fs, e) = read_frames fuel rest m in (f # fs, e)))"

section \<open>Lemmas\<close>

definition frame_encodable :: "Frame \<Rightarrow> bool" where
  "frame_encodable f = (flags f AND NOT KNOWN_FLAGS = 0 \<and> length (body f) \<le> u32_max)"

definition frame_header :: "Frame \<Rightarrow> DecodedHeader" where
  "frame_header f = \<lparr>hdr_kind = kind f, hdr_flags = flags f, hdr_body_len = word_of_nat (length (body f)),
     hdr_method_id = method_id f, hdr_request_id = request_id f\<rparr>"

lemma frame_encode_into_ok:
  "frame_encode_into f out =
     (if frame_encodable f then Inr (out @ header_bytes (frame_header f) @ body f)
      else frame_encode_into f out)"
  "(\<exists>bs. frame_encode_into f out = Inr bs) \<longleftrightarrow> frame_encodable f"
  by (auto simp: frame_encodable_def frame_header_def frame_encode_into_Inr)

lemma frame_encode_Inr:
  "frame_encode f = Inr bs \<longleftrightarrow> frame_encodable f \<and> bs = header_bytes (frame_header f) @ body f"
  by (auto simp: frame_encode_def frame_encode_into_Inr frame_encodable_def frame_header_def)

lemma frame_rebuild:
  "frame_with_flags (frame_new (kind f) (method_id f) (request_id f) (body f)) (flags f) = f"
  by (cases f) (simp add: frame_with_flags_def frame_new_def)

lemma read_exact_append: "length xs = n \<Longrightarrow> read_exact n (xs @ ys) = Inr (xs, ys)"
  by (simp add: read_exact_def)

lemma read_exact_Inr:
  "read_exact n input = Inr (xs, rest) \<longleftrightarrow> length xs = n \<and> input = xs @ rest"
  by (auto simp: read_exact_def split: if_splits)

lemma frame_header_decodes:
  assumes "frame_encodable f" "length (body f) \<le> unat m"
  shows "decode_header (header_bytes (frame_header f)) m = Inr (frame_header f)"
proof -
  have "\<not> m < hdr_body_len (frame_header f)"
    using assms by (simp add: frame_encodable_def frame_header_def not_less word_le_nat_alt)
  then show ?thesis
    using assms(1) by (simp add: decode_header_bytes frame_encodable_def frame_header_def)
qed

lemma read_frame_encoded:
  assumes "frame_encodable f" "length (body f) \<le> unat m"
  shows "read_frame (header_bytes (frame_header f) @ body f @ rest) m = Inr (f, rest)"
proof -
  have "unat (hdr_body_len (frame_header f)) = length (body f)"
    using assms(1) by (simp add: frame_header_def frame_encodable_def)
  then show ?thesis
    using frame_header_decodes [OF assms] frame_rebuild [of f]
    by (simp add: read_frame_def read_exact_append del: rbind_eq_Inr) (simp add: frame_header_def)
qed

lemma read_frame_Inr:
  assumes "read_frame reader m = Inr (f, rest)"
  shows "frame_encodable f" "length (body f) \<le> unat m"
    and "reader = header_bytes (frame_header f) @ body f @ rest"
proof -
  obtain header r1 h bs where h: "read_exact HEADER_LEN reader = Inr (header, r1)"
      "decode_header header m = Inr h" "read_exact (unat (hdr_body_len h)) r1 = Inr (bs, rest)"
      and f: "f = frame_with_flags (frame_new (hdr_kind h) (hdr_method_id h) (hdr_request_id h) bs) (hdr_flags h)"
    using assms by (auto simp: read_frame_def)
  have len: "length bs = unat (hdr_body_len h)" using h(3) by (simp add: read_exact_Inr)
  have hd: "hdr_flags h AND NOT KNOWN_FLAGS = 0" "hdr_body_len h \<le> m"
    using decode_header_Inr_bounds [OF h(2)] by simp_all
  have "frame_header f = h" using f len by (cases h) (simp add: frame_header_def)
  moreover have "header = header_bytes h"
    using h(1,2) by (auto simp: read_exact_Inr intro: header_bytes_decode)
  ultimately show "reader = header_bytes (frame_header f) @ body f @ rest"
    using h(1,3) f by (simp add: read_exact_Inr)
  show "frame_encodable f" using f len hd(1) by (simp add: frame_encodable_def)
  show "length (body f) \<le> unat m" using f len hd(2) by (simp add: word_le_nat_alt)
qed

lemma read_buffered_agrees:
  "read_frame_buffered reader m False granted stamp now = Inr (b, rest) \<Longrightarrow>
   read_frame reader m = Inr (bf_frame b, rest)"
  by (auto simp: read_frame_buffered_def read_frame_def split: if_splits)

lemma write_frame_Inr:
  "write_frame out f = Inr out' \<longleftrightarrow>
   frame_encodable f \<and> out' = out @ header_bytes (frame_header f) @ body f"
  by (auto simp: write_frame_def frame_encode_Inr)

lemma write_frames_Inr:
  "try_fold write_frame out fs = Inr out' \<longleftrightarrow>
   (\<forall>f \<in> set fs. frame_encodable f)
   \<and> out' = out @ concat (map (\<lambda>f. header_bytes (frame_header f) @ body f) fs)"
  by (induction fs arbitrary: out) (auto simp: write_frame_Inr)

lemma read_frames_encoded:
  "\<forall>f \<in> set fs. frame_encodable f \<and> length (body f) \<le> unat m \<Longrightarrow>
   read_frames (Suc (length fs)) (concat (map (\<lambda>f. header_bytes (frame_header f) @ body f) fs)) m =
     (fs, Some \<lparr>error_kind = UnexpectedEof, error_detail = NoDetail\<rparr>)"
proof (induction fs)
  case Nil
  then show ?case by (simp add: read_frame_def read_exact_def HEADER_LEN_def)
next
  case (Cons f fs)
  then show ?case by (simp add: read_frame_encoded Let_def)
qed

section \<open>Properties\<close>

text \<open>Claim C14. A stream of frames is delivered intact: the frames that were written one after the
  other onto a connection are read back from it in the same order with the same contents by a reader
  whose limit admits their bodies, followed by a clean end of stream.\<close>

theorem frame_stream_roundtrip:
  assumes "try_fold write_frame [] fs = Inr wire"
    and "\<forall>f \<in> set fs. length (body f) \<le> unat body_limit"
  shows "read_frames (Suc (length fs)) wire body_limit =
           (fs, Some \<lparr>error_kind = UnexpectedEof, error_detail = NoDetail\<rparr>)"
proof -
  have "wire = concat (map (\<lambda>f. header_bytes (frame_header f) @ body f) fs)"
    and "\<forall>f \<in> set fs. frame_encodable f" using assms(1) by (simp_all add: write_frames_Inr)
  with assms(2) show ?thesis using read_frames_encoded [of fs body_limit] by simp
qed

theorem frame_stream_roundtrip_witness:
  "\<exists>wire. try_fold write_frame [] [frame_new Ping 0 1 [7], frame_new Goodbye 0 0 []] = Inr wire
     \<and> read_frames 3 wire 8 = ([frame_new Ping 0 1 [7], frame_new Goodbye 0 0 []],
          Some \<lparr>error_kind = UnexpectedEof, error_detail = NoDetail\<rparr>)"
proof -
  let ?fs = "[frame_new Ping 0 1 [7], frame_new Goodbye 0 0 []]"
  obtain wire where w: "try_fold write_frame [] ?fs = Inr wire"
    by (simp only: write_frames_Inr) (simp add: frame_encodable_def u32_max_def)
  have "Suc (length ?fs) = 3" "\<forall>f \<in> set ?fs. length (body f) \<le> unat (8 :: u32)" by simp_all
  with frame_stream_roundtrip [OF w, of 8] w show ?thesis by metis
qed

text \<open>A reader accepts nothing else: a frame read from a stream is exactly the encoding at
  its head, its body is within the limit, and the frame could have been written; the buffered reader
  delivers the same frame and holds request-byte permits for exactly its body.\<close>

theorem read_frame_exact:
  assumes "read_frame_buffered reader body_limit timed_out granted stamp now = Inr (b, rest)"
  shows "write_frame [] (bf_frame b) = Inr (take (length reader - length rest) reader)
    \<and> reader = take (length reader - length rest) reader @ rest
    \<and> length (body (bf_frame b)) \<le> unat body_limit
    \<and> (case bf_permit b of None \<Rightarrow> 0 | Some n \<Rightarrow> unat n) = length (body (bf_frame b))
    \<and> (bf_received_at b \<noteq> None) = stamp"
proof -
  have t: "\<not> timed_out" using assms by (auto simp: read_frame_buffered_def)
  then have r: "read_frame reader body_limit = Inr (bf_frame b, rest)"
    using assms read_buffered_agrees by fastforce
  note r = read_frame_Inr [OF r]
  have "bf_permit b = (if body (bf_frame b) = [] then None else Some (word_of_nat (length (body (bf_frame b)))))"
    using assms by (auto simp: read_frame_buffered_def read_exact_Inr unat_eq_zero split: if_splits)
  moreover have "length (body (bf_frame b)) \<le> u32_max" using r(1) by (simp add: frame_encodable_def)
  moreover have "(bf_received_at b \<noteq> None) = stamp"
    using assms by (auto simp: read_frame_buffered_def split: if_splits)
  moreover have "take (length reader - length rest) reader =
      header_bytes (frame_header (bf_frame b)) @ body (bf_frame b)"
    using arg_cong [OF r(3), of length] r(3) by (metis add_diff_cancel_right' append.assoc append_eq_conv_conj length_append)
  ultimately show ?thesis using r by (simp add: write_frame_Inr)
qed

theorem read_frame_exact_witness:
  "\<exists>b rest. read_frame_buffered (header_bytes (frame_header (frame_new Ping 0 1 [7])) @ [7] @ [9]) 8
      False (\<lambda>_. True) True 5 = Inr (b, rest) \<and> rest = [9] \<and> bf_permit b = Some 1
      \<and> length (body (bf_frame b)) = 1"
proof -
  let ?f = "frame_new Ping 0 1 [7]"
  let ?b = "\<lparr>bf_frame = ?f, bf_permit = Some 1, bf_received_at = Some 5\<rparr>"
  have "decode_header (header_bytes (frame_header ?f)) 8 = Inr (frame_header ?f)"
    by (rule frame_header_decodes) (simp_all add: frame_encodable_def u32_max_def)
  then have r: "read_frame_buffered (header_bytes (frame_header ?f) @ [7] @ [9]) 8
      False (\<lambda>_. True) True 5 = Inr (?b, [9])"
    by (simp add: read_frame_buffered_def read_exact_append del: rbind_eq_Inr)
      (simp add: frame_header_def read_exact_def frame_with_flags_def frame_new_def)
  from read_frame_exact [OF r] r show ?thesis by auto
qed

end
