(* ===== verification/Request_Frames.thy ===== *)
theory Request_Frames
  imports Wire_Metadata Compression Frame_Transport
begin

text \<open>
  What the server does to one frame, crates/moonlight-bridge-server/src/lib.rs:
  \<open>request_payload\<close> (metadata, deadline, trace context, decompression of an inbound request),
  \<open>error_frame\<close>, \<open>fit_outbound_frame\<close> and \<open>compress_outbound_frame\<close>.  The Zstandard
  library is the parameter \<open>z\<close>, the shared decoded-byte budget is passed through, and the two
  clock readings around decompression are the parameter \<open>timing\<close>.
\<close>

section \<open>Inbound requests\<close>

record RequestCompression =
  rc_codecs :: u32
  rc_policy :: CompressionPolicy

record ParsedRequest =
  deadline :: "nat option"
  trace_context :: "TraceContext option"
  metadata :: "Metadata option"
  payload :: bytes
  decompression :: "(nat \<times> nat) option"
  decoded_permit :: "nat option"

type_synonym request_error = "ErrorCode \<times> string"

record reserved_values =
  deadline_value :: "bytes option"
  trace_value :: "bytes option"
  codec_value :: "bytes option"
  original_value :: "bytes option"

definition note_reserved :: "reserved_values \<Rightarrow> ReservedMetadataKey \<times> bytes \<Rightarrow> reserved_values" where
  "note_reserved r kv =
    (case fst kv of
       DeadlineMillis \<Rightarrow> r\<lparr>deadline_value := Some (snd kv)\<rparr>
     | TraceContextKey \<Rightarrow> r\<lparr>trace_value := Some (snd kv)\<rparr>
     | CompressionCodecKey \<Rightarrow> r\<lparr>codec_value := Some (snd kv)\<rparr>
     | OriginalLength \<Rightarrow> r\<lparr>original_value := Some (snd kv)\<rparr>
     | _ \<Rightarrow> r)"

definition collect_reserved :: "bytes \<Rightarrow> reserved_values" where
  "collect_reserved block =
     foldl note_reserved
       \<lparr>deadline_value = None, trace_value = None, codec_value = None, original_value = None\<rparr>
       (reserved_entries block)"

definition parse_deadline :: "bytes option \<Rightarrow> request_error + nat option" where
  "parse_deadline v =
    (case v of
       None \<Rightarrow> Inr None
     | Some value \<Rightarrow>
         if length value \<noteq> 4
         then Inl (InvalidRequest, ''deadline metadata must contain four bytes'')
         else let millis = u32_from_be_bytes value in
           if millis = 0 then Inl (InvalidRequest, ''deadline must be greater than zero'')
           else Inr (Some (unat millis)))"

definition parse_trace :: "bytes option \<Rightarrow> request_error + TraceContext option" where
  "parse_trace v =
    (case v of
       None \<Rightarrow> Inr None
     | Some value \<Rightarrow>
         if length value \<noteq> TRACE_CONTEXT_LEN
         then Inl (InvalidRequest, ''trace-context metadata must contain 25 bytes'')
         else rbind (map_err (\<lambda>_. (InvalidRequest, ''invalid trace context'')) (trace_context_decode value))
                (\<lambda>t. Inr (Some t)))"

definition parse_compression ::
    "bytes option \<Rightarrow> bytes option \<Rightarrow> request_error + (CompressionCodec \<times> u32) option" where
  "parse_compression codec_v original_v =
    (case (codec_v, original_v) of
       (None, None) \<Rightarrow> Inr None
     | (Some [codec], Some original) \<Rightarrow>
         rbind (map_err (\<lambda>_. (CompressionFailure, ''unsupported compression codec'')) (codec_try_from codec))
           (\<lambda>codec.
         if length original \<noteq> 4 then Inl (CompressionFailure, ''invalid original payload length'')
         else Inr (Some (codec, u32_from_be_bytes original)))
     | _ \<Rightarrow> Inl (CompressionFailure, ''incomplete compression metadata''))"

definition request_limits :: "u32 \<Rightarrow> MetadataLimits" where
  "request_limits metadata_limit = metadata_limits_default\<lparr>max_bytes := metadata_limit\<rparr>"

text \<open>The first half of \<open>request_payload\<close>: deadline, trace context, compression announcement,
  retained metadata and the offset of the payload.\<close>

definition request_metadata :: "Frame \<Rightarrow> u32 \<Rightarrow> bool \<Rightarrow> request_error +
    (nat option \<times> TraceContext option \<times> (CompressionCodec \<times> u32) option \<times> Metadata option \<times> nat)" where
  "request_metadata frame metadata_limit retain =
    (if flags frame AND FLAG_HAS_METADATA \<noteq> 0 then
       rbind (map_err (\<lambda>_. (InvalidRequest, ''invalid request metadata''))
                (metadata_validate (body frame) (request_limits metadata_limit))) (\<lambda>(block, rest).
       let r = collect_reserved block in
       rbind (parse_deadline (deadline_value r)) (\<lambda>d.
       rbind (parse_trace (trace_value r)) (\<lambda>t.
       rbind (parse_compression (codec_value r) (original_value r)) (\<lambda>c.
       rbind (if retain
              then map_err (\<lambda>_. (InvalidRequest, ''invalid request metadata''))
                     (rbind (into_metadata block) (\<lambda>m. Inr (Some m)))
              else Inr None) (\<lambda>m.
       Inr (d, t, c, m, length (body frame) - length rest))))))
     else Inr (None, None, None, if retain then Some metadata_new else None, 0))"

text \<open>\<open>Vec::copy_within(offset.., 0)\<close>.\<close>

definition copy_within :: "'a list \<Rightarrow> nat \<Rightarrow> 'a list" where
  "copy_within xs offset = drop offset xs @ drop (length xs - offset) xs"

text \<open>The result, the frame after its body was taken, and the budget.\<close>

definition request_payload ::
    "zstd \<Rightarrow> Frame \<Rightarrow> u32 \<Rightarrow> RequestCompression \<Rightarrow> bool \<Rightarrow> nat \<times> nat \<Rightarrow> BudgetInner
      \<Rightarrow> (request_error + ParsedRequest) \<times> Frame \<times> BudgetInner" where
  "request_payload z frame metadata_limit compression retain timing budget =
    (case request_metadata frame metadata_limit retain of
       Inl e \<Rightarrow> (Inl e, frame, budget)
     | Inr (d, t, announced, m, payload_offset) \<Rightarrow>
        let payload_length = length (body frame) - payload_offset;
            encoded = take payload_length (copy_within (body frame) payload_offset);
            frame' = frame\<lparr>body := []\<rparr> in
        (case announced of
           None \<Rightarrow>
             (Inr \<lparr>deadline = d, trace_context = t, metadata = m, payload = encoded,
                   decompression = None, decoded_permit = None\<rparr>, frame', budget)
         | Some (codec, original_length) \<Rightarrow>
             if codec \<noteq> Zstd \<or> rc_codecs compression AND COMPRESSION_CODEC_ZSTD = 0
             then (Inl (CompressionFailure, ''compression codec was not negotiated''), frame', budget)
             else
               (case decode_with_reservation z (rc_policy compression) codec encoded original_length budget of
                  (Inl _, b) \<Rightarrow> (Inl (CompressionFailure, ''compressed payload rejected''), frame', b)
                | (Inr (decoded, permit), b) \<Rightarrow>
                    (Inr \<lparr>deadline = d, trace_context = t, metadata = m, payload = decoded,
                          decompression = Some timing, decoded_permit = permit\<rparr>, frame', b))))"

section \<open>Outbound frames\<close>

definition error_frame :: "Frame \<Rightarrow> ErrorCode \<Rightarrow> bytes \<Rightarrow> Frame" where
  "error_frame request code message =
     frame_new Error (method_id request) (request_id request) (error_code_encode code message)"

definition fit_outbound_frame :: "Frame \<Rightarrow> u32 \<Rightarrow> Frame" where
  "fit_outbound_frame frame body_limit =
    (if length (body frame) \<le> unat body_limit then frame
     else frame\<lparr>kind := Error, flags := 0,
            body := (if body_limit \<ge> 2 then error_code_encode ResourceExhausted [] else [])\<rparr>)"

definition compression_failed :: "Frame \<Rightarrow> string \<Rightarrow> Frame" where
  "compression_failed frame message =
     frame\<lparr>kind := Error, flags := 0, body := error_code_encode CompressionFailure (str message)\<rparr>"

definition outbound_metadata :: "Frame \<Rightarrow> u32 \<Rightarrow> (Metadata \<times> nat) option" where
  "outbound_metadata frame metadata_limit =
    (if flags frame AND FLAG_HAS_METADATA \<noteq> 0
     then map_option (\<lambda>(m, rest). (m, length (body frame) - length rest))
            (result_ok (metadata_decode (body frame) (request_limits metadata_limit)))
     else Some (metadata_new, 0))"

definition announce_codec :: "CompressedPayload \<Rightarrow> Metadata \<Rightarrow> ProtocolError + Metadata" where
  "announce_codec compressed m =
    (if cp_codec compressed = Zstd
     then rbind (insert_reserved CompressionCodecKey [codec_as_u8 (cp_codec compressed)] m)
            (insert_reserved OriginalLength (u32_to_be_bytes (original_len compressed)))
     else Inr m)"

definition pack_outbound :: "Frame \<Rightarrow> Metadata \<Rightarrow> bytes \<Rightarrow> u32 \<Rightarrow> Frame" where
  "pack_outbound frame m bs metadata_limit =
    (if \<not> metadata_is_empty m then
       (case encode_prefix m [] of
          (_, Inl _) \<Rightarrow> compression_failed frame ''response metadata too large''
        | (prefix, Inr _) \<Rightarrow>
            if length prefix - 4 > unat metadata_limit
            then compression_failed frame ''response metadata too large''
            else frame\<lparr>flags := flags frame OR FLAG_HAS_METADATA, body := prefix @ bs\<rparr>)
     else frame\<lparr>flags := flags frame AND NOT FLAG_HAS_METADATA, body := bs\<rparr>)"

definition compress_outbound_frame ::
    "zstd \<Rightarrow> Frame \<Rightarrow> u32 \<Rightarrow> CompressionPolicy \<Rightarrow> u32 \<Rightarrow> Frame" where
  "compress_outbound_frame z frame codecs policy metadata_limit =
    (if codecs AND COMPRESSION_CODEC_ZSTD = 0 \<or> kind frame \<notin> {Response, Event, StreamItem}
     then frame
     else
       (case outbound_metadata frame metadata_limit of
          None \<Rightarrow> frame
        | Some (m, payload_offset) \<Rightarrow>
           (case compression_encode z policy (drop payload_offset (body frame)) Zstd of
              Inl _ \<Rightarrow> compression_failed frame ''response compression failed''
            | Inr compressed \<Rightarrow>
               (case announce_codec compressed m of
                  Inl _ \<Rightarrow> compression_failed frame ''response metadata conflict''
                | Inr m' \<Rightarrow> pack_outbound frame m' (cp_bytes compressed) metadata_limit))))"

section \<open>Lemmas\<close>

lemma copy_within_take: "take (length xs - k) (copy_within xs k) = drop k xs"
  by (simp add: copy_within_def)

lemma error_code_encode_length [simp, wire_length]: "length (error_code_encode c m) = 2 + length m"
  by (simp add: error_code_encode_def)

lemma fit_outbound_frame_sel [simp]:
  "method_id (fit_outbound_frame f n) = method_id f"
  "request_id (fit_outbound_frame f n) = request_id f"
  "kind (fit_outbound_frame f n) = (if length (body f) \<le> unat n then kind f else Error)"
  "flags (fit_outbound_frame f n) = (if length (body f) \<le> unat n then flags f else 0)"
  by (simp_all add: fit_outbound_frame_def)

lemma fit_outbound_frame_length [simp]: "length (body (fit_outbound_frame f n)) \<le> unat n"
proof -
  have "n \<ge> 2 \<Longrightarrow> 2 \<le> unat n" by (simp add: word_le_nat_alt)
  then show ?thesis by (simp add: fit_outbound_frame_def)
qed

lemma compression_failed_sel [simp]:
  "method_id (compression_failed f m) = method_id f"
  "request_id (compression_failed f m) = request_id f"
  "kind (compression_failed f m) = Error" "flags (compression_failed f m) = 0"
  by (simp_all add: compression_failed_def)

lemma known_flags_closed:
  fixes f :: u16
  assumes "f AND NOT KNOWN_FLAGS = 0"
  shows "(f OR FLAG_HAS_METADATA) AND NOT KNOWN_FLAGS = 0"
    and "(f AND NOT FLAG_HAS_METADATA) AND NOT KNOWN_FLAGS = 0"
proof -
  show "(f OR FLAG_HAS_METADATA) AND NOT KNOWN_FLAGS = 0"
    using assms by (simp add: KNOWN_FLAGS_def and.commute bit.conj_disj_distrib)
  have "(f AND NOT FLAG_HAS_METADATA) AND NOT KNOWN_FLAGS = (f AND NOT KNOWN_FLAGS) AND NOT FLAG_HAS_METADATA"
    by (simp add: ac_simps)
  then show "(f AND NOT FLAG_HAS_METADATA) AND NOT KNOWN_FLAGS = 0" using assms by simp
qed

text \<open>Whatever happens, the frame is left alone, replaced by a compression error, or repacked.\<close>

lemma pack_outbound_cases:
  obtains (failed) message where "pack_outbound f m bs n = compression_failed f message"
  | (packed) b where
      "pack_outbound f m bs n = f\<lparr>flags := flags f OR FLAG_HAS_METADATA, body := b\<rparr>"
  | (bare) b where
      "pack_outbound f m bs n = f\<lparr>flags := flags f AND NOT FLAG_HAS_METADATA, body := b\<rparr>"
proof (cases "metadata_is_empty m")
  case True
  then show ?thesis using bare by (simp add: pack_outbound_def)
next
  case False
  obtain prefix r where e: "encode_prefix m [] = (prefix, r)" by (cases "encode_prefix m []")
  show ?thesis
  proof (cases r)
    case (Inl err)
    with False e show ?thesis using failed by (simp add: pack_outbound_def)
  next
    case (Inr u)
    with False e show ?thesis using failed packed
      by (cases "length prefix - 4 > unat n") (auto simp: pack_outbound_def)
  qed
qed

lemma compress_outbound_cases:
  obtains (same) "compress_outbound_frame z f c p n = f"
  | (failed) message where "compress_outbound_frame z f c p n = compression_failed f message"
  | (packed) b where
      "compress_outbound_frame z f c p n = f\<lparr>flags := flags f OR FLAG_HAS_METADATA, body := b\<rparr>"
  | (bare) b where
      "compress_outbound_frame z f c p n = f\<lparr>flags := flags f AND NOT FLAG_HAS_METADATA, body := b\<rparr>"
proof (cases "c AND COMPRESSION_CODEC_ZSTD = 0 \<or> kind f \<notin> {Response, Event, StreamItem}")
  case True
  then show ?thesis using same by (simp only: compress_outbound_frame_def if_True)
next
  case False
  note d = compress_outbound_frame_def [of z f c p n, unfolded if_not_P [OF False]]
  show ?thesis
  proof (cases "outbound_metadata f n")
    case None
    then show ?thesis using same d by simp
  next
    case (Some mo)
    obtain m off where mo: "mo = (m, off)" by (cases mo)
    show ?thesis
    proof (cases "compression_encode z p (drop off (body f)) Zstd")
      case (Inl e)
      then show ?thesis using failed d Some mo by simp
    next
      case (Inr compressed)
      show ?thesis
      proof (cases "announce_codec compressed m")
        case Inl
        then show ?thesis using failed d Some mo Inr by simp
      next
        case m': (Inr m')
        have "compress_outbound_frame z f c p n = pack_outbound f m' (cp_bytes compressed) n"
          using d Some mo Inr m' by simp
        then show ?thesis
          using failed packed bare by (cases rule: pack_outbound_cases [of f m' "cp_bytes compressed" n]) auto
      qed
    qed
  qed
qed

lemma compress_outbound_frame_sel [simp]:
  "method_id (compress_outbound_frame z f c p n) = method_id f"
  "request_id (compress_outbound_frame z f c p n) = request_id f"
  by (cases rule: compress_outbound_cases [of z f c p n]; simp)+

lemma compress_outbound_kind: "kind (compress_outbound_frame z f c p n) \<in> {kind f, Error}"
  by (cases rule: compress_outbound_cases [of z f c p n]) simp_all

lemma compress_outbound_flags:
  "flags f AND NOT KNOWN_FLAGS = 0 \<Longrightarrow>
   flags (compress_outbound_frame z f c p n) AND NOT KNOWN_FLAGS = 0"
  by (cases rule: compress_outbound_cases [of z f c p n]) (simp_all add: known_flags_closed)

section \<open>Lemmas on parsed requests\<close>

lemma parse_deadline_Inr:
  "parse_deadline v = Inr d \<longleftrightarrow>
    (case v of None \<Rightarrow> d = None
     | Some value \<Rightarrow> length value = 4 \<and> u32_from_be_bytes value \<noteq> 0 \<and> d = Some (unat (u32_from_be_bytes value)))"
  by (auto simp: parse_deadline_def Let_def split: option.splits)

lemma parse_deadline_positive: "parse_deadline v = Inr (Some d) \<Longrightarrow> 0 < d"
  by (auto simp: parse_deadline_Inr unat_eq_zero split: option.splits) (meson gr0I unat_eq_zero)

lemma request_metadata_plain:
  "flags f AND FLAG_HAS_METADATA = 0 \<Longrightarrow>
   request_metadata f n retain = Inr (None, None, None, if retain then Some metadata_new else None, 0)"
  by (simp add: request_metadata_def)

lemma request_metadata_Inr:
  assumes "request_metadata f n retain = Inr (d, t, c, m, off)"
    and "flags f AND FLAG_HAS_METADATA \<noteq> 0"
  obtains block rest where "metadata_validate (body f) (request_limits n) = Inr (block, rest)"
    and "parse_deadline (deadline_value (collect_reserved block)) = Inr d"
    and "parse_trace (trace_value (collect_reserved block)) = Inr t"
    and "parse_compression (codec_value (collect_reserved block)) (original_value (collect_reserved block)) = Inr c"
    and "retain \<Longrightarrow> (\<exists>md. into_metadata block = Inr md \<and> m = Some md)"
    and "\<not> retain \<Longrightarrow> m = None" and "off = length (body f) - length rest"
  using assms by (auto simp: request_metadata_def Let_def split: if_splits)

lemma request_payload_split:
  "request_payload z f n rc retain timing b =
    (case request_metadata f n retain of
       Inl e \<Rightarrow> (Inl e, f, b)
     | Inr (d, t, announced, m, off) \<Rightarrow>
        (case announced of
           None \<Rightarrow> (Inr \<lparr>deadline = d, trace_context = t, metadata = m, payload = drop off (body f),
                        decompression = None, decoded_permit = None\<rparr>, f\<lparr>body := []\<rparr>, b)
         | Some (codec, len) \<Rightarrow>
             if codec \<noteq> Zstd \<or> rc_codecs rc AND COMPRESSION_CODEC_ZSTD = 0
             then (Inl (CompressionFailure, ''compression codec was not negotiated''), f\<lparr>body := []\<rparr>, b)
             else
               (case decode_with_reservation z (rc_policy rc) codec (drop off (body f)) len b of
                  (Inl _, b') \<Rightarrow> (Inl (CompressionFailure, ''compressed payload rejected''), f\<lparr>body := []\<rparr>, b')
                | (Inr (decoded, permit), b') \<Rightarrow>
                    (Inr \<lparr>deadline = d, trace_context = t, metadata = m, payload = decoded,
                          decompression = Some timing, decoded_permit = permit\<rparr>, f\<lparr>body := []\<rparr>, b'))))"
  by (simp only: request_payload_def Let_def copy_within_take)

lemma request_payload_Inl:
  assumes "budget_wf b" "request_payload z f n rc retain timing b = (Inl e, f', b')"
  shows "b' = b"
proof (cases "request_metadata f n retain")
  case (Inl e)
  with assms(2) show ?thesis by (simp add: request_payload_split)
next
  case (Inr q)
  obtain d t c m off where q: "q = (d, t, c, m, off)" by (cases q)
  show ?thesis
  proof (cases c)
    case None
    with Inr q assms(2) show ?thesis by (simp add: request_payload_split)
  next
    case (Some a)
    obtain codec len where a: "a = (codec, len)" by (cases a)
    obtain r b2 where dec: "decode_with_reservation z (rc_policy rc) codec (drop off (body f)) len b = (r, b2)"
      by (cases "decode_with_reservation z (rc_policy rc) codec (drop off (body f)) len b")
    with Inr q Some a assms(2) have "b' = b \<or> (b' = b2 \<and> (\<exists>e. r = Inl e))"
      by (cases r) (auto simp: request_payload_split split: if_splits)
    then show ?thesis using dec decode_with_reservation_Inl [OF assms(1)] by blast
  qed
qed

lemma request_payload_Inr:
  assumes "budget_wf b" "request_payload z f n rc retain timing b = (Inr q, f', b')"
  obtains c off where
    "request_metadata f n retain = Inr (deadline q, trace_context q, c, metadata q, off)"
    and "f' = f\<lparr>body := []\<rparr>"
    and "c = None \<Longrightarrow> payload q = drop off (body f) \<and> decoded_permit q = None \<and> b' = b"
    and "\<And>codec len. c = Some (codec, len) \<Longrightarrow> codec = Zstd \<and> rc_codecs rc AND COMPRESSION_CODEC_ZSTD \<noteq> 0
        \<and> decode_with_reservation z (rc_policy rc) Zstd (drop off (body f)) len b
            = (Inr (payload q, decoded_permit q), b')"
proof (cases "request_metadata f n retain")
  case (Inl e)
  with assms(2) show ?thesis by (simp add: request_payload_split)
next
  case (Inr w)
  obtain d t c m off where w: "w = (d, t, c, m, off)" by (cases w)
  show ?thesis
  proof (cases c)
    case None
    then have "q = \<lparr>deadline = d, trace_context = t, metadata = m, payload = drop off (body f),
        decompression = None, decoded_permit = None\<rparr>" "f' = f\<lparr>body := []\<rparr>" "b' = b"
      using Inr w assms(2) by (simp_all add: request_payload_split)
    then show ?thesis using that [of None off] Inr w None by simp
  next
    case (Some a)
    obtain codec len where a: "a = (codec, len)" by (cases a)
    obtain r b2 where dec: "decode_with_reservation z (rc_policy rc) codec (drop off (body f)) len b = (r, b2)"
      by (cases "decode_with_reservation z (rc_policy rc) codec (drop off (body f)) len b")
    have neg: "codec = Zstd" "rc_codecs rc AND COMPRESSION_CODEC_ZSTD \<noteq> 0"
      using assms(2) Inr w Some a by (auto simp: request_payload_split split: if_splits)
    obtain out permit where r: "r = Inr (out, permit)"
      using assms(2) Inr w Some a neg dec
      by (cases r) (auto simp: request_payload_split)
    have "q = \<lparr>deadline = d, trace_context = t, metadata = m, payload = out,
        decompression = Some timing, decoded_permit = permit\<rparr>" "f' = f\<lparr>body := []\<rparr>" "b' = b2"
      using assms(2) Inr w Some a neg dec r by (simp_all add: request_payload_split)
    then show ?thesis using that [of c off] Inr w Some a neg dec r by simp
  qed
qed

lemma request_metadata_facts:
  assumes "request_metadata f n retain = Inr (d, t, c, m, off)"
  shows "d \<noteq> Some 0 \<and> (m \<noteq> None) = retain"
proof (cases "flags f AND FLAG_HAS_METADATA = 0")
  case True
  then show ?thesis using assms by (auto simp: request_metadata_plain split: if_splits)
next
  case False
  show ?thesis
  proof (rule request_metadata_Inr [OF assms False])
    fix block rest
    assume d: "parse_deadline (deadline_value (collect_reserved block)) = Inr d"
      and m: "retain \<Longrightarrow> \<exists>md. into_metadata block = Inr md \<and> m = Some md" "\<not> retain \<Longrightarrow> m = None"
    have "d \<noteq> Some 0" using d parse_deadline_positive by blast
    moreover have "(m \<noteq> None) = retain" using m by (cases retain) auto
    ultimately show ?thesis by simp
  qed
qed

section \<open>Lemmas on compressed frames\<close>

text \<open>The metadata a compressed response carries.\<close>

definition compression_metadata :: "u32 \<Rightarrow> Metadata" where
  "compression_metadata len =
     [(Reserved CompressionCodecKey, [1]), (Reserved OriginalLength, u32_to_be_bytes len)]"

lemma announce_codec_new:
  "announce_codec c metadata_new =
    Inr (if cp_codec c = Zstd then compression_metadata (original_len c) else metadata_new)"
  by (simp add: announce_codec_def insert_reserved_def metadata_insert_def bt_contains_def bt_get_def
      metadata_new_def compression_metadata_def del: rbind_eq_Inr)

lemma compression_metadata_wf: "metadata_wf (compression_metadata len)"
  by (simp add: metadata_wf_def bt_wf_def compression_metadata_def key_ok_def)

lemma compression_block_length: "length (block_bytes (compression_metadata len)) = 19"
  by (simp add: compression_metadata_def length_entry_bytes ENTRY_HEADER_LEN_def)

lemma collect_compression:
  assumes "metadata_validate input limits = Inr (block, rest)"
    and "into_metadata block = Inr (compression_metadata len)"
  shows "collect_reserved block = \<lparr>deadline_value = None, trace_value = None, codec_value = Some [1],
    original_value = Some (u32_to_be_bytes len)\<rparr>"
  using reserved_entries_validated [OF assms]
  by (simp add: collect_reserved_def note_reserved_def compression_metadata_def map_filter_simps)

lemma compress_plain_frame:
  assumes "flags f = 0" and "kind f \<in> {Response, Event, StreamItem}"
    and "kind (compress_outbound_frame z f codecs p n) \<noteq> Error"
    and "codecs AND COMPRESSION_CODEC_ZSTD \<noteq> 0"
  obtains c where "compression_encode z p (body f) Zstd = Inr c"
    and "cp_codec c = CodecNone \<Longrightarrow> compress_outbound_frame z f codecs p n = f"
    and "cp_codec c = Zstd \<Longrightarrow> 19 \<le> unat n \<and> compress_outbound_frame z f codecs p n =
      f\<lparr>flags := FLAG_HAS_METADATA,
        body := (u32_to_be_bytes (word_of_nat (length (block_bytes (compression_metadata (original_len c)))))
                 @ block_bytes (compression_metadata (original_len c))) @ cp_bytes c\<rparr>"
proof -
  have cond: "\<not> (codecs AND COMPRESSION_CODEC_ZSTD = 0 \<or> kind f \<notin> {Response, Event, StreamItem})"
    using assms(2,4) by simp
  note d = compress_outbound_frame_def [of z f codecs p n, unfolded if_not_P [OF cond]]
  have om: "outbound_metadata f n = Some (metadata_new, 0)"
    using assms(1) by (simp add: outbound_metadata_def)
  have "\<not> is_err (compression_encode z p (body f) Zstd)"
    using d om assms(3) by (auto simp: is_err_iff)
  then obtain c where c: "compression_encode z p (body f) Zstd = Inr c"
    by (cases "compression_encode z p (body f) Zstd") simp_all
  let ?m = "if cp_codec c = Zstd then compression_metadata (original_len c) else metadata_new"
  have g: "compress_outbound_frame z f codecs p n = pack_outbound f ?m (cp_bytes c) n"
    using d om c announce_codec_new [of c] by simp
  have none: "compress_outbound_frame z f codecs p n = f" if "cp_codec c = CodecNone"
    using g that compression_encode_Inr(5) [OF c] assms(1)
    by (simp add: pack_outbound_def metadata_is_empty_def metadata_new_def)
  have enc: "encode_prefix (compression_metadata (original_len c)) [] =
      ([] @ u32_to_be_bytes (word_of_nat (length (block_bytes (compression_metadata (original_len c)))))
        @ block_bytes (compression_metadata (original_len c)), Inr ())"
    by (rule encode_prefix_ok [OF compression_metadata_wf]) (simp add: compression_block_length u32_max_def)
  have zip: "19 \<le> unat n \<and> compress_outbound_frame z f codecs p n =
      f\<lparr>flags := FLAG_HAS_METADATA,
        body := (u32_to_be_bytes (word_of_nat (length (block_bytes (compression_metadata (original_len c)))))
                 @ block_bytes (compression_metadata (original_len c))) @ cp_bytes c\<rparr>"
    if "cp_codec c = Zstd"
  proof -
    have ne: "\<not> metadata_is_empty (compression_metadata (original_len c))"
      by (simp add: metadata_is_empty_def compression_metadata_def)
    have g': "compress_outbound_frame z f codecs p n =
        pack_outbound f (compression_metadata (original_len c)) (cp_bytes c) n" using g that by simp
    have fits: "\<not> 19 > unat n"
      using assms(3) g' ne enc by (auto simp: pack_outbound_def compression_block_length)
    then show ?thesis using g' ne enc assms(1) by (simp add: pack_outbound_def compression_block_length)
  qed
  show ?thesis using that [OF c none zip] .
qed

section \<open>Properties\<close>

text \<open>Compressed frames parse back: a response, event or stream item that the writer
  compressed, or decided to leave alone, is parsed by the inbound path of a peer with the same codec
  negotiated, limits at least the sender's and room in its budget, to exactly the original body, with no
  deadline and no trace context, and the budget is charged for the body only when it was compressed.\<close>

lemma compressed_frame_parses:
  assumes "zstd_laws z" and "flags f = 0" and "kind f \<in> {Response, Event, StreamItem}"
    and "kind (compress_outbound_frame z f codecs p n) \<noteq> Error"
    and "rc_codecs rc AND COMPRESSION_CODEC_ZSTD \<noteq> 0"
    and "unat (cp_max_decoded_body_len p) \<le> unat (cp_max_decoded_body_len (rc_policy rc))"
    and "unat (max_expansion_ratio p) \<le> unat (max_expansion_ratio (rc_policy rc))"
    and "budget_wf b" and "used b + length (body f) \<le> capacity b"
  shows "\<exists>q f' b'. request_payload z (compress_outbound_frame z f codecs p n) n rc retain timing b = (Inr q, f', b')
    \<and> payload q = body f \<and> deadline q = None \<and> trace_context q = None
    \<and> used b' = used b + (case decoded_permit q of None \<Rightarrow> 0 | Some r \<Rightarrow> r)
    \<and> decoded_permit q \<in> {None, Some (length (body f))}"
proof -
  let ?g = "compress_outbound_frame z f codecs p n"
  have plain: ?thesis if "?g = f"
    using that assms(2) by (simp add: request_payload_split request_metadata_plain)
  show ?thesis
  proof (cases "codecs AND COMPRESSION_CODEC_ZSTD = 0")
    case True
    then have "?g = f" by (simp add: compress_outbound_frame_def)
    then show ?thesis by (rule plain)
  next
    case False
    obtain c where c: "compression_encode z p (body f) Zstd = Inr c"
      "cp_codec c = CodecNone \<Longrightarrow> ?g = f"
      "cp_codec c = Zstd \<Longrightarrow> 19 \<le> unat n \<and> ?g = f\<lparr>flags := FLAG_HAS_METADATA,
        body := (u32_to_be_bytes (word_of_nat (length (block_bytes (compression_metadata (original_len c)))))
                 @ block_bytes (compression_metadata (original_len c))) @ cp_bytes c\<rparr>"
      using compress_plain_frame [OF assms(2,3,4) False] by blast
    show ?thesis
    proof (cases "cp_codec c")
      case CodecNone
      then show ?thesis using c(2) plain by blast
    next
      case Zstd
      let ?m = "compression_metadata (original_len c)"
      let ?pre = "u32_to_be_bytes (word_of_nat (length (block_bytes ?m))) @ block_bytes ?m"
      have n: "19 \<le> unat n" and g: "?g = f\<lparr>flags := FLAG_HAS_METADATA, body := ?pre @ cp_bytes c\<rparr>"
        using c(3) Zstd by simp_all
      have fit: "length (block_bytes ?m) \<le> unat (max_bytes (request_limits n))"
        "length ?m \<le> unat (max_entries (request_limits n))"
        "\<forall>(k, v) \<in> set ?m. length v \<le> unat (max_value_bytes (request_limits n))"
        using n by (simp_all add: request_limits_def metadata_limits_default_def compression_block_length)
          (simp_all add: compression_metadata_def)
      note v = validate_encoded(1) [OF compression_metadata_wf fit, of "cp_bytes c"]
      note i = validate_encoded(2) [OF compression_metadata_wf fit]
      have off: "length (?pre @ cp_bytes c) - length (cp_bytes c) = length ?pre" by simp
      have md: "request_metadata ?g n retain =
          Inr (None, None, Some (Zstd, original_len c), if retain then Some ?m else None, length ?pre)"
        using v i collect_compression [OF v i] off
        by (simp add: request_metadata_def g FLAG_HAS_METADATA_def parse_deadline_def parse_trace_def
            parse_compression_def codec_try_from_def del: rbind_eq_Inr)
      have dec: "fst (decode_with_reservation z (rc_policy rc) Zstd (cp_bytes c) (original_len c) b) =
          Inr (body f, Some (length (body f)))"
        using decode_of_encode [OF assms(1) c(1) assms(6-9)] Zstd by simp
      obtain b' where dec': "decode_with_reservation z (rc_policy rc) Zstd (cp_bytes c) (original_len c) b =
          (Inr (body f, Some (length (body f))), b')" using dec by (metis prod.collapse)
      have "used b' = used b + length (body f)"
        using decode_with_reservation_Inr(4) [OF assms(8) dec'] by simp
      moreover have "drop (length ?pre) (body ?g) = cp_bytes c" unfolding g by simp
      ultimately show ?thesis
        using md dec' assms(5) by (simp add: request_payload_split)
    qed
  qed
qed

text \<open>Claim C15. Parsing a request is safe: a rejected request leaves the shared budget as it was; an
  accepted one has a positive deadline or none, a payload no longer than the frame body or the decoded
  limit, metadata exactly when it was asked for, equal to what the codec decodes, and the budget is
  charged exactly what its permit will give back.\<close>

theorem request_payload_safe:
  assumes "budget_wf b" and "request_payload z f n rc retain timing b = (r, f', b')"
  shows "(\<forall>e. r = Inl e \<longrightarrow> b' = b)
    \<and> (\<forall>q. r = Inr q \<longrightarrow>
         deadline q \<noteq> Some 0
       \<and> length (payload q) \<le> max (length (body f)) (unat (cp_max_decoded_body_len (rc_policy rc)))
       \<and> (metadata q \<noteq> None) = retain
       \<and> (retain \<and> flags f AND FLAG_HAS_METADATA \<noteq> 0 \<longrightarrow>
            (\<exists>m rest. metadata q = Some m \<and> metadata_decode (body f) (request_limits n) = Inr (m, rest)))
       \<and> used b' = used b + (case decoded_permit q of None \<Rightarrow> 0 | Some k \<Rightarrow> k)
       \<and> used b' \<le> capacity b' \<and> f' = f\<lparr>body := []\<rparr>)"
proof (intro conjI allI impI)
  fix e assume "r = Inl e"
  then show "b' = b" using request_payload_Inl assms by blast
next
  fix q assume r: "r = Inr q"
  obtain c off where q: "request_metadata f n retain = Inr (deadline q, trace_context q, c, metadata q, off)"
      "f' = f\<lparr>body := []\<rparr>"
      "c = None \<Longrightarrow> payload q = drop off (body f) \<and> decoded_permit q = None \<and> b' = b"
      "\<And>codec len. c = Some (codec, len) \<Longrightarrow> codec = Zstd \<and> rc_codecs rc AND COMPRESSION_CODEC_ZSTD \<noteq> 0
        \<and> decode_with_reservation z (rc_policy rc) Zstd (drop off (body f)) len b
            = (Inr (payload q, decoded_permit q), b')"
    using assms(2) r by (auto elim: request_payload_Inr [OF assms(1)])
  show "f' = f\<lparr>body := []\<rparr>" by (rule q(2))
  have dec: "length (payload q) \<le> unat (cp_max_decoded_body_len (rc_policy rc))
      \<and> used b' = used b + (case decoded_permit q of None \<Rightarrow> 0 | Some k \<Rightarrow> k) \<and> used b' \<le> capacity b'"
    if "c = Some (codec, len)" for codec len
    using decode_with_reservation_Inr [OF assms(1)] q(4) [OF that]
    by (fastforce simp: budget_wf_def split: option.splits)
  show "length (payload q) \<le> max (length (body f)) (unat (cp_max_decoded_body_len (rc_policy rc)))"
    using dec q(3) by (cases c) auto
  show "used b' = used b + (case decoded_permit q of None \<Rightarrow> 0 | Some k \<Rightarrow> k)"
    using dec q(3) by (cases c) auto
  show "used b' \<le> capacity b'"
    using dec q(3) assms(1) by (cases c) (auto simp: budget_wf_def)
  show "deadline q \<noteq> Some 0" "(metadata q \<noteq> None) = retain"
    using request_metadata_facts [OF q(1)] by simp_all
  assume "retain \<and> flags f AND FLAG_HAS_METADATA \<noteq> 0"
  then show "\<exists>m rest. metadata q = Some m \<and> metadata_decode (body f) (request_limits n) = Inr (m, rest)"
    by (auto elim!: request_metadata_Inr [OF q(1)] simp: metadata_decode_def)
qed

text \<open>A policy without thresholds, for the witnesses.\<close>

definition eager_policy :: CompressionPolicy where
  "eager_policy = compression_policy_default\<lparr>min_payload_bytes := 0, min_savings_bytes := 0\<rparr>"

lemma compressed_frame_parses_sample:
  "\<exists>q f' b'. request_payload stored_codec
       (compress_outbound_frame stored_codec (frame_new Response 1 2 [1, 2, 3]) 3 eager_policy 64)
       64 \<lparr>rc_codecs = 3, rc_policy = eager_policy\<rparr> False (0, 0) \<lparr>capacity = 4, used = 0\<rparr> = (Inr q, f', b')
     \<and> payload q = [1, 2, 3] \<and> deadline q = None \<and> trace_context q = None
     \<and> used b' = (case decoded_permit q of None \<Rightarrow> 0 | Some r \<Rightarrow> r)
     \<and> decoded_permit q \<in> {None, Some 3}"
proof -
  let ?f = "frame_new Response 1 2 [1, 2, 3]"
  have enc: "compression_encode stored_codec eager_policy [1, 2, 3] Zstd =
      Inr \<lparr>cp_codec = Zstd, original_len = 3, cp_bytes = [1, 2, 3]\<rparr>"
    by (simp add: compression_encode_def policy_validate_def compression_policy_default_def
        eager_policy_def stored_codec_def u32_try_from_def u32_max_def usize_checked_add_def
        usize_max_def Let_def del: rbind_eq_Inr)
  have "encode_prefix (compression_metadata 3) [] =
      ([] @ u32_to_be_bytes (word_of_nat (length (block_bytes (compression_metadata 3))))
        @ block_bytes (compression_metadata 3), Inr ())"
    by (rule encode_prefix_ok [OF compression_metadata_wf]) (simp add: compression_block_length u32_max_def)
  then have "kind (compress_outbound_frame stored_codec ?f 3 eager_policy 64) = Response"
    using enc announce_codec_new [of "\<lparr>cp_codec = Zstd, original_len = 3, cp_bytes = [1, 2, 3]\<rparr>"]
    by (simp add: compress_outbound_frame_def outbound_metadata_def pack_outbound_def
        COMPRESSION_CODEC_ZSTD_def length_entry_bytes ENTRY_HEADER_LEN_def compression_metadata_def
        metadata_is_empty_def)
  then show ?thesis
    using compressed_frame_parses [OF stored_codec_laws, of ?f 3 eager_policy 64
        "\<lparr>rc_codecs = 3, rc_policy = eager_policy\<rparr>" "\<lparr>capacity = 4, used = 0\<rparr>" False "(0, 0)"]
    by (simp add: budget_wf_def usize_max_def COMPRESSION_CODEC_ZSTD_def numeral_3_eq_3)
qed

theorem request_payload_safe_witness:
  "\<exists>q f' b'. request_payload stored_codec (frame_new Request 1 2 [7]) 64
       \<lparr>rc_codecs = 3, rc_policy = eager_policy\<rparr> True (0, 0) \<lparr>capacity = 4, used = 0\<rparr> = (Inr q, f', b')
     \<and> metadata q \<noteq> None \<and> deadline q \<noteq> Some 0 \<and> b' = \<lparr>capacity = 4, used = 0\<rparr>"
proof -
  let ?b = "\<lparr>capacity = 4, used = 0\<rparr>"
  let ?q = "\<lparr>deadline = None, trace_context = None, metadata = Some metadata_new, payload = [7],
    decompression = None, decoded_permit = None\<rparr>"
  have r: "request_payload stored_codec (frame_new Request 1 2 [7]) 64
      \<lparr>rc_codecs = 3, rc_policy = eager_policy\<rparr> True (0, 0) ?b = (Inr ?q, (frame_new Request 1 2 [7])\<lparr>body := []\<rparr>, ?b)"
    by (simp add: request_payload_split request_metadata_plain)
  have "budget_wf ?b" by (simp add: budget_wf_def usize_max_def)
  from request_payload_safe [OF this r] r show ?thesis by auto
qed

end
