(* ===== verification/Dispatch.thy ===== *)
theory Dispatch
  imports Router Request_Frames
begin

text \<open>
  Dispatch of one request, crates/moonlight-bridge-server/src/lib.rs: \<open>dispatch_observed\<close> (unary) and
  \<open>dispatch_stream\<close> (server streaming), from the received frame to the frames handed to the response
  queue.

  Scheduling and time are parameters.  For a unary request they are a \<open>dispatch_env\<close>: the clock
  readings in the order the code takes them, how long the handler runs (\<open>None\<close>: it never completes)
  and the stages it records.  For a stream they are a script with one \<open>stream_round\<close> per iteration of
  the delivery loop; a script that ends leaves the task waiting, so every prefix of an execution, and
  every execution of an unbounded stream, is a script.  A panic of a task is a value of its own: no code
  after it runs.  The logged observation events, the decoded-byte budget and the value of the
  cancellation signal after the future is gone are part of the results.
\<close>

section \<open>Common prologue\<close>

record dispatch_env =
  env_now :: nat
  env_recorded :: nat
  env_timing :: "nat \<times> nat"
  env_ctx_now :: nat
  env_takes :: "nat option"
  env_stages :: "stage list"
  env_middleware :: "nat \<times> nat"
  env_deferred_now :: nat

definition open_observation :: "Router \<Rightarrow> Frame \<Rightarrow> ParsedRequest \<Rightarrow> nat \<Rightarrow> (nat \<times> bool) option" where
  "open_observation r frame q received_at =
     Option.bind (router_telemetry r) (\<lambda>t. t
       \<lparr>ri_method_id = method_id frame, ri_method_name = bt_get (method_names r) (method_id frame),
        ri_request_id = request_id frame, ri_request_bytes = length (payload q),
        ri_trace_context = trace_context q, ri_received_at = received_at\<rparr>)"

text \<open>A dispatch that can go on: the parsed request, the emptied frame, the observation and whether it
  wants timing, the stages logged so far and the budget.\<close>

record begun =
  bg_request :: ParsedRequest
  bg_frame :: Frame
  bg_observation :: "nat option"
  bg_detailed :: bool
  bg_log :: obs_log
  bg_budget :: BudgetInner

definition begin_dispatch ::
    "zstd \<Rightarrow> Router \<Rightarrow> Frame \<Rightarrow> u32 \<Rightarrow> RequestCompression \<Rightarrow> nat option \<Rightarrow> dispatch_env \<Rightarrow> BudgetInner
      \<Rightarrow> Frame \<times> BudgetInner + begun" where
  "begin_dispatch z r frame metadata_limit compression received env budget =
    (let (parsed, frame', b) =
           request_payload z frame metadata_limit compression (middleware r \<noteq> []) (env_timing env) budget in
     case parsed of
       Inl (code, message) \<Rightarrow> Inl (error_frame frame' code (str message), b)
     | Inr q \<Rightarrow>
         let received_at = (case received of Some t \<Rightarrow> t | None \<Rightarrow> env_now env);
             started = open_observation r frame' q received_at;
             detailed = (case started of Some (_, wants) \<Rightarrow> wants | None \<Rightarrow> False);
             log = (case started of
                      Some (ob, True) \<Rightarrow> record_dispatch_stages ob (env_recorded env) received_at (decompression q)
                    | _ \<Rightarrow> []) in
         Inr \<lparr>bg_request = q, bg_frame = frame', bg_observation = map_option fst started,
              bg_detailed = detailed, bg_log = log, bg_budget = b\<rparr>)"

text \<open>The middleware context, built only when the metadata was retained.\<close>

definition request_context ::
    "Router \<Rightarrow> Frame \<Rightarrow> ParsedRequest \<Rightarrow> PeerIdentity option \<Rightarrow> nat \<Rightarrow> RequestContext option" where
  "request_context r frame q peer now =
     map_option (\<lambda>m.
       \<lparr>ctx_method_id = method_id frame, ctx_request_id = request_id frame,
        ctx_deadline = map_option (\<lambda>d. now + d) (deadline q), ctx_metadata = m,
        ctx_required_scopes = (case bt_get (required_scopes r) (method_id frame) of Some s \<Rightarrow> s | None \<Rightarrow> []),
        ctx_peer_identity = peer\<rparr>) (metadata q)"

text \<open>The decoded permit goes out of scope with the dispatch future.\<close>

definition drop_decoded :: "BudgetInner \<Rightarrow> ParsedRequest \<Rightarrow> BudgetInner" where
  "drop_decoded b q = (case decoded_permit q of None \<Rightarrow> b | Some k \<Rightarrow> permit_drop b k)"

section \<open>Unary requests\<close>

datatype dispatch_exit = Replied Frame | TaskPanicked | NeverCompletes

record dispatch_result =
  dr_exit :: dispatch_exit
  dr_deferred :: "DeferredObservation option"
  dr_log :: obs_log
  dr_cancelled :: bool
  dr_events :: "chain_event list"
  dr_budget :: BudgetInner

definition invoke :: "Router \<Rightarrow> handler \<Rightarrow> RequestContext option \<Rightarrow> bytes
    \<Rightarrow> handler_result outcome \<times> chain_event list" where
  "invoke r handler ctx input =
    (case ctx of
       Some c \<Rightarrow> (let (result, events) = next_root_run (middleware r) handler c input in (Returned result, events))
     | None \<Rightarrow> (handler input, [InvokeHandler input]))"

text \<open>The stages the invocation leaves behind: the handler's own and the middleware stage.\<close>

definition invocation_stages :: "dispatch_env \<Rightarrow> bool \<Rightarrow> bool \<Rightarrow> bool \<Rightarrow> stage list" where
  "invocation_stages env collect has_context detailed =
    (if collect then
       let cell = fold push_stage (env_stages env) (Some []);
           cell' = (if has_context \<and> detailed
                    then push_stage (STAGE_MIDDLEWARE, fst (env_middleware env), snd (env_middleware env)) cell
                    else cell) in
       (case cell' of Some stages \<Rightarrow> stages | None \<Rightarrow> [])
     else [])"

definition last_stage_end :: "stage list \<Rightarrow> nat option" where
  "last_stage_end stages =
     fold (\<lambda>(name, started, duration) handler_done.
       Some (case handler_done of None \<Rightarrow> started + duration | Some t \<Rightarrow> max t (started + duration))) stages None"

text \<open>\<open>timeout\<close> polls the future before the timer, so a future that is ready in time wins.\<close>

definition completes :: "nat option \<Rightarrow> nat option \<Rightarrow> bool" where
  "completes limit takes =
    (case takes of None \<Rightarrow> False | Some t \<Rightarrow> (case limit of None \<Rightarrow> True | Some d \<Rightarrow> t \<le> d))"

text \<open>From the handler's result to the reply.\<close>

definition conclude ::
    "Frame \<Rightarrow> u32 \<Rightarrow> nat option \<Rightarrow> bool \<Rightarrow> stage list \<Rightarrow> nat \<Rightarrow> handler_result
      \<Rightarrow> Frame \<times> DeferredObservation option \<times> obs_log" where
  "conclude frame body_limit ob detailed stages now result =
    (let recorded = (case ob of Some n \<Rightarrow> map (\<lambda>s. (n, RecordStageAt s)) stages | None \<Rightarrow> []);
         handler_done = (case ob of Some n \<Rightarrow> last_stage_end stages | None \<Rightarrow> None) in
     case result of
       Inr out \<Rightarrow>
         if length out > unat body_limit then
           (error_frame frame ResourceExhausted (str ''response exceeds negotiated body limit''), None,
            recorded @ finish_observation ob (Failure ResourceExhausted))
         else
           let (deferred, log) = defer_or_finish ob detailed (Success (length out)) handler_done now in
           (frame_new Response (method_id frame) (request_id frame) out, deferred, recorded @ log)
     | Inl e \<Rightarrow>
         let (deferred, log) = defer_or_finish ob detailed (Failure (he_code e)) handler_done now in
         (error_frame frame (he_code e) (he_message e), deferred, recorded @ log))"

definition dispatch_observed ::
    "zstd \<Rightarrow> Router \<Rightarrow> Frame \<Rightarrow> u32 \<Rightarrow> u32 \<Rightarrow> RequestCompression \<Rightarrow> PeerIdentity option \<Rightarrow> nat option
      \<Rightarrow> dispatch_env \<Rightarrow> BudgetInner \<Rightarrow> dispatch_result" where
  "dispatch_observed z r frame body_limit metadata_limit compression peer received env budget =
    (case begin_dispatch z r frame metadata_limit compression received env budget of
       Inl (reply, b) \<Rightarrow>
         \<lparr>dr_exit = Replied reply, dr_deferred = None, dr_log = [], dr_cancelled = False, dr_events = [],
          dr_budget = b\<rparr>
     | Inr s \<Rightarrow>
       let q = bg_request s; frame' = bg_frame s; ob = bg_observation s; b' = drop_decoded (bg_budget s) q in
       (case bt_get (handlers r) (method_id frame') of
          None \<Rightarrow>
            \<lparr>dr_exit = Replied (error_frame frame' UnknownMethod (str ''method is not registered'')),
             dr_deferred = None, dr_log = bg_log s @ finish_observation ob (Failure UnknownMethod),
             dr_cancelled = False, dr_events = [], dr_budget = b'\<rparr>
        | Some handler \<Rightarrow>
          let ctx = request_context r frame' q peer (env_ctx_now env);
              guard = guard_new False;
              (result, events) = invoke r handler ctx (payload q);
              stages = invocation_stages env (ob \<noteq> None) (ctx \<noteq> None) (bg_detailed s) in
          if \<not> completes (deadline q) (env_takes env) then
            (case deadline q of
               None \<Rightarrow>
                 \<lparr>dr_exit = NeverCompletes, dr_deferred = None, dr_log = bg_log s, dr_cancelled = cg_signal guard,
                  dr_events = [], dr_budget = bg_budget s\<rparr>
             | Some _ \<Rightarrow>
                 \<lparr>dr_exit = Replied (error_frame frame' DeadlineExceeded (str ''request deadline exceeded'')),
                  dr_deferred = None, dr_log = bg_log s @ finish_observation ob (Failure DeadlineExceeded),
                  dr_cancelled = guard_drop guard, dr_events = [], dr_budget = b'\<rparr>)
          else
            (case result of
               Panicked \<Rightarrow>
                 \<lparr>dr_exit = TaskPanicked, dr_deferred = None, dr_log = bg_log s,
                  dr_cancelled = guard_drop guard, dr_events = events, dr_budget = b'\<rparr>
             | Returned res \<Rightarrow>
                 let (reply, deferred, log) =
                       conclude frame' body_limit ob (bg_detailed s) stages (env_deferred_now env) res in
                 \<lparr>dr_exit = Replied reply, dr_deferred = deferred, dr_log = bg_log s @ log,
                  dr_cancelled = guard_drop (guard_complete guard), dr_events = events, dr_budget = b'\<rparr>)))"

section \<open>Server streams\<close>

datatype wait = Ready | Elapsed | Waiting

datatype credit_wait = CreditGranted | CreditClosed | CreditTimedOut | CreditWaiting

text \<open>One iteration of the delivery loop: stages recorded by the stream, how the wait for the item and
  the wait for a credit ended, and whether the response queue accepted the item.\<close>

record stream_round =
  sr_stages :: "stage list"
  sr_next :: wait
  sr_credit :: credit_wait
  sr_sent :: bool

datatype stream_exit = StreamFinished | StreamAbandoned | StreamPanicked | StreamWaiting

text \<open>Frames in the order they are handed to the response queue, and the credits consumed.\<close>

record stream_out =
  so_frames :: "Frame list"
  so_credits :: nat
  so_log :: obs_log
  so_exit :: stream_exit

definition stream_stop :: "stream_exit \<Rightarrow> stream_out" where
  "stream_stop exit = \<lparr>so_frames = [], so_credits = 0, so_log = [], so_exit = exit\<rparr>"

definition stream_finish :: "nat option \<Rightarrow> stage_cell \<Rightarrow> RequestOutcome \<Rightarrow> Frame \<Rightarrow> stream_out" where
  "stream_finish ob cell oc frame =
     \<lparr>so_frames = [frame], so_credits = 0, so_log = fst (finish_with_stages ob oc cell), so_exit = StreamFinished\<rparr>"

definition stream_fail :: "Frame \<Rightarrow> nat option \<Rightarrow> stage_cell \<Rightarrow> ErrorCode \<Rightarrow> bytes \<Rightarrow> stream_out" where
  "stream_fail frame ob cell code message = stream_finish ob cell (Failure code) (error_frame frame code message)"

definition stream_expired :: "Frame \<Rightarrow> nat option \<Rightarrow> stage_cell \<Rightarrow> stream_out" where
  "stream_expired frame ob cell = stream_fail frame ob cell DeadlineExceeded (str ''request deadline exceeded'')"

definition stream_item :: "Frame \<Rightarrow> bytes \<Rightarrow> Frame" where
  "stream_item frame item = frame_new StreamItem (method_id frame) (request_id frame) item"

definition stream_end :: "Frame \<Rightarrow> Frame" where
  "stream_end frame = frame_new StreamEnd (method_id frame) (request_id frame) []"

text \<open>The loop at its n-th poll with \<open>total_bytes\<close> delivered; \<open>expires\<close> says whether the request has a
  deadline: without one no wait can time out.\<close>

fun stream_loop ::
    "Frame \<Rightarrow> u32 \<Rightarrow> bool \<Rightarrow> nat option \<Rightarrow> raw_stream \<Rightarrow> nat \<Rightarrow> nat \<Rightarrow> stage_cell \<Rightarrow> stream_round list
      \<Rightarrow> stream_out" where
  "stream_loop frame body_limit expires ob stream n total_bytes cell [] = stream_stop StreamWaiting"
| "stream_loop frame body_limit expires ob stream n total_bytes cell (rd # rds) =
    (let cell' = fold push_stage (sr_stages rd) cell in
     case sr_next rd of
       Waiting \<Rightarrow> stream_stop StreamWaiting
     | Elapsed \<Rightarrow> if expires then stream_expired frame ob cell' else stream_stop StreamWaiting
     | Ready \<Rightarrow>
       (case stream n of
          None \<Rightarrow> stream_finish ob cell' (Success total_bytes) (stream_end frame)
        | Some Panicked \<Rightarrow> stream_stop StreamPanicked
        | Some (Returned (Inl e)) \<Rightarrow> stream_fail frame ob cell' (he_code e) (he_message e)
        | Some (Returned (Inr item)) \<Rightarrow>
          if length item \<le> unat body_limit then
            (case sr_credit rd of
               CreditWaiting \<Rightarrow> stream_stop StreamWaiting
             | CreditClosed \<Rightarrow> stream_stop StreamAbandoned
             | CreditTimedOut \<Rightarrow> if expires then stream_expired frame ob cell' else stream_stop StreamWaiting
             | CreditGranted \<Rightarrow>
                 let rest = (if sr_sent rd
                    then stream_loop frame body_limit expires ob stream (n + 1) (total_bytes + length item) cell' rds
                    else stream_stop StreamAbandoned) in
                 rest\<lparr>so_frames := stream_item frame item # so_frames rest, so_credits := so_credits rest + 1\<rparr>)
          else stream_fail frame ob cell' ResourceExhausted (str ''stream item exceeds negotiated body limit'')))"

record stream_env =
  se_base :: dispatch_env
  se_middleware :: wait
  se_open :: wait
  se_open_stages :: "stage list"
  se_rounds :: "stream_round list"

record stream_result =
  sd_out :: stream_out
  sd_cancelled :: bool
  sd_events :: "chain_event list"
  sd_budget :: BudgetInner

text \<open>The \<open>delivery\<close> future: open the stream, then loop.\<close>

definition stream_delivery ::
    "stream_handler \<Rightarrow> bytes \<Rightarrow> Frame \<Rightarrow> u32 \<Rightarrow> bool \<Rightarrow> nat option \<Rightarrow> stream_env \<Rightarrow> stream_out" where
  "stream_delivery handler input frame body_limit expires ob env =
    (let cell = fold push_stage (se_open_stages env) (if ob \<noteq> None then Some [] else None) in
     case se_open env of
       Waiting \<Rightarrow> stream_stop StreamWaiting
     | Elapsed \<Rightarrow> if expires then stream_expired frame ob cell else stream_stop StreamWaiting
     | Ready \<Rightarrow>
       (case handler input of
          Panicked \<Rightarrow> stream_stop StreamPanicked
        | Returned (Inl e) \<Rightarrow> stream_fail frame ob cell (he_code e) (he_message e)
        | Returned (Inr stream) \<Rightarrow> stream_loop frame body_limit expires ob stream 0 0 cell (se_rounds env)))"

text \<open>The signal once the guard of the delivery is gone: completed unless the task panicked.\<close>

definition stream_signal :: "stream_exit \<Rightarrow> bool" where
  "stream_signal exit =
    (case exit of
       StreamWaiting \<Rightarrow> cg_signal (guard_new False)
     | StreamPanicked \<Rightarrow> guard_drop (guard_new False)
     | _ \<Rightarrow> guard_drop (guard_complete (guard_new False)))"

definition reply_only :: "Frame \<Rightarrow> obs_log \<Rightarrow> BudgetInner \<Rightarrow> chain_event list \<Rightarrow> stream_result" where
  "reply_only reply log b events =
     \<lparr>sd_out = \<lparr>so_frames = [reply], so_credits = 0, so_log = log, so_exit = StreamFinished\<rparr>,
      sd_cancelled = False, sd_events = events, sd_budget = b\<rparr>"

definition stream_run_handler ::
    "stream_handler \<Rightarrow> bytes \<Rightarrow> begun \<Rightarrow> u32 \<Rightarrow> obs_log \<Rightarrow> stream_env \<Rightarrow> chain_event list \<Rightarrow> stream_result" where
  "stream_run_handler handler input s body_limit log env events =
    (let out = stream_delivery handler input (bg_frame s) body_limit (deadline (bg_request s) \<noteq> None)
                 (bg_observation s) env in
     \<lparr>sd_out = out\<lparr>so_log := log @ so_log out\<rparr>, sd_cancelled = stream_signal (so_exit out),
      sd_events = events,
      sd_budget = (if so_exit out = StreamWaiting then bg_budget s else drop_decoded (bg_budget s) (bg_request s))\<rparr>)"

definition dispatch_stream ::
    "zstd \<Rightarrow> Router \<Rightarrow> Frame \<Rightarrow> u32 \<Rightarrow> u32 \<Rightarrow> RequestCompression \<Rightarrow> PeerIdentity option \<Rightarrow> nat option
      \<Rightarrow> stream_env \<Rightarrow> BudgetInner \<Rightarrow> stream_result" where
  "dispatch_stream z r frame body_limit metadata_limit compression peer received env budget =
    (case begin_dispatch z r frame metadata_limit compression received (se_base env) budget of
       Inl (reply, b) \<Rightarrow> reply_only reply [] b []
     | Inr s \<Rightarrow>
       let q = bg_request s; frame' = bg_frame s; ob = bg_observation s; b' = drop_decoded (bg_budget s) q in
       (case bt_get (stream_handlers r) (method_id frame') of
          None \<Rightarrow>
            reply_only (error_frame frame' UnknownMethod (str ''method is not registered''))
              (bg_log s @ finish_observation ob (Failure UnknownMethod)) b' []
        | Some handler \<Rightarrow>
          (case request_context r frame' q peer (env_ctx_now (se_base env)) of
             None \<Rightarrow> stream_run_handler handler (payload q) s body_limit (bg_log s) env []
           | Some ctx \<Rightarrow>
             if se_middleware env \<noteq> Ready then
               \<lparr>sd_out = (stream_stop StreamWaiting)\<lparr>so_log := bg_log s\<rparr>, sd_cancelled = False,
                sd_events = [], sd_budget = bg_budget s\<rparr>
             else
               let (result, events) = next_root_run (middleware r) (\<lambda>input. Returned (Inr input)) ctx (payload q);
                   (started, elapsed) = env_middleware (se_base env);
                   log = bg_log s @ (case ob of
                           Some n \<Rightarrow> if bg_detailed s then [(n, RecordStageAt (STAGE_MIDDLEWARE, started, elapsed))] else []
                         | None \<Rightarrow> []) in
               (case result of
                  Inl e \<Rightarrow>
                    reply_only (error_frame frame' (he_code e) (he_message e))
                      (log @ finish_observation ob (Failure (he_code e))) b' events
                | Inr input \<Rightarrow> stream_run_handler handler input s body_limit log env events))))"

section \<open>Lemmas\<close>

lemma request_payload_ids:
  assumes "request_payload z f n rc retain timing b = (p, f', b')"
  shows "method_id f' = method_id f \<and> request_id f' = request_id f"
proof (cases "request_metadata f n retain")
  case (Inl e)
  with assms show ?thesis by (simp add: request_payload_split)
next
  case (Inr q)
  obtain d t c m off where q: "q = (d, t, c, m, off)" by (cases q)
  with Inr assms show ?thesis
    by (cases c) (auto simp: request_payload_split split: if_splits prod.splits sum.splits)
qed

lemma request_payload_budget:
  assumes "budget_wf b" "request_payload z f n rc retain timing b = (Inr q, f', b')"
  shows "drop_decoded b' q = b"
proof (rule request_payload_Inr [OF assms])
  fix c off
  assume plain: "c = None \<Longrightarrow> payload q = drop off (body f) \<and> decoded_permit q = None \<and> b' = b"
    and packed: "\<And>codec len. c = Some (codec, len) \<Longrightarrow> codec = Zstd
        \<and> rc_codecs rc AND COMPRESSION_CODEC_ZSTD \<noteq> 0
        \<and> decode_with_reservation z (rc_policy rc) Zstd (drop off (body f)) len b
            = (Inr (payload q, decoded_permit q), b')"
  show ?thesis
  proof (cases c)
    case None
    then show ?thesis using plain by (simp add: drop_decoded_def)
  next
    case (Some a)
    obtain codec len where "a = (codec, len)" by (cases a)
    then have "decode_with_reservation z (rc_policy rc) Zstd (drop off (body f)) len b
            = (Inr (payload q, decoded_permit q), b')" using packed Some by blast
    from decode_with_reservation_Inr [OF assms(1) this] assms(1) show ?thesis
      by (cases "decoded_permit q") (auto simp: drop_decoded_def permit_drop_used budget_wf_def)
  qed
qed

lemma begin_dispatch_Inl:
  assumes "budget_wf budget" "begin_dispatch z r f n rc received env budget = Inl (reply, b)"
  shows "b = budget" "\<exists>c m. reply = error_frame f c m"
proof -
  obtain p f' b' where p: "request_payload z f n rc (middleware r \<noteq> []) (env_timing env) budget = (p, f', b')"
    by (cases "request_payload z f n rc (middleware r \<noteq> []) (env_timing env) budget")
  with assms(2) obtain c m where c: "p = Inl (c, m)" "reply = error_frame f' c (str m)" "b = b'"
    by (auto simp: begin_dispatch_def Let_def split: sum.splits)
  show "b = budget" using request_payload_Inl [OF assms(1)] p c by blast
  have "reply = error_frame f c (str m)"
    using request_payload_ids [OF p] c by (simp add: error_frame_def)
  then show "\<exists>c m. reply = error_frame f c m" by blast
qed

lemma finishes_record_dispatch [simp]: "finishes ob (record_dispatch_stages n now t d) = []"
  by (auto simp: record_dispatch_stages_def split: option.splits)

lemma begin_dispatch_Inr:
  assumes "budget_wf budget" "begin_dispatch z r f n rc received env budget = Inr s"
  shows "method_id (bg_frame s) = method_id f" "request_id (bg_frame s) = request_id f"
    and "drop_decoded (bg_budget s) (bg_request s) = budget"
    and "metadata (bg_request s) \<noteq> None \<longleftrightarrow> middleware r \<noteq> []"
    and "finishes ob (bg_log s) = []"
    and "bg_observation s = None \<Longrightarrow> \<not> bg_detailed s"
proof -
  obtain p f' b' where p: "request_payload z f n rc (middleware r \<noteq> []) (env_timing env) budget = (p, f', b')"
    by (cases "request_payload z f n rc (middleware r \<noteq> []) (env_timing env) budget")
  with assms(2) obtain q where q: "p = Inr q"
    by (cases p) (auto simp: begin_dispatch_def)
  with assms(2) p have s: "bg_request s = q" "bg_frame s = f'" "bg_budget s = b'"
    by (auto simp: begin_dispatch_def Let_def)
  show "method_id (bg_frame s) = method_id f" "request_id (bg_frame s) = request_id f"
    using request_payload_ids [OF p] s by simp_all
  show "drop_decoded (bg_budget s) (bg_request s) = budget"
    using request_payload_budget [OF assms(1)] p q s by simp
  show "metadata (bg_request s) \<noteq> None \<longleftrightarrow> middleware r \<noteq> []"
    using p q s by (auto elim!: request_payload_Inr [OF assms(1)] dest!: request_metadata_facts)
  show "finishes ob (bg_log s) = []" "bg_observation s = None \<Longrightarrow> \<not> bg_detailed s"
    using assms(2) p q by (auto simp: begin_dispatch_def Let_def split: option.splits bool.splits)
qed

text \<open>What a unary reply says: the request's ids, and a success within the limit or an error, with the
  outcome telemetry must report.\<close>

definition replies :: "Frame \<Rightarrow> u32 \<Rightarrow> Frame \<Rightarrow> RequestOutcome \<Rightarrow> bool" where
  "replies request body_limit reply oc =
    (method_id reply = method_id request \<and> request_id reply = request_id request
     \<and> (case oc of
          Success n \<Rightarrow> kind reply = Response \<and> n = length (body reply) \<and> n \<le> unat body_limit
        | Failure c \<Rightarrow> kind reply = Error \<and> (\<exists>m. body reply = error_code_encode c m)))"

text \<open>The log once the deferred observation, if any, is gone.\<close>

definition final_log :: "dispatch_result \<Rightarrow> obs_log" where
  "final_log d = dr_log d @ (case dr_deferred d of None \<Rightarrow> [] | Some x \<Rightarrow> deferred_drop x)"

lemma replies_error_frame [simp]:
  "method_id f' = method_id f \<Longrightarrow> request_id f' = request_id f \<Longrightarrow>
   replies f body_limit (error_frame f' c m) (Failure c)"
  by (auto simp: replies_def error_frame_def)

lemma defer_or_finish_finishes:
  assumes "ob = None \<Longrightarrow> \<not> detailed" "defer_or_finish ob detailed oc t now = (deferred, log)"
  shows "finishes n (log @ (case deferred of None \<Rightarrow> [] | Some x \<Rightarrow> deferred_drop x))
    = (if ob = Some n then [oc] else [])"
  using assms by (cases ob) (auto simp: defer_or_finish_def deferred_drop_def split: if_splits)

lemma conclude_replies:
  assumes "conclude f body_limit ob detailed stages now res = (reply, deferred, log)"
    and "ob = None \<Longrightarrow> \<not> detailed"
  shows "\<exists>oc. replies f body_limit reply oc
    \<and> (\<forall>n. finishes n (log @ (case deferred of None \<Rightarrow> [] | Some x \<Rightarrow> deferred_drop x))
          = (if ob = Some n then [oc] else []))"
proof -
  let ?drop = "\<lambda>deferred. case deferred of None \<Rightarrow> [] | Some x \<Rightarrow> deferred_drop x"
  let ?rec = "case ob of Some n \<Rightarrow> map (\<lambda>s. (n, RecordStageAt s)) stages | None \<Rightarrow> []"
  have rec: "finishes n ?rec = []" for n by (cases ob) simp_all
  let ?done = "case ob of Some n \<Rightarrow> last_stage_end stages | None \<Rightarrow> None"
  obtain def log' where d: "defer_or_finish ob detailed
      (case res of Inr out \<Rightarrow> Success (length out) | Inl e \<Rightarrow> Failure (he_code e)) ?done now = (def, log')"
    by fastforce
  note fin = defer_or_finish_finishes [OF assms(2) d, simplified]
  show ?thesis
  proof (cases res)
    case (Inl e)
    then have "reply = error_frame f (he_code e) (he_message e)" "deferred = def" "log = ?rec @ log'"
      using assms(1) d by (auto simp: conclude_def Let_def)
    then show ?thesis using fin Inl
      by (intro exI [of _ "Failure (he_code e)"]) (simp add: rec)
  next
    case (Inr out)
    show ?thesis
    proof (cases "length out > unat body_limit")
      case True
      then show ?thesis using assms(1) Inr
        by (intro exI [of _ "Failure ResourceExhausted"]) (auto simp: conclude_def Let_def rec)
    next
      case False
      then have "reply = frame_new Response (method_id f) (request_id f) out" "deferred = def" "log = ?rec @ log'"
        using assms(1) d Inr by (auto simp: conclude_def Let_def)
      then show ?thesis using fin Inr False
        by (intro exI [of _ "Success (length out)"]) (simp add: rec replies_def)
    qed
  qed
qed

text \<open>The branches of a dispatch that passed the prologue and found its handler.\<close>

lemma dispatch_observed_handled:
  assumes "begin_dispatch z r f mlimit rc received env budget = Inr s"
    and "bt_get (handlers r) (method_id (bg_frame s)) = Some h"
    and "invoke r h (request_context r (bg_frame s) (bg_request s) peer (env_ctx_now env))
           (payload (bg_request s)) = (result, events)"
    and "d = dispatch_observed z r f body_limit mlimit rc peer received env budget"
  shows "completes (deadline (bg_request s)) (env_takes env) \<Longrightarrow> result = Returned res \<Longrightarrow>
      \<exists>stages reply deferred log.
        conclude (bg_frame s) body_limit (bg_observation s) (bg_detailed s) stages (env_deferred_now env) res
          = (reply, deferred, log)
      \<and> d = \<lparr>dr_exit = Replied reply, dr_deferred = deferred, dr_log = bg_log s @ log, dr_cancelled = False,
             dr_events = events, dr_budget = drop_decoded (bg_budget s) (bg_request s)\<rparr>"
    and "completes (deadline (bg_request s)) (env_takes env) \<Longrightarrow> result = Panicked \<Longrightarrow>
      dr_exit d = TaskPanicked \<and> dr_events d = events"
    and "\<not> completes (deadline (bg_request s)) (env_takes env) \<Longrightarrow> deadline (bg_request s) = Some dl \<Longrightarrow>
      d = \<lparr>dr_exit = Replied (error_frame (bg_frame s) DeadlineExceeded (str ''request deadline exceeded'')),
           dr_deferred = None, dr_log = bg_log s @ finish_observation (bg_observation s) (Failure DeadlineExceeded),
           dr_cancelled = True, dr_events = [], dr_budget = drop_decoded (bg_budget s) (bg_request s)\<rparr>"
    and "\<not> completes (deadline (bg_request s)) (env_takes env) \<Longrightarrow> deadline (bg_request s) = None \<Longrightarrow>
      dr_exit d = NeverCompletes \<and> dr_events d = []"
  using assms
  by (auto simp: dispatch_observed_def Let_def guard_new_def guard_drop_def guard_complete_def
      split: prod.splits)

lemma dispatch_observed_begun:
  assumes "budget_wf budget" "begin_dispatch z r f mlimit rc received env budget = Inr s"
    and "d = dispatch_observed z r f body_limit mlimit rc peer received env budget"
    and "dr_exit d = Replied reply"
  shows "\<exists>oc. replies f body_limit reply oc \<and> dr_budget d = budget
    \<and> (\<forall>n. finishes n (final_log d) = (if bg_observation s = Some n then [oc] else []))"
proof (cases "bt_get (handlers r) (method_id (bg_frame s))")
  note s = begin_dispatch_Inr [OF assms(1,2)]
  case None
  then show ?thesis using assms(2-4) s
    by (intro exI [of _ "Failure UnknownMethod"])
      (auto simp: dispatch_observed_def Let_def final_log_def)
next
  note s = begin_dispatch_Inr [OF assms(1,2)]
  case (Some h)
  obtain result events where i: "invoke r h (request_context r (bg_frame s) (bg_request s) peer (env_ctx_now env))
      (payload (bg_request s)) = (result, events)" by fastforce
  note cases = dispatch_observed_handled [OF assms(2) Some i assms(3)]
  show ?thesis
  proof (cases "completes (deadline (bg_request s)) (env_takes env)")
    case True
    obtain res where "result = Returned res"
      using cases(2) [OF True] assms(4) by (cases result) auto
    from cases(1) [OF True this] obtain stages reply' deferred log where
      c: "conclude (bg_frame s) body_limit (bg_observation s) (bg_detailed s) stages (env_deferred_now env) res
          = (reply', deferred, log)"
      and d: "d = \<lparr>dr_exit = Replied reply', dr_deferred = deferred, dr_log = bg_log s @ log,
        dr_cancelled = False, dr_events = events, dr_budget = drop_decoded (bg_budget s) (bg_request s)\<rparr>"
      by blast
    from conclude_replies [OF c s(6)] obtain oc where oc: "replies (bg_frame s) body_limit reply' oc"
      "\<forall>n. finishes n (log @ (case deferred of None \<Rightarrow> [] | Some x \<Rightarrow> deferred_drop x))
          = (if bg_observation s = Some n then [oc] else [])" by blast
    then show ?thesis using d s assms(4)
      by (intro exI [of _ oc]) (auto simp: final_log_def replies_def split: RequestOutcome.splits)
  next
    case False
    obtain dl where "deadline (bg_request s) = Some dl"
      using cases(4) [OF False] assms(4) by (cases "deadline (bg_request s)") auto
    from cases(3) [OF False this] show ?thesis using s assms(4)
      by (intro exI [of _ "Failure DeadlineExceeded"]) (auto simp: final_log_def)
  qed
qed

lemma invoke_panics:
  "fst (invoke r h ctx input) = Panicked \<longleftrightarrow> ctx = None \<and> h input = Panicked"
  by (auto simp: invoke_def split: option.splits prod.splits)

subsection \<open>Streams\<close>

text \<open>What the delivery of a stream may hand to the queue: items of the request within the limit, then at
  most one terminal frame, present exactly when the delivery finished; and how the observation ends.\<close>

definition stream_ends :: "Frame \<Rightarrow> nat option \<Rightarrow> nat \<Rightarrow> stream_exit \<Rightarrow> obs_log \<Rightarrow> Frame list \<Rightarrow> bool" where
  "stream_ends request ob sent_bytes exit log terminal =
    (if exit = StreamFinished
     then \<exists>frame oc. terminal = [frame] \<and> (\<forall>n. finishes n log = (if ob = Some n then [oc] else []))
       \<and> (oc = Success sent_bytes \<and> frame = stream_end request
          \<or> (\<exists>c m. oc = Failure c \<and> frame = error_frame request c m))
     else terminal = [] \<and> (\<forall>n. finishes n log = []))"

definition stream_shape :: "Frame \<Rightarrow> u32 \<Rightarrow> nat option \<Rightarrow> nat \<Rightarrow> stream_out \<Rightarrow> bool" where
  "stream_shape request body_limit ob sent_bytes out =
    (\<exists>items terminal.
       so_frames out = map (stream_item request) items @ terminal
     \<and> so_credits out = length items
     \<and> (\<forall>item \<in> set items. length item \<le> unat body_limit)
     \<and> stream_ends request ob (sent_bytes + sum_list (map length items)) (so_exit out) (so_log out) terminal)"

lemma finish_with_stages_finishes [simp]:
  "finishes n (fst (finish_with_stages ob oc cell)) = (if ob = Some n then [oc] else [])"
  by (auto simp: finish_with_stages_def drain_stages_def split: option.splits)

lemma stream_shape_stop: "exit \<noteq> StreamFinished \<Longrightarrow> stream_shape f body_limit ob n (stream_stop exit)"
  by (simp add: stream_shape_def stream_ends_def stream_stop_def)

lemma stream_shape_fail: "stream_shape f body_limit ob n (stream_fail f ob cell c m)"
  unfolding stream_shape_def stream_ends_def stream_fail_def stream_finish_def
  by (rule exI [of _ "[]"], rule exI [of _ "[error_frame f c m]"]) auto

lemma stream_shape_end:
  "stream_shape f body_limit ob n (stream_finish ob cell (Success n) (stream_end f))"
  unfolding stream_shape_def stream_ends_def stream_finish_def
  by (rule exI [of _ "[]"], rule exI [of _ "[stream_end f]"]) auto

lemma stream_shape_item:
  assumes "length item \<le> unat body_limit" "stream_shape f body_limit ob (n + length item) out"
  shows "stream_shape f body_limit ob n
    (out\<lparr>so_frames := stream_item f item # so_frames out, so_credits := so_credits out + 1\<rparr>)"
proof -
  from assms(2) obtain items terminal where
    "so_frames out = map (stream_item f) items @ terminal" "so_credits out = length items"
    "\<forall>item \<in> set items. length item \<le> unat body_limit"
    "stream_ends f ob (n + length item + sum_list (map length items)) (so_exit out) (so_log out) terminal"
    unfolding stream_shape_def by blast
  with assms(1) show ?thesis unfolding stream_shape_def
    by (intro exI [of _ "item # items"] exI [of _ terminal]) (simp add: add.assoc)
qed

lemmas stream_shapes = stream_shape_stop stream_shape_fail stream_shape_end

lemma stream_loop_shape:
  "stream_shape f body_limit ob total_bytes
     (stream_loop f body_limit expires ob stream n total_bytes cell rds)"
proof (induction rds arbitrary: expires n total_bytes cell)
  case Nil
  show ?case by (simp add: stream_shapes)
next
  case (Cons rd rds)
  show ?case
    by (auto simp: Let_def stream_shapes stream_expired_def Cons.IH
        simp del: One_nat_def intro!: stream_shape_item
        split: wait.splits option.splits outcome.splits sum.splits credit_wait.splits)
qed

lemma stream_delivery_shape:
  "stream_shape f body_limit ob 0 (stream_delivery h input f body_limit expires ob env)"
  by (auto simp: stream_delivery_def Let_def stream_shapes stream_expired_def stream_loop_shape
      split: wait.splits outcome.splits sum.splits)

lemma stream_shape_ids:
  assumes "method_id f' = method_id f" "request_id f' = request_id f"
  shows "stream_shape f' = stream_shape f"
proof -
  have "stream_item f' = stream_item f" "stream_end f' = stream_end f" "error_frame f' = error_frame f"
    using assms by (simp_all add: fun_eq_iff stream_item_def stream_end_def error_frame_def)
  then show ?thesis by (intro ext) (simp only: stream_shape_def stream_ends_def)
qed

lemma stream_shape_reply:
  assumes "\<And>n. finishes n log = (if ob = Some n then [Failure c] else [])"
  shows "stream_shape f body_limit ob 0 (sd_out (reply_only (error_frame f c m) log b events))"
  unfolding stream_shape_def stream_ends_def reply_only_def
  by (rule exI [of _ "[]"], rule exI [of _ "[error_frame f c m]"]) (use assms in auto)

lemma stream_shape_log:
  assumes "stream_shape f body_limit ob k out" "\<And>n. finishes n log = []"
  shows "stream_shape f body_limit ob k (out\<lparr>so_log := log @ so_log out\<rparr>)"
proof -
  have "stream_ends f ob t exit (log @ l) = stream_ends f ob t exit l" for t exit l
    by (simp add: fun_eq_iff stream_ends_def assms(2))
  then show ?thesis using assms(1) by (simp add: stream_shape_def)
qed

lemma stream_run_handler_sound:
  assumes "\<And>n. finishes n log = []"
    and "d = stream_run_handler h input s body_limit log env events"
  shows "stream_shape (bg_frame s) body_limit (bg_observation s) 0 (sd_out d)"
    and "so_exit (sd_out d) \<noteq> StreamWaiting \<Longrightarrow> sd_budget d = drop_decoded (bg_budget s) (bg_request s)"
    and "sd_cancelled d \<longleftrightarrow> so_exit (sd_out d) = StreamPanicked"
  using assms
  by (auto simp: stream_run_handler_def Let_def stream_shape_log stream_delivery_shape
      stream_signal_def guard_drop_def guard_new_def guard_complete_def split: stream_exit.splits)

definition observation_of :: "Frame \<times> BudgetInner + begun \<Rightarrow> nat option" where
  "observation_of p = (case p of Inl _ \<Rightarrow> None | Inr s \<Rightarrow> bg_observation s)"

lemma dispatch_stream_begun:
  assumes "begin_dispatch z r f mlimit rc received (se_base env) budget = Inr s"
    and "bt_get (stream_handlers r) (method_id (bg_frame s)) = Some h"
    and "d = dispatch_stream z r f body_limit mlimit rc peer received env budget"
    and "\<And>n. finishes n (bg_log s) = []"
  obtains (Middleware_waits) "d = \<lparr>sd_out = (stream_stop StreamWaiting)\<lparr>so_log := bg_log s\<rparr>,
      sd_cancelled = False, sd_events = [], sd_budget = bg_budget s\<rparr>"
  | (Refused) log events and e :: HandlerError where "\<And>n. finishes n log = (if bg_observation s = Some n then [Failure (he_code e)] else [])"
      "d = reply_only (error_frame (bg_frame s) (he_code e) (he_message e)) log
         (drop_decoded (bg_budget s) (bg_request s)) events"
  | (Delivered) input log events where "\<And>n. finishes n log = []"
      "d = stream_run_handler h input s body_limit log env events"
proof (cases "request_context r (bg_frame s) (bg_request s) peer (env_ctx_now (se_base env))")
  case None
  then show ?thesis using assms Delivered [OF assms(4)] by (simp add: dispatch_stream_def Let_def)
next
  case (Some ctx)
  obtain started elapsed where m: "env_middleware (se_base env) = (started, elapsed)" by fastforce
  define log where "log = bg_log s @ (case bg_observation s of
       Some n \<Rightarrow> if bg_detailed s then [(n, RecordStageAt (STAGE_MIDDLEWARE, started, elapsed))] else []
     | None \<Rightarrow> [])"
  have log: "finishes n log = []" for n using assms(4) by (auto simp: log_def split: option.splits)
  obtain result events where run: "next_root_run (middleware r) (\<lambda>input. Returned (Inr input)) ctx
      (payload (bg_request s)) = (result, events)" by fastforce
  show ?thesis
  proof (cases "se_middleware env = Ready")
    case False
    then show ?thesis using assms Some Middleware_waits by (simp add: dispatch_stream_def Let_def)
  next
    case True
    then show ?thesis
    proof (cases result)
      case (Inl e)
      then show ?thesis using assms(1-3) Some True m run log
        by (intro Refused [of "log @ finish_observation (bg_observation s) (Failure (he_code e))" e events])
          (simp_all add: dispatch_stream_def Let_def log_def)
    next
      case (Inr input)
      then show ?thesis using assms(1-3) Some True m run log
        by (intro Delivered [of log input events]) (simp_all add: dispatch_stream_def Let_def log_def)
    qed
  qed
qed

lemma dispatch_stream_sound:
  assumes "budget_wf budget"
    and "d = dispatch_stream z r f body_limit mlimit rc peer received env budget"
  shows "stream_shape f body_limit
           (observation_of (begin_dispatch z r f mlimit rc received (se_base env) budget)) 0 (sd_out d)
    \<and> (so_exit (sd_out d) \<noteq> StreamWaiting \<longrightarrow> sd_budget d = budget)
    \<and> (sd_cancelled d \<longleftrightarrow> so_exit (sd_out d) = StreamPanicked)"
proof (cases "begin_dispatch z r f mlimit rc received (se_base env) budget")
  case (Inl p)
  obtain reply b where p: "p = (reply, b)" by (cases p)
  with begin_dispatch_Inl [OF assms(1) Inl [unfolded p]] obtain c m where "b = budget" "reply = error_frame f c m"
    by blast
  then show ?thesis using assms(2) Inl p
    by (auto simp: dispatch_stream_def observation_of_def reply_only_def stream_shape_def stream_ends_def)
next
  case (Inr s)
  note s = begin_dispatch_Inr [OF assms(1) Inr]
  note shape = stream_shape_ids [OF s(1,2)]
  show ?thesis
  proof (cases "bt_get (stream_handlers r) (method_id (bg_frame s))")
    case None
    then have "d = reply_only (error_frame (bg_frame s) UnknownMethod (str ''method is not registered''))
        (bg_log s @ finish_observation (bg_observation s) (Failure UnknownMethod)) budget []"
      using assms(2) Inr s(3) by (simp add: dispatch_stream_def Let_def)
    moreover have "finishes n (bg_log s @ finish_observation (bg_observation s) (Failure UnknownMethod))
        = (if bg_observation s = Some n then [Failure UnknownMethod] else [])" for n
      using s(5) by simp
    ultimately show ?thesis
      using stream_shape_reply [of _ "bg_observation s" UnknownMethod "bg_frame s"] Inr
      by (simp add: observation_of_def shape [symmetric]) (simp add: reply_only_def)
  next
    case (Some h)
    then show ?thesis
    proof (cases rule: dispatch_stream_begun [OF Inr Some assms(2) s(5)])
      case 1
      then show ?thesis by (simp add: stream_shape_def stream_ends_def stream_stop_def s(5))
    next
      case (2 log events e)
      then show ?thesis using stream_shape_reply [OF 2(1), of "bg_frame s"] s(3) Inr
        by (simp add: observation_of_def shape [symmetric]) (simp add: reply_only_def)
    next
      case (3 log input events)
      then show ?thesis using stream_run_handler_sound [OF 3] s(3) Inr
        by (simp add: observation_of_def shape)
    qed
  qed
qed

section \<open>Properties\<close>

lemma dispatch_observed_reply:
  assumes "budget_wf budget"
    and "d = dispatch_observed z r f body_limit mlimit rc peer received env budget"
    and "dr_exit d = Replied reply"
  shows "\<exists>oc. replies f body_limit reply oc \<and> dr_budget d = budget
    \<and> (\<forall>n. finishes n (final_log d) =
          (if observation_of (begin_dispatch z r f mlimit rc received env budget) = Some n then [oc] else []))"
proof (cases "begin_dispatch z r f mlimit rc received env budget")
  case (Inl p)
  obtain reply' b where p: "p = (reply', b)" by (cases p)
  with begin_dispatch_Inl [OF assms(1) Inl [unfolded p]] obtain c m where "b = budget" "reply' = error_frame f c m"
    by blast
  then show ?thesis using assms(2,3) Inl p
    by (intro exI [of _ "Failure c"]) (auto simp: dispatch_observed_def observation_of_def final_log_def)
next
  case (Inr s)
  then show ?thesis using dispatch_observed_begun [OF assms(1) Inr assms(2,3)] by (simp add: observation_of_def)
qed

text \<open>Claim C16. A unary reply belongs to its request and tells telemetry the truth: it has the request's
  method and request id, is a response within the negotiated body limit or a well-formed error, the
  decoded-byte budget is back where it was, and the request's observation, and no other, is finished
  exactly once with the outcome the reply carries.\<close>

theorem unary_reply_sound:
  assumes "budget_wf budget"
    and "d = dispatch_observed z r f body_limit mlimit rc peer received env budget"
    and "dr_exit d = Replied reply"
  shows "\<exists>oc. replies f body_limit reply oc \<and> dr_budget d = budget
    \<and> (\<forall>n. finishes n (final_log d) =
          (if observation_of (begin_dispatch z r f mlimit rc received env budget) = Some n then [oc] else []))"
  using dispatch_observed_reply [OF assms] .

text \<open>Claim C17. When a unary request is answered: once parsed and routed, the task dies without an answer
  exactly when the handler panics in time and no middleware is installed, and stays open forever exactly
  when the request has no deadline and the handler never completes.  In every other case there is a
  reply; with a deadline the handler overran it is the deadline error and the request's cancellation
  signal is set.\<close>

theorem unary_answered:
  assumes "budget_wf budget"
    and "begin_dispatch z r f mlimit rc received env budget = Inr s"
    and "bt_get (handlers r) (method_id f) = Some h"
    and "d = dispatch_observed z r f body_limit mlimit rc peer received env budget"
  shows "(dr_exit d = TaskPanicked \<longleftrightarrow> completes (deadline (bg_request s)) (env_takes env)
            \<and> middleware r = [] \<and> h (payload (bg_request s)) = Panicked)
    \<and> (dr_exit d = NeverCompletes \<longleftrightarrow> deadline (bg_request s) = None \<and> env_takes env = None)
    \<and> (deadline (bg_request s) \<noteq> None \<and> \<not> completes (deadline (bg_request s)) (env_takes env) \<longrightarrow>
         dr_exit d = Replied (error_frame f DeadlineExceeded (str ''request deadline exceeded'')) \<and> dr_cancelled d)"
proof -
  note s = begin_dispatch_Inr [OF assms(1,2)]
  let ?ctx = "request_context r (bg_frame s) (bg_request s) peer (env_ctx_now env)"
  obtain result events where i: "invoke r h ?ctx (payload (bg_request s)) = (result, events)" by fastforce
  have h: "bt_get (handlers r) (method_id (bg_frame s)) = Some h" using assms(3) s(1) by simp
  note cases = dispatch_observed_handled [OF assms(2) h i assms(4)]
  have panic: "result = Panicked \<longleftrightarrow> middleware r = [] \<and> h (payload (bg_request s)) = Panicked"
    using invoke_panics [of r h ?ctx "payload (bg_request s)"] i s(4) by (auto simp: request_context_def)
  have err: "error_frame (bg_frame s) c m = error_frame f c m" for c m
    using s(1,2) by (simp add: error_frame_def)
  show ?thesis
  proof (cases "completes (deadline (bg_request s)) (env_takes env)")
    case True
    then show ?thesis using cases(1,2) [OF True] panic
      by (cases result) (auto simp: completes_def split: option.splits)
  next
    case False
    then show ?thesis using cases(3,4) [OF False]
      by (cases "deadline (bg_request s)") (auto simp: err completes_def split: option.splits)
  qed
qed


text \<open>Claim C18. A server stream is well formed: whatever the scheduling, the frames handed to the queue are
  items of the request within the body limit, one credit each, followed by at most one terminal frame,
  the end of the stream or an error; the terminal frame is there exactly when delivery finished, and then
  the observation is finished exactly once, with the sum of the item sizes after a normal end and the
  error's code otherwise; a delivery cut short finishes nothing; the budget is restored when the task ends.\<close>

theorem stream_frames_sound:
  assumes "budget_wf budget"
    and "d = dispatch_stream z r f body_limit mlimit rc peer received env budget"
  shows "\<exists>items terminal. so_frames (sd_out d) = map (stream_item f) items @ terminal
    \<and> so_credits (sd_out d) = length items
    \<and> list_all (\<lambda>item. length item \<le> unat body_limit) items
    \<and> stream_ends f (observation_of (begin_dispatch z r f mlimit rc received (se_base env) budget))
        (sum_list (map length items)) (so_exit (sd_out d)) (so_log (sd_out d)) terminal
    \<and> (so_exit (sd_out d) \<noteq> StreamWaiting \<longrightarrow> sd_budget d = budget)"
  using dispatch_stream_sound [OF assms] by (simp add: stream_shape_def list_all_iff)

definition stream_of :: "bytes list \<Rightarrow> raw_stream" where
  "stream_of xs n = (if n < length xs then Some (Returned (Inr (xs ! n))) else None)"

definition served :: "stream_round \<Rightarrow> bool" where
  "served rd = (sr_next rd = Ready \<and> sr_credit rd = CreditGranted \<and> sr_sent rd)"

lemma stream_loop_served:
  assumes "served rd" "stream n = Some (Returned (Inr item))" "length item \<le> unat body_limit"
    and "stream_loop f body_limit expires ob stream (n + 1) (k + length item)
           (fold push_stage (sr_stages rd) cell) rds = rest"
  shows "stream_loop f body_limit expires ob stream n k cell (rd # rds) =
    rest\<lparr>so_frames := stream_item f item # so_frames rest, so_credits := so_credits rest + 1\<rparr>"
  using assms by (simp add: served_def)

lemma stream_loop_delivers:
  assumes "length rds > length xs - n" "n \<le> length xs" "list_all served rds"
    and "list_all (\<lambda>x. length x \<le> unat body_limit) xs"
  shows "\<exists>log. stream_loop f body_limit expires ob (stream_of xs) n k cell rds =
    \<lparr>so_frames = map (stream_item f) (drop n xs) @ [stream_end f], so_credits = length xs - n,
     so_log = log, so_exit = StreamFinished\<rparr>"
  using assms
proof (induction rds arbitrary: n k cell)
  case (Cons rd rds)
  show ?case
  proof (cases "n = length xs")
    case True
    then show ?thesis using Cons.prems by (simp add: served_def stream_of_def stream_finish_def)
  next
    case False
    then have n: "n < length xs" using Cons.prems by simp
    let ?cell = "fold push_stage (sr_stages rd) cell"
    obtain log where rest: "stream_loop f body_limit expires ob (stream_of xs) (n + 1) (k + length (xs ! n)) ?cell rds =
        \<lparr>so_frames = map (stream_item f) (drop (n + 1) xs) @ [stream_end f], so_credits = length xs - (n + 1),
         so_log = log, so_exit = StreamFinished\<rparr>"
      using Cons.IH [of "n + 1"] Cons.prems n by fastforce
    have "length (xs ! n) \<le> unat body_limit" using Cons.prems(4) n by (simp add: list_all_length)
    then have "stream_loop f body_limit expires ob (stream_of xs) n k cell (rd # rds) =
        \<lparr>so_frames = stream_item f (xs ! n) # map (stream_item f) (drop (n + 1) xs) @ [stream_end f],
         so_credits = length xs - (n + 1) + 1, so_log = log, so_exit = StreamFinished\<rparr>"
      using stream_loop_served [OF _ _ _ rest] Cons.prems(3) n by (simp add: stream_of_def)
    then show ?thesis
      using n by (simp add: Cons_nth_drop_Suc [symmetric] Suc_diff_Suc del: stream_loop.simps)
  qed
qed simp

text \<open>Claim C19. A served stream is delivered completely: when every wait ends and every credit is granted, one
  more iteration than items is enough to hand over all items in order and the end of the stream.\<close>

theorem stream_delivers_all:
  assumes "budget_wf budget"
    and "begin_dispatch z r f mlimit rc received (se_base env) budget = Inr s"
    and "bt_get (stream_handlers r) (method_id f) = Some h" "middleware r = []"
    and "h (payload (bg_request s)) = Returned (Inr (stream_of xs))"
    and "list_all (\<lambda>x. length x \<le> unat body_limit) xs"
    and "se_open env = Ready" "list_all served (se_rounds env)" "length xs < length (se_rounds env)"
    and "d = dispatch_stream z r f body_limit mlimit rc peer received env budget"
  shows "so_frames (sd_out d) = map (stream_item f) xs @ [stream_end f]
    \<and> so_credits (sd_out d) = length xs \<and> so_exit (sd_out d) = StreamFinished \<and> \<not> sd_cancelled d"
proof -
  note s = begin_dispatch_Inr [OF assms(1,2)]
  have "metadata (bg_request s) = None" using s(4) assms(4) by simp
  then have d: "d = stream_run_handler h (payload (bg_request s)) s body_limit (bg_log s) env []"
    using assms(2,3,10) s(1) by (simp add: dispatch_stream_def Let_def request_context_def)
  have ids: "stream_item (bg_frame s) = stream_item f" "stream_end (bg_frame s) = stream_end f"
    using s(1,2) by (simp_all add: fun_eq_iff stream_item_def stream_end_def)
  obtain log where "stream_loop (bg_frame s) body_limit (deadline (bg_request s) \<noteq> None) (bg_observation s)
      (stream_of xs) 0 0 (fold push_stage (se_open_stages env) (if bg_observation s \<noteq> None then Some [] else None))
      (se_rounds env) =
    \<lparr>so_frames = map (stream_item f) xs @ [stream_end f], so_credits = length xs, so_log = log,
     so_exit = StreamFinished\<rparr>"
    using stream_loop_delivers [of xs 0 "se_rounds env" body_limit "bg_frame s" "deadline (bg_request s) \<noteq> None"
        "bg_observation s" 0 "fold push_stage (se_open_stages env) (if bg_observation s \<noteq> None then Some [] else None)"]
      assms(6,8,9) ids by auto
  then have "stream_delivery h (payload (bg_request s)) (bg_frame s) body_limit (deadline (bg_request s) \<noteq> None)
      (bg_observation s) env =
    \<lparr>so_frames = map (stream_item f) xs @ [stream_end f], so_credits = length xs, so_log = log,
     so_exit = StreamFinished\<rparr>"
    using assms(5,7) by (simp only: stream_delivery_def Let_def wait.case outcome.case sum.case)
  then show ?thesis
    by (simp add: d stream_run_handler_def Let_def stream_signal_def guard_drop_def guard_complete_def guard_new_def)
qed

text \<open>A stream that ends at its deadline leaves the cancellation signal unset, unlike a unary
  request: once delivery ended in any way but a panic, the signal of the request context is false, also
  when the terminal frame is the deadline error.\<close>

theorem stream_deadline_not_signalled:
  assumes "budget_wf budget"
    and "d = dispatch_stream z r f body_limit mlimit rc peer received env budget"
    and "last (so_frames (sd_out d)) = error_frame f DeadlineExceeded (str ''request deadline exceeded'')"
    and "so_frames (sd_out d) \<noteq> []"
  shows "\<not> sd_cancelled d"
proof -
  have *: "stream_shape f body_limit
      (observation_of (begin_dispatch z r f mlimit rc received (se_base env) budget)) 0 (sd_out d)"
    "sd_cancelled d \<longleftrightarrow> so_exit (sd_out d) = StreamPanicked"
    using dispatch_stream_sound [OF assms(1,2)] by blast+
  show ?thesis
  proof
    assume "sd_cancelled d"
    then obtain items where "so_frames (sd_out d) = map (stream_item f) items"
      using * by (auto simp: stream_shape_def stream_ends_def)
    then have "\<exists>item. last (so_frames (sd_out d)) = stream_item f item"
      using assms(4) by (cases items rule: rev_cases) auto
    then show False using assms(3) by (auto simp: stream_item_def error_frame_def frame_new_def)
  qed
qed

section \<open>Witnesses\<close>

definition sample_router :: Router where
  "sample_router = \<lparr>handlers = [(7, \<lambda>x. Returned (Inr x))],
     stream_handlers = [(8, \<lambda>x. Returned (Inr (stream_of [x, x])))], method_names = [], required_scopes = [],
     middleware = [], router_telemetry = Some (\<lambda>info. Some (3, False))\<rparr>"

definition sample_env :: dispatch_env where
  "sample_env = \<lparr>env_now = 0, env_recorded = 0, env_timing = (0, 0), env_ctx_now = 0, env_takes = Some 5,
     env_stages = [], env_middleware = (0, 0), env_deferred_now = 9\<rparr>"

definition sample_rc :: RequestCompression where
  "sample_rc = \<lparr>rc_codecs = 3, rc_policy = compression_policy_default\<rparr>"

definition sample_budget :: BudgetInner where
  "sample_budget = \<lparr>capacity = 4, used = 0\<rparr>"

definition sample_stream_env :: "wait \<Rightarrow> nat \<Rightarrow> stream_env" where
  "sample_stream_env opened n = \<lparr>se_base = sample_env, se_middleware = Ready, se_open = opened, se_open_stages = [],
     se_rounds = replicate n \<lparr>sr_stages = [], sr_next = Ready, sr_credit = CreditGranted, sr_sent = True\<rparr>\<rparr>"

lemma sample_budget_wf: "budget_wf sample_budget"
  by (simp add: sample_budget_def budget_wf_def usize_max_def)

lemma begin_plain:
  "begin_dispatch z r (frame_new Request mid rid input) n rc received env budget =
   (let q = \<lparr>deadline = None, trace_context = None,
              metadata = if middleware r \<noteq> [] then Some metadata_new else None, payload = input,
              decompression = None, decoded_permit = None\<rparr>;
        f = frame_new Request mid rid [];
        at = (case received of Some t \<Rightarrow> t | None \<Rightarrow> env_now env);
        started = open_observation r f q at in
    Inr \<lparr>bg_request = q, bg_frame = f, bg_observation = map_option fst started,
         bg_detailed = (case started of Some (_, wants) \<Rightarrow> wants | None \<Rightarrow> False),
         bg_log = (case started of Some (ob, True) \<Rightarrow> record_dispatch_stages ob (env_recorded env) at (decompression q) | _ \<Rightarrow> []),
         bg_budget = budget\<rparr>)"
proof -
  have eq: "(frame_new Request mid rid input)\<lparr>body := []\<rparr> = frame_new Request mid rid []"
    by (simp add: frame_new_def)
  show ?thesis
    by (simp add: begin_dispatch_def request_payload_split request_metadata_plain Let_def eq)
qed

lemma sample_sels [simp]:
  "handlers sample_router = [(7, \<lambda>x. Returned (Inr x))]"
  "stream_handlers sample_router = [(8, \<lambda>x. Returned (Inr (stream_of [x, x])))]"
  "middleware sample_router = []" "env_takes sample_env = Some 5"
  "se_base (sample_stream_env opened n) = sample_env" "se_open (sample_stream_env opened n) = opened"
  "se_open_stages (sample_stream_env opened n) = []" "length (se_rounds (sample_stream_env opened n)) = n"
  "list_all served (se_rounds (sample_stream_env opened n))"
  by (simp_all add: sample_router_def sample_env_def sample_stream_env_def list_all_iff served_def)

lemma sample_begin:
  "begin_dispatch stored_codec sample_router (frame_new Request mid 1 [5]) 64 sample_rc None sample_env sample_budget =
   Inr \<lparr>bg_request = \<lparr>deadline = None, trace_context = None, metadata = None, payload = [5],
          decompression = None, decoded_permit = None\<rparr>,
        bg_frame = frame_new Request mid 1 [], bg_observation = Some 3, bg_detailed = False, bg_log = [],
        bg_budget = sample_budget\<rparr>"
  by (simp add: begin_plain Let_def open_observation_def sample_router_def)

theorem unary_reply_sound_witness:
  "\<exists>d reply. d = dispatch_observed stored_codec sample_router (frame_new Request 7 1 [5]) 16 64 sample_rc None None
        sample_env sample_budget
     \<and> dr_exit d = Replied reply \<and> replies (frame_new Request 7 1 [5]) 16 reply (Success 1)
     \<and> finishes 3 (final_log d) = [Success 1] \<and> dr_budget d = sample_budget"
proof -
  define d where "d = dispatch_observed stored_codec sample_router (frame_new Request 7 1 [5]) 16 64 sample_rc None None
        sample_env sample_budget"
  have e: "dr_exit d = Replied (frame_new Response 7 1 [5])"
    by (simp add: d_def dispatch_observed_def sample_begin bt_get_def request_context_def
        invoke_def completes_def conclude_def defer_or_finish_def Let_def)
  obtain oc where "replies (frame_new Request 7 1 [5]) 16 (frame_new Response 7 1 [5]) oc"
    "dr_budget d = sample_budget" "finishes 3 (final_log d) = [oc]"
    using unary_reply_sound [OF sample_budget_wf d_def e] by (auto simp: sample_begin observation_of_def)
  moreover have "oc = Success 1" using calculation(1) by (cases oc) (auto simp: replies_def)
  ultimately show ?thesis using d_def e by blast
qed

definition panicking_router :: Router where
  "panicking_router = sample_router\<lparr>handlers := [(7, \<lambda>x. Panicked)], router_telemetry := None\<rparr>"

theorem unary_answered_witness:
  "dr_exit (dispatch_observed stored_codec panicking_router (frame_new Request 7 1 [5]) 16 64 sample_rc None None
     sample_env sample_budget) = TaskPanicked"
proof -
  obtain s where s: "begin_dispatch stored_codec panicking_router (frame_new Request 7 1 [5]) 64 sample_rc None
      sample_env sample_budget = Inr s" "deadline (bg_request s) = None"
    by (simp add: begin_plain Let_def)
  have h: "bt_get (handlers panicking_router) (method_id (frame_new Request 7 1 [5])) = Some (\<lambda>x. Panicked)"
    by (simp add: panicking_router_def bt_get_def)
  show ?thesis
    using unary_answered [OF sample_budget_wf s(1) h refl, of 16 None] s(2)
    by (simp add: completes_def panicking_router_def)
qed





theorem stream_frames_sound_witness:
  "\<exists>items terminal. so_frames (sd_out (dispatch_stream stored_codec sample_router (frame_new Request 8 1 [5]) 16 64
      sample_rc None None (sample_stream_env Ready 1) sample_budget))
        = map (stream_item (frame_new Request 8 1 [5])) items @ terminal \<and> length items = 1 \<and> terminal = []"
proof -
  let ?d = "dispatch_stream stored_codec sample_router (frame_new Request 8 1 [5]) 16 64
      sample_rc None None (sample_stream_env Ready 1) sample_budget"
  have "so_exit (sd_out ?d) = StreamWaiting \<and> so_credits (sd_out ?d) = 1"
    by (simp add: dispatch_stream_def sample_begin bt_get_def
        request_context_def stream_run_handler_def stream_delivery_def stream_of_def Let_def stream_stop_def)
      (simp add: sample_stream_env_def stream_of_def stream_stop_def)
  then show ?thesis using stream_frames_sound [OF sample_budget_wf refl, of stored_codec sample_router
      "frame_new Request 8 1 [5]" 16 64 sample_rc None None "sample_stream_env Ready 1"]
    by (auto simp: stream_ends_def)
qed

theorem stream_delivers_all_witness:
  "so_frames (sd_out (dispatch_stream stored_codec sample_router (frame_new Request 8 1 [5]) 16 64
      sample_rc None None (sample_stream_env Ready 3) sample_budget)) =
   [frame_new StreamItem 8 1 [5], frame_new StreamItem 8 1 [5], frame_new StreamEnd 8 1 []]"
proof -
  have h: "bt_get (stream_handlers sample_router) (method_id (frame_new Request 8 1 [5]))
      = Some (\<lambda>x. Returned (Inr (stream_of [x, x])))"
    by (simp add: bt_get_def)
  have begun: "begin_dispatch stored_codec sample_router (frame_new Request 8 1 [5]) 64 sample_rc None
      (se_base (sample_stream_env Ready 3)) sample_budget = Inr \<lparr>bg_request = \<lparr>deadline = None,
          trace_context = None, metadata = None, payload = [5], decompression = None, decoded_permit = None\<rparr>,
        bg_frame = frame_new Request 8 1 [], bg_observation = Some 3, bg_detailed = False, bg_log = [],
        bg_budget = sample_budget\<rparr>" by (simp add: sample_begin)
  show ?thesis
    using stream_delivers_all [OF sample_budget_wf begun h, of "[[5], [5]]" 16 _ None]
    by (simp add: stream_item_def stream_end_def)
qed

text \<open>A request with a deadline of one second and nothing else in its metadata.\<close>

definition deadline_metadata :: Metadata where
  "deadline_metadata = [(Reserved DeadlineMillis, u32_to_be_bytes 1000)]"

definition deadline_request :: Frame where
  "deadline_request = (frame_new Request 8 1
     ((u32_to_be_bytes (word_of_nat (length (block_bytes deadline_metadata))) @ block_bytes deadline_metadata) @ [5]))
     \<lparr>flags := FLAG_HAS_METADATA\<rparr>"

lemma deadline_parsed:
  "request_metadata deadline_request 64 False = Inr (Some 1000, None, None, None, length (body deadline_request) - 1)"
proof -
  have len: "length (block_bytes deadline_metadata) = 11"
    by (simp add: deadline_metadata_def length_entry_bytes ENTRY_HEADER_LEN_def)
  have v: "metadata_validate (body deadline_request) (request_limits 64) = Inr (block_bytes deadline_metadata, [5])"
      "into_metadata (block_bytes deadline_metadata) = Inr deadline_metadata"
    unfolding deadline_request_def
    using validate_encoded(1) [of deadline_metadata "request_limits 64" "[5]"]
      validate_encoded(2) [of deadline_metadata "request_limits 64"] len
    by (simp_all add: deadline_metadata_def metadata_wf_def bt_wf_def key_ok_def request_limits_def
        metadata_limits_default_def)
  have "collect_reserved (block_bytes deadline_metadata) = \<lparr>deadline_value = Some (u32_to_be_bytes 1000),
      trace_value = None, codec_value = None, original_value = None\<rparr>"
    using reserved_entries_validated [OF v]
    by (simp add: collect_reserved_def note_reserved_def deadline_metadata_def map_filter_simps)
  then show ?thesis using v(1)
    by (simp add: request_metadata_def deadline_request_def parse_deadline_def parse_trace_def
        parse_compression_def FLAG_HAS_METADATA_def Let_def del: rbind_eq_Inr)
qed

theorem stream_deadline_not_signalled_witness:
  "\<exists>d. d = dispatch_stream stored_codec sample_router deadline_request 16 64 sample_rc None None
        (sample_stream_env Elapsed 0) sample_budget
     \<and> so_frames (sd_out d) = [error_frame deadline_request DeadlineExceeded (str ''request deadline exceeded'')]
     \<and> \<not> sd_cancelled d"
proof -
  let ?d = "dispatch_stream stored_codec sample_router deadline_request 16 64 sample_rc None None
        (sample_stream_env Elapsed 0) sample_budget"
  obtain s where s: "begin_dispatch stored_codec sample_router deadline_request 64 sample_rc None sample_env
      sample_budget = Inr s" and q: "deadline (bg_request s) = Some 1000" "metadata (bg_request s) = None"
    by (simp add: begin_dispatch_def request_payload_split deadline_parsed Let_def)
  note ids = begin_dispatch_Inr(1,2) [OF sample_budget_wf s]
  have f: "so_frames (sd_out ?d) = [error_frame deadline_request DeadlineExceeded (str ''request deadline exceeded'')]"
    using s q ids
    by (simp add: dispatch_stream_def Let_def bt_get_def request_context_def stream_run_handler_def
        stream_delivery_def stream_expired_def stream_fail_def stream_finish_def error_frame_def)
      (simp add: deadline_request_def stream_finish_def)
  then show ?thesis using stream_deadline_not_signalled [OF sample_budget_wf refl] by auto
qed

end
