(* ===== verification/Permit_Pool.thy ===== *)
theory Permit_Pool
  imports Compression
begin

text \<open>
  Counting permits.  The server bounds concurrency and memory with tokio semaphores, a library the
  sources only call: they are parameters of the model, a record \<open>semaphore\<close> of the three
  operations used.  The contract the code relies on is the locale \<open>permit_pool\<close>, whose predicate is
  the hypothesis of the properties that use a semaphore.  The crate's own \<open>DecodedByteBudget\<close> meets
  the same contract: it is the interpretation \<open>decoded\<close>.
\<close>

record 's semaphore =
  sem_available :: "'s \<Rightarrow> nat"
  sem_try_acquire :: "'s \<Rightarrow> nat \<Rightarrow> 's option"
  sem_release :: "'s \<Rightarrow> nat \<Rightarrow> 's"

text \<open>\<open>Semaphore::MAX_PERMITS\<close> on a 64-bit target.\<close>

definition MAX_PERMITS :: nat where "MAX_PERMITS = usize_max div 8"

locale permit_pool =
  fixes available :: "'s \<Rightarrow> nat"
    and try_acquire :: "'s \<Rightarrow> nat \<Rightarrow> 's option"
    and release :: "'s \<Rightarrow> nat \<Rightarrow> 's"
    and wf :: "'s \<Rightarrow> bool"
    and limit :: nat
  assumes acquire_None: "wf s \<Longrightarrow> try_acquire s n = None \<longleftrightarrow> available s < n"
    and acquire_Some: "wf s \<Longrightarrow> try_acquire s n = Some s' \<Longrightarrow> wf s' \<and> available s' = available s - n"
    and release_available:
      "wf s \<Longrightarrow> available s + n \<le> limit \<Longrightarrow> wf (release s n) \<and> available (release s n) = available s + n"
begin

lemma conserve_acquire:
  assumes "wf s" "available s + taken = cap" "try_acquire s n = Some s'"
  shows "wf s' \<and> available s' + (taken + n) = cap"
proof -
  have "n \<le> available s" using acquire_None [OF assms(1), of n] assms(3) by auto
  then show ?thesis using acquire_Some [OF assms(1,3)] assms(2) by simp
qed

lemma conserve_release:
  assumes "wf s" "available s + taken = cap" "cap \<le> limit" "n \<le> taken"
  shows "wf (release s n) \<and> available (release s n) + (taken - n) = cap"
  using release_available [OF assms(1), of n] assms(2-4) by simp

lemma acquire_when_free:
  assumes "wf s" "available s = cap" "n \<le> cap"
  obtains s' where "try_acquire s n = Some s'"
  using acquire_None [OF assms(1), of n] assms(2,3) by (cases "try_acquire s n") auto

lemma release_undoes_acquire:
  assumes "wf s" "available s \<le> limit" "try_acquire s n = Some s'"
  shows "available (release s' n) = available s"
  using conserve_acquire [OF assms(1), of 0 "available s" n s'] assms
    release_available [of s' n] by simp

end

section \<open>The decoded-byte budget is a permit pool\<close>

definition budget_available :: "BudgetInner \<Rightarrow> nat" where
  "budget_available b = capacity b - used b"

definition budget_try_acquire :: "BudgetInner \<Rightarrow> nat \<Rightarrow> BudgetInner option" where
  "budget_try_acquire b n = map_option fst (result_ok (try_reserve b n))"

interpretation decoded: permit_pool budget_available budget_try_acquire permit_drop
  "\<lambda>b. budget_wf b \<and> capacity b = cap" cap for cap
proof unfold_locales
  fix b n b'
  assume b: "budget_wf b \<and> capacity b = cap"
  show "budget_try_acquire b n = None \<longleftrightarrow> budget_available b < n"
  proof (cases "try_reserve b n")
    case (Inl e)
    then have "capacity b < used b + n" using b by (simp add: try_reserve_Inl)
    then have "budget_available b < n" using b by (simp add: budget_available_def budget_wf_def) linarith
    then show ?thesis by (simp add: budget_try_acquire_def Inl)
  next
    case (Inr p)
    obtain c k where p: "p = (c, k)" by (cases p)
    then have "used b + n \<le> capacity b" using Inr b by (simp add: try_reserve_Inr)
    then have "\<not> budget_available b < n" by (simp add: budget_available_def)
    then show ?thesis by (simp add: budget_try_acquire_def Inr)
  qed
  show "(budget_wf b' \<and> capacity b' = cap) \<and> budget_available b' = budget_available b - n"
    if acq: "budget_try_acquire b n = Some b'"
  proof -
    obtain k where "try_reserve b n = Inr (b', k)"
      using acq by (cases "try_reserve b n") (auto simp: budget_try_acquire_def)
    with b show ?thesis by (auto simp: try_reserve_Inr budget_available_def budget_wf_def)
  qed
  show "(budget_wf (permit_drop b n) \<and> capacity (permit_drop b n) = cap)
      \<and> budget_available (permit_drop b n) = budget_available b + n"
    if "budget_available b + n \<le> cap"
  proof -
    have "n \<le> used b" using that b by (simp add: budget_available_def budget_wf_def)
    then show ?thesis using b by (auto simp: permit_drop_used budget_available_def budget_wf_def)
  qed
qed

end
