(* ===== verification/Response_Queue.thy ===== *)
theory Response_Queue
  imports Permit_Pool Request_Frames Telemetry
begin

text \<open>
  The bounded response queue of a connection, crates/moonlight-bridge-server/src/lib.rs:
  \<open>ServerLimits\<close>, \<open>Server::with_limits\<close>, and \<open>ResponseQueue\<close> with \<open>send_observed\<close>,
  \<open>try_reserve\<close> and \<open>reserve\<close>.

  Any number of tasks send concurrently.  A task inside \<open>send_observed\<close> is a value of
  \<open>sender\<close>, one constructor per point where it can be interrupted, and \<open>sender_step\<close> runs it
  to the next such point: one semaphore operation at a time.  The writer takes queued responses from
  the channel and gives their permits back when it drops them; other connections compete for the
  process-wide byte budget.
\<close>

section \<open>Limits\<close>

record ServerLimits =
  max_connections :: nat
  max_buffered_request_bytes :: nat
  max_buffered_response_bytes :: nat
  max_buffered_response_bytes_per_connection :: nat
  frame_read_timeout :: nat
  writer_shutdown_timeout :: nat

definition server_limits_default :: ServerLimits where
  "server_limits_default =
     \<lparr>max_connections = 1024,
      max_buffered_request_bytes = 64 * 1024 * 1024,
      max_buffered_response_bytes = 64 * 1024 * 1024,
      max_buffered_response_bytes_per_connection = 32 * 1024 * 1024,
      frame_read_timeout = 30000,
      writer_shutdown_timeout = 500\<rparr>"

text \<open>\<open>Server::with_limits\<close>; \<open>None\<close> is a failed assertion.\<close>

definition with_limits :: "PeerSettingsV2 \<Rightarrow> ServerLimits \<Rightarrow> ServerLimits option" where
  "with_limits settings limits =
    (if \<not> (max_connections limits > 0 \<and> max_connections limits \<le> MAX_PERMITS) then None
     else if \<not> max_buffered_request_bytes limits \<ge> unat (max_body_len settings) then None
     else if \<not> max_buffered_request_bytes limits \<le> MAX_PERMITS then None
     else
       let largest_response = unat (max_decoded_body_len settings) + HEADER_LEN in
       if \<not> (max_buffered_response_bytes limits \<ge> largest_response
             \<and> max_buffered_response_bytes limits \<le> MAX_PERMITS) then None
       else if \<not> (max_buffered_response_bytes_per_connection limits \<ge> largest_response
             \<and> max_buffered_response_bytes_per_connection limits \<le> max_buffered_response_bytes limits)
       then None
       else if \<not> (frame_read_timeout limits \<noteq> 0 \<and> writer_shutdown_timeout limits \<noteq> 0) then None
       else Some limits)"

section \<open>The queue\<close>

text \<open>The bytes a frame is charged for: header and body.\<close>

definition frame_size :: "Frame \<Rightarrow> nat" where
  "frame_size frame = HEADER_LEN + length (body frame)"

text \<open>Both permits of a queued response count the same bytes.\<close>

record QueuedResponse =
  qr_frame :: Frame
  qr_observation :: "DeferredObservation option"
  qr_bytes :: nat

datatype sender =
    Submitted Frame "DeferredObservation option"
  | TriedConnection Frame "DeferredObservation option" nat
  | AwaitConnection Frame "DeferredObservation option" nat
  | AwaitGlobal Frame "DeferredObservation option" nat
  | AwaitChannel QueuedResponse
  | Sent QueuedResponse
  | DroppedEvent Frame "DeferredObservation option"
  | SendFailed io_error

record 's queue_world =
  connection_bytes :: 's
  global_bytes :: 's
  channel :: "QueuedResponse list"
  channel_closed :: bool
  senders :: "sender list"
  taken :: "QueuedResponse list"
  elsewhere :: nat

text \<open>\<open>reserve\<close> up to its first await.\<close>

definition begin_reserve :: "Frame \<Rightarrow> DeferredObservation option \<Rightarrow> sender" where
  "begin_reserve frame observation =
    (case u32_try_from (frame_size frame) of
       None \<Rightarrow> SendFailed (io_error_new InvalidData ''response frame is too large'')
     | Some bytes \<Rightarrow> AwaitConnection frame observation (unat bytes))"

definition budget_error_frame :: "Frame \<Rightarrow> Frame" where
  "budget_error_frame frame =
     frame_new Error (method_id frame) (request_id frame)
       (error_code_encode ResourceExhausted (str ''response byte budget exhausted''))"

text \<open>The match on the frame that \<open>try_reserve\<close> handed back.\<close>

definition after_refusal :: "Frame \<Rightarrow> DeferredObservation option \<Rightarrow> sender" where
  "after_refusal frame observation =
    (if kind frame = Event then DroppedEvent frame observation
     else if kind frame \<in> {Response, StreamItem} then
       begin_reserve (budget_error_frame frame)
         (map_option (\<lambda>d. d\<lparr>do_outcome := Failure ResourceExhausted\<rparr>) observation)
     else begin_reserve frame observation)"

text \<open>One step of sender \<open>i\<close>; \<open>None\<close> when it waits or has returned.\<close>

definition set_sender :: "nat \<Rightarrow> sender \<Rightarrow> 's queue_world \<Rightarrow> 's queue_world" where
  "set_sender i s w = w\<lparr>senders := (senders w)[i := s]\<rparr>"

definition sender_step :: "'s semaphore \<Rightarrow> nat \<Rightarrow> nat \<Rightarrow> 's queue_world \<Rightarrow> 's queue_world option" where
  "sender_step S channel_capacity i w =
    (case senders w ! i of
       Submitted frame ob \<Rightarrow>
         (case u32_try_from (frame_size frame) of
            None \<Rightarrow> Some (set_sender i (after_refusal frame ob) w)
          | Some bytes \<Rightarrow>
              (case sem_try_acquire S (connection_bytes w) (unat bytes) of
                 None \<Rightarrow> Some (set_sender i (after_refusal frame ob) w)
               | Some c \<Rightarrow> Some (set_sender i (TriedConnection frame ob (unat bytes))
                                  (w\<lparr>connection_bytes := c\<rparr>))))
     | TriedConnection frame ob n \<Rightarrow>
         (case sem_try_acquire S (global_bytes w) n of
            None \<Rightarrow> Some (set_sender i (after_refusal frame ob)
                      (w\<lparr>connection_bytes := sem_release S (connection_bytes w) n\<rparr>))
          | Some g \<Rightarrow> Some (set_sender i
                (AwaitChannel \<lparr>qr_frame = frame, qr_observation = ob, qr_bytes = n\<rparr>)
                (w\<lparr>global_bytes := g\<rparr>)))
     | AwaitConnection frame ob n \<Rightarrow>
         (case sem_try_acquire S (connection_bytes w) n of
            None \<Rightarrow> None
          | Some c \<Rightarrow> Some (set_sender i (AwaitGlobal frame ob n) (w\<lparr>connection_bytes := c\<rparr>)))
     | AwaitGlobal frame ob n \<Rightarrow>
         (case sem_try_acquire S (global_bytes w) n of
            None \<Rightarrow> None
          | Some g \<Rightarrow> Some (set_sender i
                (AwaitChannel \<lparr>qr_frame = frame, qr_observation = ob, qr_bytes = n\<rparr>)
                (w\<lparr>global_bytes := g\<rparr>)))
     | AwaitChannel q \<Rightarrow>
         if channel_closed w then
           Some (set_sender i (SendFailed (io_error_new BrokenPipe ''response writer closed''))
             (w\<lparr>connection_bytes := sem_release S (connection_bytes w) (qr_bytes q),
                global_bytes := sem_release S (global_bytes w) (qr_bytes q)\<rparr>))
         else if length (channel w) < channel_capacity then
           Some (set_sender i (Sent q) (w\<lparr>channel := channel w @ [q]\<rparr>))
         else None
     | Sent _ \<Rightarrow> None
     | DroppedEvent _ _ \<Rightarrow> None
     | SendFailed _ \<Rightarrow> None)"

inductive queue_step :: "'s semaphore \<Rightarrow> nat \<Rightarrow> 's queue_world \<Rightarrow> 's queue_world \<Rightarrow> bool"
  for S :: "'s semaphore" and channel_capacity :: nat where
  submit: "queue_step S channel_capacity w (w\<lparr>senders := senders w @ [Submitted frame ob]\<rparr>)"
| advance: "\<lbrakk>i < length (senders w); sender_step S channel_capacity i w = Some w'\<rbrakk> \<Longrightarrow>
    queue_step S channel_capacity w w'"
| receive: "channel w = q # rest \<Longrightarrow>
    queue_step S channel_capacity w (w\<lparr>channel := rest, taken := taken w @ [q]\<rparr>)"
| discard: "taken w = before @ q # after \<Longrightarrow>
    queue_step S channel_capacity w (w\<lparr>taken := before @ after,
      connection_bytes := sem_release S (connection_bytes w) (qr_bytes q),
      global_bytes := sem_release S (global_bytes w) (qr_bytes q)\<rparr>)"
| close: "queue_step S channel_capacity w (w\<lparr>channel_closed := True\<rparr>)"
| other_acquire: "sem_try_acquire S (global_bytes w) n = Some g \<Longrightarrow>
    queue_step S channel_capacity w (w\<lparr>global_bytes := g, elsewhere := elsewhere w + n\<rparr>)"
| other_release: "n \<le> elsewhere w \<Longrightarrow>
    queue_step S channel_capacity w (w\<lparr>global_bytes := sem_release S (global_bytes w) n,
      elsewhere := elsewhere w - n\<rparr>)"

definition queue_new :: "'s \<Rightarrow> 's \<Rightarrow> nat \<Rightarrow> 's queue_world" where
  "queue_new connection global other =
     \<lparr>connection_bytes = connection, global_bytes = global, channel = [], channel_closed = False,
      senders = [], taken = [], elsewhere = other\<rparr>"

section \<open>Accounting\<close>

fun connection_held :: "sender \<Rightarrow> nat" where
  "connection_held (TriedConnection _ _ n) = n"
| "connection_held (AwaitGlobal _ _ n) = n"
| "connection_held (AwaitChannel q) = qr_bytes q"
| "connection_held _ = 0"

fun global_held :: "sender \<Rightarrow> nat" where
  "global_held (AwaitChannel q) = qr_bytes q"
| "global_held _ = 0"

definition queued_bytes :: "QueuedResponse list \<Rightarrow> nat" where
  "queued_bytes qs = sum_list (map (\<lambda>q. frame_size (qr_frame q)) qs)"

definition response_ok :: "QueuedResponse \<Rightarrow> bool" where
  "response_ok q = (qr_bytes q = frame_size (qr_frame q))"

fun sender_sized :: "sender \<Rightarrow> bool" where
  "sender_sized (TriedConnection f _ n) = (n = frame_size f)"
| "sender_sized (AwaitConnection f _ n) = (n = frame_size f)"
| "sender_sized (AwaitGlobal f _ n) = (n = frame_size f)"
| "sender_sized (AwaitChannel q) = response_ok q"
| "sender_sized (Sent q) = response_ok q"
| "sender_sized _ = True"

definition queue_inv :: "'s semaphore \<Rightarrow> ('s \<Rightarrow> bool) \<Rightarrow> nat \<Rightarrow> nat \<Rightarrow> 's queue_world \<Rightarrow> bool" where
  "queue_inv S ok conn_cap glob_cap w =
    (ok (connection_bytes w) \<and> ok (global_bytes w)
     \<and> sem_available S (connection_bytes w)
         + (sum_list (map connection_held (senders w)) + sum_list (map qr_bytes (channel w))
            + sum_list (map qr_bytes (taken w))) = conn_cap
     \<and> sem_available S (global_bytes w)
         + (sum_list (map global_held (senders w)) + sum_list (map qr_bytes (channel w))
            + sum_list (map qr_bytes (taken w)) + elsewhere w) = glob_cap
     \<and> list_all sender_sized (senders w) \<and> list_all response_ok (channel w @ taken w))"

lemma sum_list_map_update:
  fixes g :: "'a \<Rightarrow> nat"
  assumes "i < length xs"
  shows "g (xs ! i) \<le> sum_list (map g xs)"
    and "sum_list (map g (xs[i := x])) = sum_list (map g xs) + g x - g (xs ! i)"
  using assms elem_le_sum_list [of i "map g xs"] by (simp_all add: map_update sum_list_update)

lemma begin_reserve_held [simp]:
  "connection_held (begin_reserve f ob) = 0" "global_held (begin_reserve f ob) = 0"
  "sender_sized (begin_reserve f ob)"
  by (auto simp: begin_reserve_def split: option.splits)

lemma after_refusal_held [simp]:
  "connection_held (after_refusal f ob) = 0" "global_held (after_refusal f ob) = 0"
  "sender_sized (after_refusal f ob)"
  by (auto simp: after_refusal_def)

lemma set_sender_sel [simp]:
  "connection_bytes (set_sender i s w) = connection_bytes w"
  "global_bytes (set_sender i s w) = global_bytes w"
  "channel (set_sender i s w) = channel w" "channel_closed (set_sender i s w) = channel_closed w"
  "senders (set_sender i s w) = (senders w)[i := s]"
  "taken (set_sender i s w) = taken w" "elsewhere (set_sender i s w) = elsewhere w"
  by (simp_all add: set_sender_def)

abbreviation pool_of :: "'s semaphore \<Rightarrow> ('s \<Rightarrow> bool) \<Rightarrow> bool" where
  "pool_of S ok \<equiv> permit_pool (sem_available S) (sem_try_acquire S) (sem_release S) ok MAX_PERMITS"

text \<open>A sender moves and the semaphores change by what it holds.\<close>

lemma queue_inv_sender:
  assumes "queue_inv S ok cc gc w" "i < length (senders w)" "sender_sized s"
    and "ok c" "sem_available S c + connection_held s =
      sem_available S (connection_bytes w) + connection_held (senders w ! i)"
    and "ok g" "sem_available S g + global_held s =
      sem_available S (global_bytes w) + global_held (senders w ! i)"
  shows "queue_inv S ok cc gc (set_sender i s (w\<lparr>connection_bytes := c, global_bytes := g\<rparr>))"
proof -
  note c = sum_list_map_update [OF assms(2), of connection_held]
  note g = sum_list_map_update [OF assms(2), of global_held]
  show ?thesis
    using assms c(1) g(1) list_all_update [of sender_sized "senders w" s i]
    by (auto simp: queue_inv_def c(2) g(2))
qed

lemma queue_inv_held:
  assumes "queue_inv S ok cc gc w" "i < length (senders w)"
  shows "sem_available S (connection_bytes w) + connection_held (senders w ! i) \<le> cc"
    and "sem_available S (global_bytes w) + global_held (senders w ! i) \<le> gc"
    and "sender_sized (senders w ! i)" "ok (connection_bytes w)" "ok (global_bytes w)"
  using assms sum_list_map_update(1) [OF assms(2), of connection_held]
    sum_list_map_update(1) [OF assms(2), of global_held] list_all_nthD
  by (auto simp: queue_inv_def)

lemma pool_acquire:
  assumes "pool_of S ok" "ok s" "sem_try_acquire S s n = Some s'"
  shows "ok s'" "sem_available S s' + n = sem_available S s"
  using permit_pool.conserve_acquire [OF assms(1,2), of 0 "sem_available S s" n s'] assms(3) by simp_all

lemma pool_release:
  assumes "pool_of S ok" "ok s" "sem_available S s + n \<le> MAX_PERMITS"
  shows "ok (sem_release S s n)" "sem_available S (sem_release S s n) = sem_available S s + n"
  using permit_pool.release_available [OF assms] by simp_all

lemma queue_inv_same:
  assumes "queue_inv S ok cc gc w" "i < length (senders w)" "sender_sized s"
    and "connection_held s = connection_held (senders w ! i)" "global_held s = global_held (senders w ! i)"
  shows "queue_inv S ok cc gc (set_sender i s w)"
  using queue_inv_sender [OF assms(1-3), of "connection_bytes w" "global_bytes w"] assms(4,5)
    queue_inv_held(4,5) [OF assms(1,2)] by simp

lemma queue_inv_connection:
  assumes "queue_inv S ok cc gc w" "i < length (senders w)" "sender_sized s" "ok c"
    and "sem_available S c + connection_held s =
      sem_available S (connection_bytes w) + connection_held (senders w ! i)"
    and "global_held s = global_held (senders w ! i)"
  shows "queue_inv S ok cc gc (set_sender i s (w\<lparr>connection_bytes := c\<rparr>))"
  using queue_inv_sender [OF assms(1-5), of "global_bytes w"] assms(6)
    queue_inv_held(5) [OF assms(1,2)] by simp

lemma queue_inv_global:
  assumes "queue_inv S ok cc gc w" "i < length (senders w)" "sender_sized s" "ok g"
    and "sem_available S g + global_held s =
      sem_available S (global_bytes w) + global_held (senders w ! i)"
    and "connection_held s = connection_held (senders w ! i)"
  shows "queue_inv S ok cc gc (set_sender i s (w\<lparr>global_bytes := g\<rparr>))"
  using queue_inv_sender [OF assms(1-3) queue_inv_held(4) [OF assms(1,2)] _ assms(4), of ] assms(5,6) by simp

lemma queue_inv_push:
  assumes "queue_inv S ok cc gc w" "i < length (senders w)" "senders w ! i = AwaitChannel q"
  shows "queue_inv S ok cc gc (set_sender i (Sent q) (w\<lparr>channel := channel w @ [q]\<rparr>))"
proof -
  have "response_ok q" using queue_inv_held(3) [OF assms(1,2)] assms(3) by simp
  then show ?thesis
    using assms sum_list_map_update [OF assms(2), of connection_held]
      sum_list_map_update [OF assms(2), of global_held] list_all_update [of sender_sized "senders w" "Sent q" i]
    by (simp add: queue_inv_def)
qed

lemma sender_step_inv:
  assumes pool: "pool_of S ok" and caps: "cc \<le> MAX_PERMITS" "gc \<le> MAX_PERMITS"
    and inv: "queue_inv S ok cc gc w" and i: "i < length (senders w)"
    and step: "sender_step S cap i w = Some w'"
  shows "queue_inv S ok cc gc w'"
proof -
  note sz = queue_inv_held [OF inv i]
  note acq = pool_acquire [OF pool sz(4)] pool_acquire [OF pool sz(5)]
  note rel = pool_release [OF pool sz(4)] pool_release [OF pool sz(5)]
  show ?thesis
  proof (cases "senders w ! i")
    case (Submitted f ob)
    have refused: "queue_inv S ok cc gc (set_sender i (after_refusal f ob) w)"
      using inv i Submitted by (intro queue_inv_same) simp_all
    show ?thesis
      using step inv i acq Submitted
      by (auto simp: sender_step_def intro: refused intro!: queue_inv_connection split: option.splits)
  next
    case (TriedConnection f ob n)
    then have n: "n = frame_size f" "sem_available S (connection_bytes w) + n \<le> MAX_PERMITS"
      using sz(1,3) caps by simp_all
    show ?thesis
      using step inv i TriedConnection n acq rel(1,2) [of n]
      by (auto simp: sender_step_def response_ok_def split: option.splits
          intro!: queue_inv_connection queue_inv_global)
  next
    case (AwaitConnection f ob n)
    then show ?thesis
      using step inv i acq sz(3) by (auto simp: sender_step_def split: option.splits
          intro!: queue_inv_connection)
  next
    case (AwaitGlobal f ob n)
    then show ?thesis
      using step inv i acq sz(3) by (auto simp: sender_step_def response_ok_def split: option.splits
          intro!: queue_inv_global)
  next
    case (AwaitChannel q)
    then have "sem_available S (connection_bytes w) + qr_bytes q \<le> MAX_PERMITS"
      "sem_available S (global_bytes w) + qr_bytes q \<le> MAX_PERMITS" using sz(1,2) caps by simp_all
    then show ?thesis
      using step inv i AwaitChannel rel [of "qr_bytes q"]
      by (auto simp: sender_step_def split: if_splits intro!: queue_inv_sender queue_inv_push)
  qed (use step in \<open>simp_all add: sender_step_def\<close>)
qed

lemma queue_step_inv:
  assumes "queue_step S cap w w'" "pool_of S ok" "cc \<le> MAX_PERMITS" "gc \<le> MAX_PERMITS"
    and "queue_inv S ok cc gc w"
  shows "queue_inv S ok cc gc w'"
  using assms
proof (induction rule: queue_step.induct)
  case (advance i w w')
  then show ?case using sender_step_inv by metis
next
  case (discard w before q after)
  then have "ok (connection_bytes w)" "ok (global_bytes w)"
    "sem_available S (connection_bytes w) + qr_bytes q \<le> MAX_PERMITS"
    "sem_available S (global_bytes w) + qr_bytes q \<le> MAX_PERMITS" by (auto simp: queue_inv_def)
  with discard pool_release [OF discard(2)] show ?case by (auto simp: queue_inv_def)
next
  case (other_acquire w n g)
  then show ?case using pool_acquire [OF other_acquire(2) _ other_acquire(1)] by (auto simp: queue_inv_def)
next
  case (other_release n w)
  then have "ok (global_bytes w)" "sem_available S (global_bytes w) + n \<le> MAX_PERMITS"
    by (auto simp: queue_inv_def)
  with other_release pool_release [OF other_release(2)] show ?case by (auto simp: queue_inv_def)
qed (auto simp: queue_inv_def)

lemma queue_reachable_inv:
  assumes "pool_of S ok" "cc \<le> MAX_PERMITS" "gc \<le> MAX_PERMITS"
    and "ok c" "sem_available S c = cc" "ok g" "sem_available S g + other = gc"
    and "(queue_step S cap)\<^sup>*\<^sup>* (queue_new c g other) w"
  shows "queue_inv S ok cc gc w"
  using assms(8)
proof (induction rule: rtranclp_induct)
  case base
  then show ?case using assms(4-7) by (simp add: queue_inv_def queue_new_def)
next
  case (step y z)
  then show ?case using queue_step_inv assms(1-3) by metis
qed

lemma sole_holder:
  fixes g :: "'a \<Rightarrow> nat"
  assumes "i < length xs" "\<forall>j < length xs. j \<noteq> i \<longrightarrow> g (xs ! j) = 0"
  shows "sum_list (map g xs) = g (xs ! i)"
proof -
  have "sum_list (map g xs) = (\<Sum>j = 0..<length xs. g (xs ! j))" by (simp add: sum_list_sum_nth)
  also have "\<dots> = (\<Sum>j \<in> {i}. g (xs ! j))" using assms by (intro sum.mono_neutral_right) auto
  finally show ?thesis by simp
qed

lemma global_within_connection: "connection_held s = 0 \<Longrightarrow> global_held s = 0"
  by (cases s) auto

lemma queued_bytes_permits: "list_all response_ok qs \<Longrightarrow> sum_list (map qr_bytes qs) = queued_bytes qs"
  by (induction qs) (simp_all add: queued_bytes_def response_ok_def)

section \<open>What becomes of a submitted frame\<close>







section \<open>Properties\<close>

text \<open>Claim C4. Response memory is bounded: under any interleaving of senders, writer and other
  connections, the bytes of all responses queued or held by the writer of a connection never exceed its
  own budget, together with what other connections hold they never exceed the process-wide budget, and
  once nothing is queued, held or being sent, every byte of both budgets is available again.  The
  semaphores are assumed to count as documented.\<close>

theorem response_bytes_bounded:
  assumes "pool_of S ok" and "cc \<le> MAX_PERMITS" and "gc \<le> MAX_PERMITS"
    and "ok c" and "sem_available S c = cc" and "ok g" and "sem_available S g + other = gc"
    and "(queue_step S cap)\<^sup>*\<^sup>* (queue_new c g other) w"
  shows "queued_bytes (channel w @ taken w) \<le> cc
    \<and> queued_bytes (channel w @ taken w) + elsewhere w \<le> gc
    \<and> (channel w @ taken w = [] \<and> sum_list (map connection_held (senders w)) = 0 \<longrightarrow>
         sem_available S (connection_bytes w) = cc
         \<and> sem_available S (global_bytes w) + sum_list (map global_held (senders w)) + elsewhere w = gc)"
proof -
  have inv: "queue_inv S ok cc gc w" using assms by (rule queue_reachable_inv)
  then have "sum_list (map qr_bytes (channel w @ taken w)) = queued_bytes (channel w @ taken w)"
    by (intro queued_bytes_permits) (simp add: queue_inv_def)
  with inv show ?thesis by (auto simp: queue_inv_def)
qed


text \<open>Limits accepted by \<open>with_limits\<close> never leave a sender waiting for bytes that
  cannot exist: once everything else has been written and released, a sender waiting with a frame whose body
  respects the decoded limit acquires its bytes.\<close>

theorem accepted_limits_never_starve:
  assumes "with_limits settings limits = Some limits" and "pool_of S ok"
    and "ok c" and "sem_available S c = max_buffered_response_bytes_per_connection limits"
    and "ok g" and "sem_available S g + other = max_buffered_response_bytes limits"
    and "(queue_step S cap)\<^sup>*\<^sup>* (queue_new c g other) w"
    and "i < length (senders w)"
    and "senders w ! i = AwaitConnection f ob n \<or> senders w ! i = AwaitGlobal f ob n"
    and "length (body f) \<le> unat (max_decoded_body_len settings)"
    and "channel w @ taken w = []" and "elsewhere w = 0"
    and "\<forall>j < length (senders w). j \<noteq> i \<longrightarrow> connection_held (senders w ! j) = 0"
  shows "\<exists>w'. sender_step S cap i w = Some w'"
proof -
  let ?cc = "max_buffered_response_bytes_per_connection limits"
  let ?gc = "max_buffered_response_bytes limits"
  have lim: "unat (max_decoded_body_len settings) + HEADER_LEN \<le> ?cc" "?cc \<le> ?gc" "?gc \<le> MAX_PERMITS"
    using assms(1) by (auto simp: with_limits_def Let_def split: if_splits)
  have inv: "queue_inv S ok ?cc ?gc w"
    by (rule queue_reachable_inv [OF assms(2) _ lim(3) assms(3-7)]) (use lim in simp)
  note sz = queue_inv_held [OF inv assms(8)]
  have n: "n \<le> ?cc" using sz(3) assms(9,10) lim(1) by (auto simp: frame_size_def)
  have others: "sum_list (map connection_held (senders w)) = connection_held (senders w ! i)"
    "sum_list (map global_held (senders w)) = 0"
    using sole_holder [OF assms(8), of connection_held] sole_holder [OF assms(8), of global_held]
      assms(9,13) global_within_connection by auto
  have avail: "sem_available S (global_bytes w) = ?gc"
    "sem_available S (connection_bytes w) + connection_held (senders w ! i) = ?cc"
    using inv others assms(11,12) by (auto simp: queue_inv_def)
  show ?thesis
  proof (cases "senders w ! i = AwaitConnection f ob n")
    case True
    then show ?thesis
      using permit_pool.acquire_None [OF assms(2) sz(4), of n] avail n
      by (cases "sem_try_acquire S (connection_bytes w) n") (auto simp: sender_step_def)
  next
    case False
    then show ?thesis
      using permit_pool.acquire_None [OF assms(2) sz(5), of n] avail n lim(2) assms(9)
      by (cases "sem_try_acquire S (global_bytes w) n") (auto simp: sender_step_def)
  qed
qed

section \<open>Witnesses\<close>

text \<open>A semaphore that is its counter.\<close>

definition counter_semaphore :: "nat semaphore" where
  "counter_semaphore = \<lparr>sem_available = (\<lambda>s. s),
     sem_try_acquire = (\<lambda>s n. if n \<le> s then Some (s - n) else None), sem_release = (\<lambda>s n. s + n)\<rparr>"

lemma counter_semaphore_pool: "pool_of counter_semaphore (\<lambda>_. True)"
  by unfold_locales (auto simp: counter_semaphore_def split: if_splits)

theorem response_bytes_bounded_witness:
  "\<exists>w. (queue_step counter_semaphore 4)\<^sup>*\<^sup>* (queue_new 100 200 0) w
     \<and> senders w = [Submitted (frame_new Pong 0 1 []) None]
     \<and> sem_available counter_semaphore (connection_bytes w) = 100"
proof -
  let ?w = "(queue_new 100 200 0)\<lparr>senders := [Submitted (frame_new Pong 0 1 []) None]\<rparr> :: nat queue_world"
  have run: "(queue_step counter_semaphore 4)\<^sup>*\<^sup>* (queue_new 100 200 0) ?w"
    using queue_step.submit [of counter_semaphore 4 "queue_new 100 200 0" "frame_new Pong 0 1 []" None]
    by (simp add: queue_new_def r_into_rtranclp)
  have "(100 :: nat) \<le> MAX_PERMITS" "(200 :: nat) \<le> MAX_PERMITS"
    by (simp_all add: MAX_PERMITS_def usize_max_def)
  from response_bytes_bounded [OF counter_semaphore_pool this, of 100 200 0, OF _ _ _ _ run]
  have "sem_available counter_semaphore (connection_bytes ?w) = 100"
    by (simp add: counter_semaphore_def queue_new_def)
  with run show ?thesis by (intro exI [of _ ?w]) simp
qed


theorem accepted_limits_never_starve_witness:
  "\<exists>w w'. (queue_step counter_semaphore 4)\<^sup>*\<^sup>* (queue_new (32 * 1024 * 1024) 0 (64 * 1024 * 1024)) w
     \<and> senders w = [AwaitConnection (frame_new Pong 0 1 []) None 24]
     \<and> sender_step counter_semaphore 4 0 w = Some w'"
proof -
  let ?f = "frame_new Pong 0 1 []"
  let ?w0 = "queue_new (32 * 1024 * 1024) 0 (64 * 1024 * 1024) :: nat queue_world"
  let ?w1 = "?w0\<lparr>senders := [Submitted ?f None]\<rparr>"
  let ?w2 = "?w0\<lparr>connection_bytes := 32 * 1024 * 1024 - 24, senders := [TriedConnection ?f None 24]\<rparr>"
  let ?w3 = "?w0\<lparr>senders := [AwaitConnection ?f None 24]\<rparr>"
  let ?w4 = "?w3\<lparr>global_bytes := 64 * 1024 * 1024, elsewhere := 0\<rparr>"
  let ?step = "queue_step counter_semaphore 4"
  note ev = sender_step_def u32_try_from_def u32_max_def frame_size_def HEADER_LEN_def
    counter_semaphore_def queue_new_def set_sender_def after_refusal_def begin_reserve_def
  have "?step ?w0 ?w1" using queue_step.submit [of counter_semaphore 4 ?w0 ?f None] by (simp add: queue_new_def)
  moreover have "?step ?w1 ?w2" by (rule queue_step.advance [of 0]) (simp_all add: ev)
  moreover have "?step ?w2 ?w3" by (rule queue_step.advance [of 0]) (simp_all add: ev)
  moreover have "?step ?w3 ?w4"
    using queue_step.other_release [of "64 * 1024 * 1024" ?w3 counter_semaphore 4]
    by (simp add: queue_new_def counter_semaphore_def)
  ultimately have run: "?step\<^sup>*\<^sup>* ?w0 ?w4" by (meson converse_rtranclp_into_rtranclp rtranclp.rtrancl_refl)
  have lim: "with_limits settings_default server_limits_default = Some server_limits_default"
    by (simp add: with_limits_def server_limits_default_def settings_default_def MAX_PERMITS_def usize_max_def
        HEADER_LEN_def DEFAULT_MAX_BODY_LEN_def)
  have "\<exists>w'. sender_step counter_semaphore 4 0 ?w4 = Some w'"
    by (rule accepted_limits_never_starve [OF lim counter_semaphore_pool _ _ _ _ run, where f = ?f and ob = None and n = 24])
      (simp_all add: server_limits_default_def counter_semaphore_def queue_new_def)
  with run show ?thesis by - (rule exI [of _ ?w4], simp)
qed

end
