(* ===== verification/Response_Writer.thy ===== *)
theory Response_Writer
  imports Response_Queue
begin

text \<open>
  The writer task of a connection, crates/moonlight-bridge-server/src/lib.rs (\<open>writer_task\<close> in
  \<open>serve_connection\<close>, \<open>recycle_writer_buffer\<close>): every response is fitted, compressed and fitted
  again, then encoded into a batch of at most 64 frames and 512 KiB that one write puts on the socket.  A
  response that does not fit the batch any more is deferred to the next one.  \<open>try_recv\<close> sees the
  responses that have arrived so far; which ones is the parameter \<open>visible\<close>.
\<close>

definition WRITER_BATCH_BYTES :: nat where "WRITER_BATCH_BYTES = 512 * 1024"
definition MAX_BATCH_FRAMES :: nat where "MAX_BATCH_FRAMES = 64"
definition READER_BUFFER_BYTES :: nat where "READER_BUFFER_BYTES = 32 * 1024"

text \<open>A \<open>Vec\<close> as its capacity and contents.\<close>

definition recycle_writer_buffer :: "nat \<times> bytes \<Rightarrow> nat \<times> bytes" where
  "recycle_writer_buffer encoded =
    (if fst encoded > WRITER_BATCH_BYTES * 2 then (WRITER_BATCH_BYTES, []) else (fst encoded, []))"

definition connection_compression_policy :: "PeerSettingsV2 \<Rightarrow> CompressionPolicy \<Rightarrow> CompressionPolicy" where
  "connection_compression_policy negotiated runtime_policy =
     runtime_policy\<lparr>cp_max_decoded_body_len := max_decoded_body_len negotiated\<rparr>"

definition prepare_outbound :: "zstd \<Rightarrow> PeerSettingsV2 \<Rightarrow> CompressionPolicy \<Rightarrow> Frame \<Rightarrow> Frame" where
  "prepare_outbound z negotiated policy frame =
     fit_outbound_frame
       (compress_outbound_frame z (fit_outbound_frame frame (max_decoded_body_len negotiated))
          (compression_codecs negotiated) policy (max_metadata_len negotiated))
       (max_body_len negotiated)"

definition prepare_response :: "(Frame \<Rightarrow> Frame) \<Rightarrow> QueuedResponse \<Rightarrow> QueuedResponse" where
  "prepare_response prep q = q\<lparr>qr_frame := prep (qr_frame q)\<rparr>"

text \<open>The inner loop: the batch so far, the responses it holds, the visible part of the channel.\<close>

fun writer_fill :: "(Frame \<Rightarrow> Frame) \<Rightarrow> nat \<Rightarrow> bytes \<Rightarrow> QueuedResponse list \<Rightarrow> QueuedResponse list \<Rightarrow>
    io_error + (bytes \<times> QueuedResponse list \<times> QueuedResponse option \<times> QueuedResponse list)" where
  "writer_fill prep frames encoded held_responses [] = Inr (encoded, held_responses, None, [])"
| "writer_fill prep frames encoded held_responses (q # rest) =
    (if \<not> frames < MAX_BATCH_FRAMES then Inr (encoded, held_responses, None, q # rest)
     else
       let queued = prepare_response prep q in
       if length encoded + frame_size (qr_frame queued) > WRITER_BATCH_BYTES
       then Inr (encoded, held_responses, Some queued, rest)
       else
         rbind (map_err invalid_data (frame_encode_into (qr_frame queued) encoded)) (\<lambda>encoded.
         writer_fill prep (frames + 1) encoded (held_responses @ [queued]) rest))"

text \<open>One turn of the outer loop from the first response on.\<close>

definition writer_batch :: "(Frame \<Rightarrow> Frame) \<Rightarrow> QueuedResponse \<Rightarrow> QueuedResponse list \<Rightarrow>
    io_error + (bytes \<times> QueuedResponse list \<times> QueuedResponse option \<times> QueuedResponse list)" where
  "writer_batch prep first visible =
    (let first' = prepare_response prep first in
     rbind (map_err invalid_data (frame_encode_into (qr_frame first') [])) (\<lambda>encoded.
     writer_fill prep 1 encoded [first'] visible))"

text \<open>After the write, the observations of the batch are told when.\<close>

definition notify_written :: "QueuedResponse list \<Rightarrow> nat \<Rightarrow> obs_log" where
  "notify_written held_responses written_at =
     concat (map (\<lambda>q. case qr_observation q of None \<Rightarrow> [] | Some d \<Rightarrow> deferred_written d written_at)
               held_responses)"

text \<open>The writer with its channel; \<open>submitted\<close> and \<open>written\<close> record the frames in the order they
  were put on the channel and on the socket.\<close>

record writer_world =
  w_channel :: "QueuedResponse list"
  w_deferred :: "QueuedResponse option"
  w_socket :: bytes
  w_observed :: obs_log
  submitted :: "Frame list"
  written :: "Frame list"

definition writer_start :: writer_world where
  "writer_start = \<lparr>w_channel = [], w_deferred = None, w_socket = [], w_observed = [],
     submitted = [], written = []\<rparr>"

inductive writer_step :: "(Frame \<Rightarrow> Frame) \<Rightarrow> writer_world \<Rightarrow> writer_world \<Rightarrow> bool"
  for prep :: "Frame \<Rightarrow> Frame" where
  arrive: "writer_step prep w (w\<lparr>w_channel := w_channel w @ [q], submitted := submitted w @ [qr_frame q]\<rparr>)"
| batch: "\<lbrakk>w_deferred w = Some first \<and> queue = w_channel w \<or> w_deferred w = None \<and> w_channel w = first # queue;
     writer_batch prep first (take visible queue) = Inr (encoded, held_responses, deferred, rest)\<rbrakk> \<Longrightarrow>
   writer_step prep w (w\<lparr>w_channel := rest @ drop visible queue, w_deferred := deferred,
     w_socket := w_socket w @ encoded, w_observed := w_observed w @ notify_written held_responses now,
     written := written w @ map qr_frame held_responses\<rparr>)"

section \<open>Lemmas\<close>

definition frame_bytes :: "Frame \<Rightarrow> bytes" where
  "frame_bytes f = header_bytes (frame_header f) @ body f"

lemma length_frame_bytes [simp, wire_length]: "length (frame_bytes f) = frame_size f"
  by (simp add: frame_bytes_def frame_size_def)

lemma encode_into_bytes:
  "frame_encode_into f out = Inr bs \<longleftrightarrow> frame_encodable f \<and> bs = out @ frame_bytes f"
  by (auto simp: frame_encode_into_Inr frame_encodable_def frame_header_def frame_bytes_def)

lemma encode_into_total: "frame_encodable f \<Longrightarrow> frame_encode_into f out = Inr (out @ frame_bytes f)"
  by (simp add: encode_into_bytes)

lemma qr_frame_prepare [simp]: "qr_frame (prepare_response prep q) = prep (qr_frame q)"
  by (simp add: prepare_response_def)

text \<open>Everything a batch does to the queue, in one statement.\<close>

lemma writer_fill_Inr:
  assumes "writer_fill prep frames encoded kept qs = Inr (encoded', kept', deferred, rest)"
    and "0 < frames" "frames \<le> MAX_BATCH_FRAMES"
  shows "\<exists>fitted left. qs = fitted @ left
      \<and> kept' = kept @ map (prepare_response prep) fitted
      \<and> encoded' = encoded @ concat (map (\<lambda>q. frame_bytes (prep (qr_frame q))) fitted)
      \<and> frames + length fitted \<le> MAX_BATCH_FRAMES
      \<and> (fitted \<noteq> [] \<longrightarrow> length encoded' \<le> WRITER_BATCH_BYTES)
      \<and> (case deferred of None \<Rightarrow> left = rest
         | Some d \<Rightarrow> \<exists>q. left = q # rest \<and> d = prepare_response prep q)"
  using assms
proof (induction prep frames encoded kept qs arbitrary: encoded' kept' deferred rest rule: writer_fill.induct)
  case (1 prep frames encoded kept)
  then show ?case by simp
next
  case (2 prep frames encoded kept q qs)
  let ?q = "prepare_response prep q"
  consider (full) "\<not> frames < MAX_BATCH_FRAMES"
    | (over) "frames < MAX_BATCH_FRAMES" "length encoded + frame_size (prep (qr_frame q)) > WRITER_BATCH_BYTES"
    | (take) "frames < MAX_BATCH_FRAMES" "\<not> length encoded + frame_size (prep (qr_frame q)) > WRITER_BATCH_BYTES"
    by blast
  then show ?case
  proof cases
    case full
    with 2 show ?thesis by (intro exI [of _ "[]"] exI [of _ "q # qs"]) auto
  next
    case over
    with 2 show ?thesis by (intro exI [of _ "[]"] exI [of _ "q # qs"]) (auto simp: Let_def)
  next
    case take
    then obtain e where e: "frame_encode_into (prep (qr_frame q)) encoded = Inr e"
        "writer_fill prep (frames + 1) e (kept @ [?q]) qs = Inr (encoded', kept', deferred, rest)"
      using "2.prems"(1) by (auto simp: Let_def)
    have "0 < frames + 1" "frames + 1 \<le> MAX_BATCH_FRAMES" using take by simp_all
    from "2.IH" [OF _ refl _ e(2) this] take
    obtain fitted left where f: "qs = fitted @ left"
      "kept' = (kept @ [?q]) @ map (prepare_response prep) fitted"
      "encoded' = e @ concat (map (\<lambda>q. frame_bytes (prep (qr_frame q))) fitted)"
      "(frames + 1) + length fitted \<le> MAX_BATCH_FRAMES"
      "fitted \<noteq> [] \<longrightarrow> length encoded' \<le> WRITER_BATCH_BYTES"
      "case deferred of None \<Rightarrow> left = rest | Some d \<Rightarrow> \<exists>q. left = q # rest \<and> d = prepare_response prep q"
      by auto
    have "e = encoded @ frame_bytes (prep (qr_frame q))" using e(1) by (simp add: encode_into_bytes)
    with f take show ?thesis
      by (intro exI [of _ "q # fitted"] exI [of _ left]) (auto simp: not_less)
  qed
qed

lemma writer_batch_Inr:
  assumes "writer_batch prep first qs = Inr (encoded, kept, deferred, rest)"
  obtains fitted left where "qs = fitted @ left"
    and "kept = map (prepare_response prep) (first # fitted)"
    and "encoded = concat (map (\<lambda>q. frame_bytes (prep (qr_frame q))) (first # fitted))"
    and "length kept \<le> MAX_BATCH_FRAMES"
    and "1 < length kept \<Longrightarrow> length encoded \<le> WRITER_BATCH_BYTES"
    and "case deferred of None \<Rightarrow> left = rest
         | Some d \<Rightarrow> \<exists>q. left = q # rest \<and> d = prepare_response prep q"
proof -
  obtain e where e: "frame_encode_into (prep (qr_frame first)) [] = Inr e"
      "writer_fill prep 1 e [prepare_response prep first] qs = Inr (encoded, kept, deferred, rest)"
    using assms by (auto simp: writer_batch_def Let_def)
  have "e = frame_bytes (prep (qr_frame first))" using e(1) by (simp add: encode_into_bytes)
  with writer_fill_Inr [OF e(2)] show thesis by (auto simp: MAX_BATCH_FRAMES_def intro: that)
qed

lemma writer_fill_total:
  "(\<And>q. q \<in> set qs \<Longrightarrow> frame_encodable (prep (qr_frame q))) \<Longrightarrow>
   \<exists>r. writer_fill prep frames encoded kept qs = Inr r"
proof (induction prep frames encoded kept qs rule: writer_fill.induct)
  case (2 prep frames encoded kept q qs)
  have "frame_encode_into (prep (qr_frame q)) encoded = Inr (encoded @ frame_bytes (prep (qr_frame q)))"
    using 2(2) by (intro encode_into_total) simp
  moreover have "\<exists>r. writer_fill prep (frames + 1) e (kept @ [prepare_response prep q]) qs = Inr r"
    if "frames < MAX_BATCH_FRAMES" "\<not> length encoded + frame_size (prep (qr_frame q)) > WRITER_BATCH_BYTES" for e
    using 2(1) [OF _ refl, of e] that 2(2) by simp
  ultimately show ?case by (auto simp: Let_def simp del: rbind_eq_Inr)
qed simp

lemma prepare_outbound_sel [simp]:
  "method_id (prepare_outbound z n p f) = method_id f" "request_id (prepare_outbound z n p f) = request_id f"
  by (simp_all add: prepare_outbound_def)

lemma prepare_outbound_encodable:
  assumes "flags f AND NOT KNOWN_FLAGS = 0"
  shows "frame_encodable (prepare_outbound z n p f)"
proof -
  have "length (body (prepare_outbound z n p f)) \<le> unat (max_body_len n)"
    by (simp add: prepare_outbound_def)
  then have "length (body (prepare_outbound z n p f)) \<le> u32_max" using unat_u32_le_max le_trans by blast
  moreover have "flags (prepare_outbound z n p f) AND NOT KNOWN_FLAGS = 0"
    using assms compress_outbound_flags [of "fit_outbound_frame f (max_decoded_body_len n)"]
    by (simp add: prepare_outbound_def)
  ultimately show ?thesis by (simp add: frame_encodable_def)
qed

lemma prepare_outbound_kind: "kind (prepare_outbound z n p f) \<in> {kind f, Error}"
  using compress_outbound_kind [of z "fit_outbound_frame f (max_decoded_body_len n)"
      "compression_codecs n" p "max_metadata_len n"]
  by (auto simp: prepare_outbound_def split: if_splits)

definition writer_inv :: "(Frame \<Rightarrow> Frame) \<Rightarrow> writer_world \<Rightarrow> bool" where
  "writer_inv prep w =
    (\<exists>sent pending. submitted w = sent @ pending @ map qr_frame (w_channel w)
       \<and> list_all2 (\<lambda>f g. g = prep f \<or> g = prep (prep f)) sent (written w)
       \<and> (case w_deferred w of None \<Rightarrow> pending = [] | Some d \<Rightarrow> \<exists>f. pending = [f] \<and> qr_frame d = prep f)
       \<and> w_socket w = concat (map frame_bytes (written w)))"

text \<open>A batch, described by what it consumed and what it left.\<close>

lemma writer_batch_frames:
  assumes "writer_batch prep first (take visible queue) = Inr (encoded, kept, deferred, rest)"
  obtains fitted left where "queue = fitted @ left"
    and "map qr_frame kept = prep (qr_frame first) # map (\<lambda>q. prep (qr_frame q)) fitted"
    and "encoded = concat (map frame_bytes (map qr_frame kept))"
    and "deferred = None \<Longrightarrow> left = rest @ drop visible queue"
    and "\<And>d. deferred = Some d \<Longrightarrow> \<exists>q. left = q # rest @ drop visible queue \<and> qr_frame d = prep (qr_frame q)"
proof (rule writer_batch_Inr [OF assms])
  fix fitted left
  assume f: "take visible queue = fitted @ left"
      "kept = map (prepare_response prep) (first # fitted)"
      "encoded = concat (map (\<lambda>q. frame_bytes (prep (qr_frame q))) (first # fitted))"
      "case deferred of None \<Rightarrow> left = rest | Some d \<Rightarrow> \<exists>q. left = q # rest \<and> d = prepare_response prep q"
  show thesis
  proof (rule that [of fitted "left @ drop visible queue"])
    show "queue = fitted @ left @ drop visible queue" using f(1) by (metis append.assoc append_take_drop_id)
  qed (use f in \<open>auto simp: comp_def\<close>)
qed

lemma writer_step_inv:
  assumes "writer_step prep w w'" "writer_inv prep w"
  shows "writer_inv prep w'"
  using assms
proof (induction rule: writer_step.induct)
  case (arrive w q)
  then show ?case unfolding writer_inv_def by (elim exE) (rule exI, rule exI, auto)
next
  case (batch w first queue visible encoded kept deferred rest now)
  then obtain sent pending where s: "submitted w = sent @ pending @ map qr_frame (w_channel w)"
      "list_all2 (\<lambda>f g. g = prep f \<or> g = prep (prep f)) sent (written w)"
      "case w_deferred w of None \<Rightarrow> pending = [] | Some d \<Rightarrow> \<exists>f. pending = [f] \<and> qr_frame d = prep f"
      "w_socket w = concat (map frame_bytes (written w))"
    by (auto simp: writer_inv_def)
  show ?case
  proof (rule writer_batch_frames [OF batch(2)])
    fix fitted left
    assume b: "queue = fitted @ left"
      "map qr_frame kept = prep (qr_frame first) # map (\<lambda>q. prep (qr_frame q)) fitted"
      "encoded = concat (map frame_bytes (map qr_frame kept))"
      "deferred = None \<Longrightarrow> left = rest @ drop visible queue"
      "\<And>d. deferred = Some d \<Longrightarrow> \<exists>q. left = q # rest @ drop visible queue \<and> qr_frame d = prep (qr_frame q)"
    obtain f0 where f0: "submitted w = sent @ f0 # map qr_frame queue"
        "prep (qr_frame first) = prep f0 \<or> prep (qr_frame first) = prep (prep f0)"
      using batch(1) s(1,3) by (cases "w_deferred w") auto
    define sent' where "sent' = sent @ f0 # map qr_frame fitted"
    have sub: "submitted w = sent' @ map qr_frame left" using f0(1) b(1) by (simp add: sent'_def)
    have "list_all2 (\<lambda>f g. g = prep f \<or> g = prep (prep f)) (map qr_frame fitted) (map (\<lambda>q. prep (qr_frame q)) fitted)"
      by (simp add: list_all2_conv_all_nth)
    then have all: "list_all2 (\<lambda>f g. g = prep f \<or> g = prep (prep f)) sent' (written w @ map qr_frame kept)"
      using s(2) f0(2) unfolding sent'_def b(2) by (intro list_all2_appendI) simp_all
    show ?case
    proof (cases deferred)
      case None
      then show ?thesis unfolding writer_inv_def
        using sub all s(4) b(3,4) by (intro exI [of _ sent'] exI [of _ "[]"]) simp
    next
      case (Some d)
      then obtain q where "left = q # rest @ drop visible queue" "qr_frame d = prep (qr_frame q)" using b(5) by blast
      then show ?thesis unfolding writer_inv_def
        using sub all s(4) b(3) Some by (intro exI [of _ sent'] exI [of _ "[qr_frame q]"]) simp
    qed
  qed
qed

lemma writer_reachable_inv: "(writer_step prep)\<^sup>*\<^sup>* writer_start w \<Longrightarrow> writer_inv prep w"
proof (induction rule: rtranclp_induct)
  case base
  then show ?case by (simp add: writer_inv_def writer_start_def)
next
  case (step y z)
  then show ?case using writer_step_inv by metis
qed

lemma fit_outbound_id: "length (body f) \<le> unat n \<Longrightarrow> fit_outbound_frame f n = f"
  by (simp add: fit_outbound_frame_def)

lemma fit_outbound_within:
  "length (body f) \<le> unat m \<Longrightarrow> length (body (fit_outbound_frame f n)) \<le> unat m"
proof (cases "length (body f) \<le> unat n")
  case False
  assume m: "length (body f) \<le> unat m"
  show ?thesis
  proof (cases "2 \<le> n")
    case True
    then have "2 \<le> unat n" by (simp add: word_le_nat_alt)
    with True False m show ?thesis by (simp add: fit_outbound_frame_def)
  next
    case n: False
    with False show ?thesis by (simp add: fit_outbound_frame_def)
  qed
qed (simp add: fit_outbound_frame_def)

lemma prepare_idempotent:
  assumes "compression_codecs n AND COMPRESSION_CODEC_ZSTD = 0"
  shows "prepare_outbound z n p (prepare_outbound z n p f) = prepare_outbound z n p f"
proof -
  have c: "compress_outbound_frame z g (compression_codecs n) p (max_metadata_len n) = g" for g
    using assms by (simp add: compress_outbound_frame_def)
  let ?g = "fit_outbound_frame (fit_outbound_frame f (max_decoded_body_len n)) (max_body_len n)"
  have "length (body ?g) \<le> unat (max_decoded_body_len n)" by (rule fit_outbound_within) (rule fit_outbound_frame_length)
  then show ?thesis by (simp add: prepare_outbound_def c fit_outbound_id)
qed

section \<open>Compressing twice\<close>

text \<open>A deferred response runs through the pipeline again.  When the codec shrinks its own output, the
  second pass finds the compression keys already present.\<close>

lemma recompress_conflict:
  assumes "flags f = 0" and "kind f \<in> {Response, Event, StreamItem}"
    and "codecs AND COMPRESSION_CODEC_ZSTD \<noteq> 0"
    and "compression_encode z p (body f) Zstd = Inr c" "cp_codec c = Zstd"
    and "compression_encode z p (cp_bytes c) Zstd = Inr c'" "cp_codec c' = Zstd"
    and "kind (compress_outbound_frame z f codecs p n) \<noteq> Error"
  shows "compress_outbound_frame z (compress_outbound_frame z f codecs p n) codecs p n =
    compression_failed (compress_outbound_frame z f codecs p n) ''response metadata conflict''"
proof -
  let ?m = "compression_metadata (original_len c)"
  let ?pre = "u32_to_be_bytes (word_of_nat (length (block_bytes ?m))) @ block_bytes ?m"
  let ?g = "compress_outbound_frame z f codecs p n"
  have n: "19 \<le> unat n" and g: "?g = f\<lparr>flags := FLAG_HAS_METADATA, body := ?pre @ cp_bytes c\<rparr>"
    using compress_plain_frame [OF assms(1,2,8,3)] assms(4,5) by (metis sum.inject(2))+
  have fit: "length (block_bytes ?m) \<le> unat (max_bytes (request_limits n))"
    "length ?m \<le> unat (max_entries (request_limits n))"
    "\<forall>(k, v) \<in> set ?m. length v \<le> unat (max_value_bytes (request_limits n))"
    using n by (simp_all add: request_limits_def metadata_limits_default_def compression_block_length)
      (simp_all add: compression_metadata_def)
  have "metadata_decode (body ?g) (request_limits n) = Inr (?m, cp_bytes c)"
    using validate_encoded(1) [OF compression_metadata_wf fit, of "cp_bytes c"]
      validate_encoded(2) [OF compression_metadata_wf fit]
    unfolding g by (simp add: metadata_decode_def del: rbind_eq_Inr)
  then have om: "outbound_metadata ?g n = Some (?m, length ?pre)"
    unfolding g by (simp add: outbound_metadata_def FLAG_HAS_METADATA_def)
  have ann: "announce_codec c' ?m = Inl DuplicateMetadataKey"
    using assms(7) by (simp add: announce_codec_def insert_reserved_def metadata_insert_def bt_contains_def
        bt_get_def compression_metadata_def)
  have cond: "\<not> (codecs AND COMPRESSION_CODEC_ZSTD = 0 \<or> kind ?g \<notin> {Response, Event, StreamItem})"
    using assms(2,3) unfolding g by simp
  have "drop (length ?pre) (body ?g) = cp_bytes c" unfolding g by simp
  then show ?thesis
    using om ann assms(6)
    by (simp only: compress_outbound_frame_def [of z ?g] if_not_P [OF cond] option.case prod.case sum.case)
qed

text \<open>A codec that satisfies the laws and shrinks some of its own output.\<close>

definition twice_codec :: zstd where
  "twice_codec = \<lparr>
     zstd_compress = (\<lambda>x _. Some (if x = replicate 4096 0 then replicate 1024 1
       else if x = replicate 1024 1 then replicate 512 2 else 3 # x)),
     zstd_decompress = (\<lambda>c n. let x = (if c = replicate 1024 1 then replicate 4096 0
       else if c = replicate 512 2 then replicate 1024 1 else tl c) in
       if length x \<le> n then Some x else None)\<rparr>"

lemma Cons_eq_replicateD: "b # x = replicate n a \<Longrightarrow> b = a"
  by (cases n) simp_all

lemma twice_codec_laws: "zstd_laws twice_codec"
proof -
  have "(replicate 512 2 :: bytes) \<noteq> replicate 1024 1" by (simp only: replicate_eq_replicate) simp
  then show ?thesis
    by (auto simp: zstd_laws_def twice_codec_def Let_def dest: Cons_eq_replicateD)
qed

definition twice_policy :: CompressionPolicy where
  "twice_policy = connection_compression_policy settings_default compression_policy_default"

lemma twice_encodes:
  "compression_encode twice_codec twice_policy (replicate 4096 0) Zstd =
     Inr \<lparr>cp_codec = Zstd, original_len = 4096, cp_bytes = replicate 1024 1\<rparr>"
  "compression_encode twice_codec twice_policy (replicate 1024 1) Zstd =
     Inr \<lparr>cp_codec = Zstd, original_len = 1024, cp_bytes = replicate 512 2\<rparr>"
  by (simp_all add: compression_encode_def policy_validate_def twice_policy_def
      connection_compression_policy_def settings_default_def compression_policy_default_def twice_codec_def
      u32_try_from_def u32_max_def usize_checked_add_def usize_max_def Let_def replicate_eq_replicate
      del: rbind_eq_Inr)

lemma compress_packs:
  assumes "flags f = 0" and "kind f \<in> {Response, Event, StreamItem}"
    and "codecs AND COMPRESSION_CODEC_ZSTD \<noteq> 0" and "19 \<le> unat n"
    and "compression_encode z p (body f) Zstd = Inr c" "cp_codec c = Zstd"
  shows "compress_outbound_frame z f codecs p n = f\<lparr>flags := FLAG_HAS_METADATA,
    body := (u32_to_be_bytes (word_of_nat (length (block_bytes (compression_metadata (original_len c)))))
             @ block_bytes (compression_metadata (original_len c))) @ cp_bytes c\<rparr>"
proof -
  have "encode_prefix (compression_metadata (original_len c)) [] =
      ([] @ u32_to_be_bytes (word_of_nat (length (block_bytes (compression_metadata (original_len c)))))
        @ block_bytes (compression_metadata (original_len c)), Inr ())"
    by (rule encode_prefix_ok [OF compression_metadata_wf]) (simp add: compression_block_length u32_max_def)
  moreover have "\<not> metadata_is_empty (compression_metadata (original_len c))"
    by (simp add: metadata_is_empty_def compression_metadata_def)
  moreover have "outbound_metadata f n = Some (metadata_new, 0)"
    using assms(1) by (simp add: outbound_metadata_def)
  ultimately show ?thesis
    using assms announce_codec_new [of c]
    by (simp add: compress_outbound_frame_def pack_outbound_def compression_block_length)
qed

definition large_pong :: Frame where "large_pong = frame_new Pong 0 1 (replicate 524288 7)"
definition zeros_response :: Frame where "zeros_response = frame_new Response 5 2 (replicate 4096 0)"

lemma large_pong_prepared:
  "prepare_outbound twice_codec settings_default twice_policy large_pong = large_pong"
  by (simp add: prepare_outbound_def fit_outbound_frame_def compress_outbound_frame_def large_pong_def
      settings_default_def DEFAULT_MAX_BODY_LEN_def)

lemma zeros_response_prepared:
  defines "g \<equiv> prepare_outbound twice_codec settings_default twice_policy zeros_response"
  shows "kind g = Response" "frame_size g = 1071"
    and "prepare_outbound twice_codec settings_default twice_policy g =
      compression_failed g ''response metadata conflict''"
proof -
  let ?codecs = "compression_codecs settings_default" and ?n = "max_metadata_len settings_default"
  have zip: "?codecs AND COMPRESSION_CODEC_ZSTD \<noteq> 0" "19 \<le> unat ?n"
    by (simp_all add: settings_default_def COMPRESSION_CODEC_ZSTD_def COMPRESSION_CODEC_NONE_def)
  have fit: "fit_outbound_frame zeros_response (max_decoded_body_len settings_default) = zeros_response"
    by (simp add: fit_outbound_frame_def zeros_response_def settings_default_def)
  have plain: "flags zeros_response = 0" "kind zeros_response \<in> {Response, Event, StreamItem}"
    by (simp_all add: zeros_response_def)
  have enc: "compression_encode twice_codec twice_policy (body zeros_response) Zstd =
      Inr \<lparr>cp_codec = Zstd, original_len = 4096, cp_bytes = replicate 1024 1\<rparr>"
    using twice_encodes(1) by (simp add: zeros_response_def)
  note packed = compress_packs [OF plain zip enc, simplified CompressedPayload.simps, OF refl]
  have lim: "unat (max_body_len settings_default) = 8388608" "unat (max_decoded_body_len settings_default) = 16777216"
    by (simp_all add: settings_default_def DEFAULT_MAX_BODY_LEN_def)
  have len: "length (body (compress_outbound_frame twice_codec zeros_response ?codecs twice_policy ?n)) = 1047"
    by (simp add: packed compression_block_length)
  have g: "g = compress_outbound_frame twice_codec zeros_response ?codecs twice_policy ?n"
    by (simp add: g_def prepare_outbound_def fit fit_outbound_id len lim)
  show "kind g = Response" by (simp add: g packed) (simp add: zeros_response_def)
  show "frame_size g = 1071" by (simp add: g len frame_size_def HEADER_LEN_def)
  have small: "length (body g) \<le> unat (max_decoded_body_len settings_default)"
    "length (body (compression_failed g ''response metadata conflict'')) \<le> unat (max_body_len settings_default)"
    by (simp_all add: g len lim compression_failed_def)
  have "compress_outbound_frame twice_codec g ?codecs twice_policy ?n =
      compression_failed g ''response metadata conflict''"
    unfolding g
    by (rule recompress_conflict [OF plain zip(1) enc, simplified CompressedPayload.simps, OF refl twice_encodes(2)])
      (simp_all add: packed, simp add: zeros_response_def)
  with small show "prepare_outbound twice_codec settings_default twice_policy g =
      compression_failed g ''response metadata conflict''"
    by (simp add: prepare_outbound_def fit_outbound_id)
qed

section \<open>Properties\<close>

text \<open>What the writer puts on the wire is acceptable to the peer: for a response with known
  flags, the prepared frame keeps the method and request ids, keeps its kind or becomes an ERROR, has a
  body within the negotiated limit, encodes without error, and its header passes the peer's validation under
  the negotiated limit.\<close>

theorem prepared_frame_accepted:
  assumes "flags f AND NOT KNOWN_FLAGS = 0"
  shows "\<exists>bs. frame_encode (prepare_outbound z negotiated policy f) = Inr bs
     \<and> read_frame bs (max_body_len negotiated) = Inr (prepare_outbound z negotiated policy f, [])
     \<and> method_id (prepare_outbound z negotiated policy f) = method_id f
     \<and> request_id (prepare_outbound z negotiated policy f) = request_id f
     \<and> kind (prepare_outbound z negotiated policy f) \<in> {kind f, Error}"
proof -
  let ?g = "prepare_outbound z negotiated policy f"
  have e: "frame_encodable ?g" using assms by (rule prepare_outbound_encodable)
  have l: "length (body ?g) \<le> unat (max_body_len negotiated)" by (simp add: prepare_outbound_def)
  from read_frame_encoded [OF e l, of "[]"] e prepare_outbound_kind show ?thesis
    by (auto simp: frame_encode_Inr)
qed

theorem prepared_frame_accepted_witness:
  "\<exists>bs. frame_encode (prepare_outbound stored_codec settings_default compression_policy_default
          (frame_new Response 1 2 [9])) = Inr bs"
  using prepared_frame_accepted [of "frame_new Response 1 2 [9]" stored_codec settings_default
      compression_policy_default] by auto

text \<open>Claim C23. The writer neither loses, duplicates nor reorders: in every run, the socket carries exactly
  the encodings of the frames written, these are the frames submitted, in submission order, each put through
  the pipeline once, or twice if it was deferred to a later batch, and nothing is left behind when channel
  and deferral are empty; without a negotiated codec the second pass changes nothing.  A peer with the
  negotiated limit reads exactly these frames.\<close>

theorem writer_delivers_in_order:
  assumes "(writer_step (prepare_outbound z negotiated policy))\<^sup>*\<^sup>* writer_start w"
    and "\<forall>f \<in> set (submitted w). flags f AND NOT KNOWN_FLAGS = 0"
  shows "read_frames (Suc (length (written w))) (w_socket w) (max_body_len negotiated) =
           (written w, Some \<lparr>error_kind = UnexpectedEof, error_detail = NoDetail\<rparr>)
    \<and> length (written w) \<le> length (submitted w)
    \<and> (\<forall>i < length (written w).
         written w ! i = prepare_outbound z negotiated policy (submitted w ! i)
       \<or> written w ! i = prepare_outbound z negotiated policy (prepare_outbound z negotiated policy (submitted w ! i)))
    \<and> (w_channel w = [] \<and> w_deferred w = None \<longrightarrow> length (written w) = length (submitted w))
    \<and> (compression_codecs negotiated AND COMPRESSION_CODEC_ZSTD = 0 \<longrightarrow>
         (\<forall>i < length (written w). written w ! i = prepare_outbound z negotiated policy (submitted w ! i)))"
proof -
  let ?p = "prepare_outbound z negotiated policy"
  obtain sent pending where s: "submitted w = sent @ pending @ map qr_frame (w_channel w)"
      "list_all2 (\<lambda>f g. g = ?p f \<or> g = ?p (?p f)) sent (written w)"
      "case w_deferred w of None \<Rightarrow> pending = [] | Some d \<Rightarrow> \<exists>f. pending = [f] \<and> qr_frame d = ?p f"
      "w_socket w = concat (map frame_bytes (written w))"
    using writer_reachable_inv [OF assms(1)] by (auto simp: writer_inv_def)
  have len: "length sent = length (written w)" using s(2) by (rule list_all2_lengthD)
  have each: "written w ! i = ?p (submitted w ! i) \<or> written w ! i = ?p (?p (submitted w ! i))"
    if "i < length (written w)" for i
    using that s(1,2) len by (simp add: list_all2_conv_all_nth nth_append)
  have ok: "frame_encodable g \<and> length (body g) \<le> unat (max_body_len negotiated)" if g: "g \<in> set (written w)" for g
  proof -
    obtain i where i: "i < length (written w)" "g = written w ! i" using g by (auto simp: in_set_conv_nth)
    have "flags (submitted w ! i) AND NOT KNOWN_FLAGS = 0" 
      using assms(2) i(1) len arg_cong [OF s(1), of length] by (auto intro!: nth_mem)
    then have "frame_encodable (?p (submitted w ! i))" by (rule prepare_outbound_encodable)
    then have "flags (?p (submitted w ! i)) AND NOT KNOWN_FLAGS = 0" by (simp add: frame_encodable_def)
    then have "frame_encodable (?p (?p (submitted w ! i)))" by (rule prepare_outbound_encodable)
    with \<open>frame_encodable (?p (submitted w ! i))\<close> each [OF i(1)] i(2) show ?thesis
      by (auto simp: prepare_outbound_def)
  qed
  have "read_frames (Suc (length (written w))) (w_socket w) (max_body_len negotiated) =
      (written w, Some \<lparr>error_kind = UnexpectedEof, error_detail = NoDetail\<rparr>)"
    using read_frames_encoded [of "written w" "max_body_len negotiated"] ok s(4)
    by (simp add: frame_bytes_def [abs_def])
  moreover have "compression_codecs negotiated AND COMPRESSION_CODEC_ZSTD = 0 \<Longrightarrow>
      \<forall>i < length (written w). written w ! i = ?p (submitted w ! i)"
    using each prepare_idempotent by metis
  ultimately show ?thesis using each s(1,3) len by auto
qed

theorem writer_delivers_in_order_witness:
  "\<exists>w. (writer_step (prepare_outbound stored_codec settings_default eager_policy))\<^sup>*\<^sup>* writer_start w
     \<and> written w = [frame_new Pong 0 1 []]
     \<and> fst (read_frames 2 (w_socket w) (max_body_len settings_default)) = [frame_new Pong 0 1 []]"
proof -
  let ?p = "prepare_outbound stored_codec settings_default eager_policy"
  let ?f = "frame_new Pong 0 1 []"
  let ?q = "\<lparr>qr_frame = ?f, qr_observation = None, qr_bytes = 24\<rparr>"
  let ?w1 = "writer_start\<lparr>w_channel := [?q], submitted := [?f]\<rparr>"
  let ?w2 = "writer_start\<lparr>w_socket := frame_bytes ?f, submitted := [?f], written := [?f]\<rparr>"
  have p: "?p ?f = ?f"
    by (simp add: prepare_outbound_def fit_outbound_frame_def compress_outbound_frame_def)
  have "frame_encodable ?f" by (simp add: frame_encodable_def u32_max_def)
  then have "writer_batch ?p ?q (take 0 []) = Inr (frame_bytes ?f, [?q], None, [])"
    using p by (simp add: writer_batch_def prepare_response_def encode_into_total del: rbind_eq_Inr)
  then have "writer_step ?p ?w1 ?w2"
    using writer_step.batch [of ?w1 ?q "[]" ?p 0] by (simp add: writer_start_def notify_written_def)
  moreover have "writer_step ?p writer_start ?w1"
    using writer_step.arrive [of ?p writer_start ?q] by (simp add: writer_start_def)
  ultimately have run: "(writer_step ?p)\<^sup>*\<^sup>* writer_start ?w2"
    by (meson converse_rtranclp_into_rtranclp rtranclp.rtrancl_refl)
  have "read_frames (Suc (length (written ?w2))) (w_socket ?w2) (max_body_len settings_default) =
      (written ?w2, Some \<lparr>error_kind = UnexpectedEof, error_detail = NoDetail\<rparr>)"
    using writer_delivers_in_order [OF run] by simp
  with run show ?thesis by (intro exI [of _ ?w2]) (simp add: numeral_2_eq_2 del: read_frames.simps)
qed

text \<open>Claim C24. Finding: a response can be turned into an error by being deferred.  There is a codec that
  satisfies its laws and a run of the writer with the default settings in which a 4 KiB response, which
  alone is prepared as a compressed RESPONSE, waits behind a large frame for the next batch and then leaves as
  an ERROR frame with the code for a compression failure.\<close>

theorem deferred_response_becomes_error:
  "\<exists>w f1 f2. zstd_laws twice_codec
     \<and> (writer_step (prepare_outbound twice_codec settings_default twice_policy))\<^sup>*\<^sup>* writer_start w
     \<and> submitted w = [f1, f2] \<and> kind f2 = Response
     \<and> kind (prepare_outbound twice_codec settings_default twice_policy f2) = Response
     \<and> kind (written w ! 1) = Error
     \<and> body (written w ! 1) = error_code_encode CompressionFailure (str ''response metadata conflict'')"
proof -
  let ?p = "prepare_outbound twice_codec settings_default twice_policy"
  let ?q = "\<lambda>f. \<lparr>qr_frame = f, qr_observation = None, qr_bytes = frame_size f\<rparr>"
  let ?g = "?p zeros_response"
  let ?w1 = "writer_start\<lparr>w_channel := [?q large_pong], submitted := [large_pong]\<rparr>"
  let ?w2 = "writer_start\<lparr>w_channel := [?q large_pong, ?q zeros_response],
    submitted := [large_pong, zeros_response]\<rparr>"
  let ?w3 = "?w2\<lparr>w_channel := [], w_deferred := Some (prepare_response ?p (?q zeros_response)),
    w_socket := frame_bytes large_pong, written := [large_pong]\<rparr>"
  let ?w4 = "?w3\<lparr>w_deferred := None, w_socket := frame_bytes large_pong @ frame_bytes (?p ?g),
    written := [large_pong, ?p ?g]\<rparr>"
  have enc: "frame_encodable large_pong" "frame_encodable (?p ?g)"
    using prepare_outbound_encodable [of large_pong] prepare_outbound_encodable [of zeros_response]
      prepare_outbound_encodable [of ?g] large_pong_prepared
    by (simp_all add: large_pong_def zeros_response_def frame_encodable_def u32_max_def)
  have "writer_step ?p writer_start ?w1"
    using writer_step.arrive [of ?p writer_start "?q large_pong"] by (simp add: writer_start_def)
  moreover have "writer_step ?p ?w1 ?w2"
    using writer_step.arrive [of ?p ?w1 "?q zeros_response"] by (simp add: writer_start_def)
  moreover have "writer_batch ?p (?q large_pong) (take 1 [?q zeros_response]) =
      Inr (frame_bytes large_pong, [prepare_response ?p (?q large_pong)],
        Some (prepare_response ?p (?q zeros_response)), [])"
    using enc(1) by (simp add: writer_batch_def Let_def encode_into_total large_pong_prepared MAX_BATCH_FRAMES_def
        zeros_response_prepared WRITER_BATCH_BYTES_def del: rbind_eq_Inr)
      (simp add: large_pong_def frame_size_def)
  then have "writer_step ?p ?w2 ?w3"
    using writer_step.batch [of ?w2 "?q large_pong" "[?q zeros_response]" ?p 1] large_pong_prepared
    by (simp add: writer_start_def notify_written_def prepare_response_def)
  moreover have "writer_batch ?p (prepare_response ?p (?q zeros_response)) (take 0 []) =
      Inr (frame_bytes (?p ?g), [prepare_response ?p (prepare_response ?p (?q zeros_response))], None, [])"
    using enc(2) by (simp add: writer_batch_def Let_def encode_into_total del: rbind_eq_Inr)
  then have "writer_step ?p ?w3 ?w4"
    using writer_step.batch [of ?w3 "prepare_response ?p (?q zeros_response)" "[]" ?p 0]
    by (simp add: writer_start_def notify_written_def prepare_response_def)
  ultimately have "(writer_step ?p)\<^sup>*\<^sup>* writer_start ?w4"
    by (meson converse_rtranclp_into_rtranclp rtranclp.rtrancl_refl)
  moreover have "?p ?g = compression_failed ?g ''response metadata conflict''" by (rule zeros_response_prepared)
  ultimately show ?thesis
    using twice_codec_laws zeros_response_prepared(1)
    by (intro exI [of _ ?w4] exI [of _ large_pong] exI [of _ zeros_response])
      (simp add: compression_failed_def zeros_response_def)
qed

end
