(* ===== verification/Server_Runtime.thy ===== *)
theory Server_Runtime
  imports Compression
begin

text \<open>
  The state shared by all connections of a server and the graceful drain, crates/moonlight-bridge-server/src:
  \<open>RuntimeState\<close>, its guards, \<open>HealthHandle::snapshot\<close> and the admission part of \<open>Server::run\<close> of lib.rs,
  \<open>begin_drain\<close> and \<open>drain\<close> of drain.rs.

  Threads are program counters; a step is one access to shared state.  Two tokio primitives are
  parameters: the watch channel is a record \<open>watch\<close> of the operations used, with its documented behaviour
  \<open>watch_laws\<close> (a value sent while there is no receiver is discarded); for \<open>Notify\<close> the parameter
  \<open>wakes\<close> says which waiter a call of \<open>notify_waiters\<close> resumes, with \<open>notify_laws\<close> (only one that already
  called \<open>notified()\<close>; nothing is stored for later).
\<close>

section \<open>Shared state\<close>

record 'w watch =
  watch_new :: 'w
  watch_value :: "'w \<Rightarrow> bool"
  watch_receivers :: "'w \<Rightarrow> nat"
  watch_send :: "'w \<Rightarrow> bool \<Rightarrow> 'w"
  watch_subscribe :: "'w \<Rightarrow> 'w"

definition watch_laws :: "'w watch \<Rightarrow> bool" where
  "watch_laws W =
    (\<not> watch_value W (watch_new W) \<and> watch_receivers W (watch_new W) = 0
     \<and> (\<forall>w v. watch_value W (watch_send W w v) = (if watch_receivers W w = 0 then watch_value W w else v)
          \<and> watch_receivers W (watch_send W w v) = watch_receivers W w)
     \<and> (\<forall>w. watch_value W (watch_subscribe W w) = watch_value W w
          \<and> watch_receivers W (watch_subscribe W w) = watch_receivers W w + 1))"

record 'w RuntimeState =
  rs_ready :: bool
  rs_active_connections :: u64
  rs_active_requests :: u64
  rs_max_in_flight :: u32
  rs_compression_policy :: CompressionPolicy
  rs_decoded_byte_budget :: BudgetInner
  rs_draining :: bool
  rs_drain :: 'w
  rs_force_drain :: 'w
  rs_started :: nat

text \<open>\<open>Server::runtime\<close>; the budget of 64 MiB is not zero, so \<open>expect\<close> does not panic.\<close>

definition server_runtime :: "'w watch \<Rightarrow> PeerSettingsV2 \<Rightarrow> nat \<Rightarrow> 'w RuntimeState option" where
  "server_runtime W settings now =
    (case budget_new (64 * 1024 * 1024) of
       Inl _ \<Rightarrow> None
     | Inr budget \<Rightarrow> Some \<lparr>
         rs_ready = False, rs_active_connections = 0, rs_active_requests = 0,
         rs_max_in_flight = max_in_flight settings,
         rs_compression_policy = compression_policy_default\<lparr>cp_max_decoded_body_len := max_decoded_body_len settings\<rparr>,
         rs_decoded_byte_budget = budget, rs_draining = False, rs_drain = watch_new W, rs_force_drain = watch_new W,
         rs_started = now\<rparr>)"

record ServerHealth =
  sh_ready :: bool
  sh_active_connections :: u64
  sh_active_requests :: u64
  sh_max_in_flight_per_connection :: u32
  sh_uptime_millis :: nat

definition health_snapshot :: "'w RuntimeState \<Rightarrow> nat \<Rightarrow> ServerHealth" where
  "health_snapshot rs now =
    \<lparr>sh_ready = rs_ready rs, sh_active_connections = rs_active_connections rs,
     sh_active_requests = rs_active_requests rs, sh_max_in_flight_per_connection = rs_max_in_flight rs,
     sh_uptime_millis = now - rs_started rs\<rparr>"

text \<open>\<open>fetch_add\<close> on entry and the drop of \<open>ConnectionGuard\<close> and \<open>RequestGuard\<close>.\<close>

definition connection_enter :: "'w RuntimeState \<Rightarrow> 'w RuntimeState" where
  "connection_enter rs = rs\<lparr>rs_active_connections := rs_active_connections rs + 1\<rparr>"

definition connection_guard_drop :: "'w RuntimeState \<Rightarrow> 'w RuntimeState" where
  "connection_guard_drop rs = rs\<lparr>rs_active_connections := rs_active_connections rs - 1\<rparr>"

definition request_enter :: "'w RuntimeState \<Rightarrow> 'w RuntimeState" where
  "request_enter rs = rs\<lparr>rs_active_requests := rs_active_requests rs + 1\<rparr>"

definition request_guard_drop :: "'w RuntimeState \<Rightarrow> 'w RuntimeState" where
  "request_guard_drop rs = rs\<lparr>rs_active_requests := rs_active_requests rs - 1\<rparr>"

section \<open>Admission against \<open>begin_drain\<close>\<close>

text \<open>\<open>Server::run\<close> up to its accept loop: load \<open>draining\<close>, store \<open>ready\<close>, subscribe, then accept until
  the subscription reports \<open>true\<close>.  A new receiver has seen the current value, so only a later send
  counts as a change: that is the flag of \<open>RunAccepting\<close>.\<close>

datatype run_pc = RunStart | RunAdmitted | RunReady | RunAccepting bool | RunReturned

text \<open>\<open>begin_drain\<close> of one handle: compare-and-exchange, store \<open>ready\<close>, send.\<close>

datatype begin_pc = BeginStart | BeginSwapped | BeginUnready | BeginDone bool

record 'w server_world =
  sw_runtime :: "'w RuntimeState"
  sw_run :: run_pc
  sw_callers :: "begin_pc list"

inductive server_step :: "'w watch \<Rightarrow> 'w server_world \<Rightarrow> 'w server_world \<Rightarrow> bool" for W :: "'w watch" where
  run_refused:
    "sw_run w = RunStart \<Longrightarrow> rs_draining (sw_runtime w) \<Longrightarrow> server_step W w (w\<lparr>sw_run := RunReturned\<rparr>)"
| run_admitted:
    "sw_run w = RunStart \<Longrightarrow> \<not> rs_draining (sw_runtime w) \<Longrightarrow> server_step W w (w\<lparr>sw_run := RunAdmitted\<rparr>)"
| run_ready:
    "sw_run w = RunAdmitted \<Longrightarrow>
     server_step W w (w\<lparr>sw_runtime := (sw_runtime w)\<lparr>rs_ready := True\<rparr>, sw_run := RunReady\<rparr>)"
| run_subscribe:
    "sw_run w = RunReady \<Longrightarrow>
     server_step W w (w\<lparr>sw_runtime := (sw_runtime w)\<lparr>rs_drain := watch_subscribe W (rs_drain (sw_runtime w))\<rparr>,
                        sw_run := RunAccepting False\<rparr>)"
| run_changed:
    "sw_run w = RunAccepting True \<Longrightarrow>
     server_step W w (w\<lparr>sw_run := (if watch_value W (rs_drain (sw_runtime w)) then RunReturned
                                   else RunAccepting False)\<rparr>)"
| begin_lost:
    "i < length (sw_callers w) \<Longrightarrow> sw_callers w ! i = BeginStart \<Longrightarrow> rs_draining (sw_runtime w) \<Longrightarrow>
     server_step W w (w\<lparr>sw_callers := (sw_callers w)[i := BeginDone False]\<rparr>)"
| begin_won:
    "i < length (sw_callers w) \<Longrightarrow> sw_callers w ! i = BeginStart \<Longrightarrow> \<not> rs_draining (sw_runtime w) \<Longrightarrow>
     server_step W w (w\<lparr>sw_runtime := (sw_runtime w)\<lparr>rs_draining := True\<rparr>,
                        sw_callers := (sw_callers w)[i := BeginSwapped]\<rparr>)"
| begin_unready:
    "i < length (sw_callers w) \<Longrightarrow> sw_callers w ! i = BeginSwapped \<Longrightarrow>
     server_step W w (w\<lparr>sw_runtime := (sw_runtime w)\<lparr>rs_ready := False\<rparr>,
                        sw_callers := (sw_callers w)[i := BeginUnready]\<rparr>)"
| begin_send:
    "i < length (sw_callers w) \<Longrightarrow> sw_callers w ! i = BeginUnready \<Longrightarrow>
     server_step W w (w\<lparr>sw_runtime := (sw_runtime w)\<lparr>rs_drain := watch_send W (rs_drain (sw_runtime w)) True\<rparr>,
                        sw_run := (case sw_run w of RunAccepting _ \<Rightarrow> RunAccepting True | pc \<Rightarrow> pc),
                        sw_callers := (sw_callers w)[i := BeginDone True]\<rparr>)"

definition server_start :: "'w RuntimeState \<Rightarrow> nat \<Rightarrow> 'w server_world" where
  "server_start rs callers = \<lparr>sw_runtime = rs, sw_run = RunStart, sw_callers = replicate callers BeginStart\<rparr>"

section \<open>Waiting for the drain\<close>

text \<open>\<open>ServerHandle::drain\<close> after \<open>begin_drain\<close>: load the two counters, create the \<open>notified()\<close> future, wait.
  A guard drop decrements its counter and then notifies; \<open>dw_notifies\<close> counts drops between the two.\<close>

datatype drain_pc = CheckConnections | CheckRequests | Arm | Parked | Drained bool

record drain_world =
  dw_connections :: nat
  dw_requests :: nat
  dw_notifies :: nat
  dw_pc :: drain_pc

definition notify_laws :: "(drain_pc \<Rightarrow> bool) \<Rightarrow> bool" where
  "notify_laws wakes = (\<forall>pc. wakes pc \<longleftrightarrow> pc = Parked)"

inductive drain_step :: "(drain_pc \<Rightarrow> bool) \<Rightarrow> drain_world \<Rightarrow> drain_world \<Rightarrow> bool" for wakes where
  check_connections:
    "dw_pc w = CheckConnections \<Longrightarrow>
     drain_step wakes w (w\<lparr>dw_pc := (if dw_connections w = 0 then CheckRequests else Arm)\<rparr>)"
| check_requests:
    "dw_pc w = CheckRequests \<Longrightarrow>
     drain_step wakes w (w\<lparr>dw_pc := (if dw_requests w = 0 then Drained True else Arm)\<rparr>)"
| arm: "dw_pc w = Arm \<Longrightarrow> drain_step wakes w (w\<lparr>dw_pc := Parked\<rparr>)"
| deadline: "dw_pc w \<in> {CheckConnections, CheckRequests, Arm, Parked} \<Longrightarrow> drain_step wakes w (w\<lparr>dw_pc := Drained False\<rparr>)"
| connection_exits:
    "dw_connections w > 0 \<Longrightarrow>
     drain_step wakes w (w\<lparr>dw_connections := dw_connections w - 1, dw_notifies := dw_notifies w + 1\<rparr>)"
| request_exits:
    "dw_requests w > 0 \<Longrightarrow>
     drain_step wakes w (w\<lparr>dw_requests := dw_requests w - 1, dw_notifies := dw_notifies w + 1\<rparr>)"
| notify:
    "dw_notifies w > 0 \<Longrightarrow>
     drain_step wakes w (w\<lparr>dw_notifies := dw_notifies w - 1,
                           dw_pc := (if wakes (dw_pc w) then CheckConnections else dw_pc w)\<rparr>)"

definition drain_start :: "nat \<Rightarrow> nat \<Rightarrow> drain_world" where
  "drain_start c q = \<lparr>dw_connections = c, dw_requests = q, dw_notifies = 0, dw_pc = CheckConnections\<rparr>"

section \<open>Lemmas\<close>

definition winner :: "begin_pc \<Rightarrow> bool" where
  "winner pc = (pc \<in> {BeginSwapped, BeginUnready, BeginDone True})"

lemma winner_simps [simp]:
  "\<not> winner BeginStart" "winner BeginSwapped" "winner BeginUnready" "winner (BeginDone b) \<longleftrightarrow> b"
  by (auto simp: winner_def)

definition winners :: "begin_pc list \<Rightarrow> nat" where
  "winners cs = length (filter winner cs)"

lemma winners_update:
  "i < length cs \<Longrightarrow> winners (cs[i := pc]) + (if winner (cs ! i) then 1 else 0) = winners cs + (if winner pc then 1 else 0)"
proof (induction cs arbitrary: i)
  case (Cons c cs)
  then show ?case by (cases i) (auto simp: winners_def)
qed simp

lemma winners_pos: "c \<in> set cs \<Longrightarrow> winner c \<Longrightarrow> winners cs > 0"
  by (auto simp: winners_def filter_empty_conv)

definition drain_once_inv :: "'w server_world \<Rightarrow> bool" where
  "drain_once_inv w =
    (winners (sw_callers w) = (if rs_draining (sw_runtime w) then 1 else 0)
     \<and> (BeginDone False \<in> set (sw_callers w) \<longrightarrow> rs_draining (sw_runtime w)))"

lemma set_update_cases: "x \<in> set (xs[i := y]) \<Longrightarrow> x = y \<or> x \<in> set xs"
  by (meson insertE set_update_subset_insert subsetD)

lemma server_step_once:
  assumes "server_step W w w'" "drain_once_inv w"
  shows "drain_once_inv w'"
  using assms
proof cases
  case (begin_lost i)
  then show ?thesis using assms(2) winners_update [of i "sw_callers w" "BeginDone False"]
    by (auto simp: drain_once_inv_def)
next
  case (begin_won i)
  then show ?thesis using assms(2) winners_update [of i "sw_callers w" BeginSwapped]
    by (auto simp: drain_once_inv_def dest!: set_update_cases)
next
  case (begin_unready i)
  then show ?thesis using assms(2) winners_update [of i "sw_callers w" BeginUnready]
    by (auto simp: drain_once_inv_def dest!: set_update_cases)
next
  case (begin_send i)
  then show ?thesis using assms(2) winners_update [of i "sw_callers w" "BeginDone True"]
    by (auto simp: drain_once_inv_def dest!: set_update_cases)
qed (auto simp: drain_once_inv_def)

lemma server_start_once: "\<not> rs_draining rs \<Longrightarrow> drain_once_inv (server_start rs n)"
  by (auto simp: drain_once_inv_def server_start_def winners_def)

lemma server_reachable_once:
  "(server_step W)\<^sup>*\<^sup>* w0 w \<Longrightarrow> drain_once_inv w0 \<Longrightarrow> drain_once_inv w"
  by (induction rule: rtranclp_induct) (auto intro: server_step_once)






lemma drain_step_idle:
  assumes "drain_step wakes w w'"
    and "(dw_pc w = CheckRequests \<longrightarrow> dw_connections w = 0)
      \<and> (dw_pc w = Drained True \<longrightarrow> dw_connections w = 0 \<and> dw_requests w = 0)"
  shows "(dw_pc w' = CheckRequests \<longrightarrow> dw_connections w' = 0)
      \<and> (dw_pc w' = Drained True \<longrightarrow> dw_connections w' = 0 \<and> dw_requests w' = 0)"
  using assms by cases (auto split: if_splits)

section \<open>Properties\<close>

text \<open>Draining begins exactly once: whatever the interleaving of any number of concurrent
  \<open>begin_drain\<close> calls and the server, at most one call has returned true, the flag is set exactly when
  one call won the exchange, and a call returned false only after that.\<close>

theorem begin_drain_once:
  assumes "(server_step W)\<^sup>*\<^sup>* (server_start rs n) w" "\<not> rs_draining rs"
  shows "winners (sw_callers w) = (if rs_draining (sw_runtime w) then 1 else 0)
    \<and> length (filter (\<lambda>c. c = BeginDone True) (sw_callers w)) \<le> 1
    \<and> (BeginDone False \<in> set (sw_callers w) \<longrightarrow> rs_draining (sw_runtime w))"
proof -
  have inv: "drain_once_inv w" by (rule server_reachable_once [OF assms(1) server_start_once [OF assms(2)]])
  have "length (filter (\<lambda>c. c = BeginDone True) cs) \<le> winners cs" for cs
    by (induction cs) (auto simp: winners_def)
  from this [of "sw_callers w"] inv show ?thesis by (auto simp: drain_once_inv_def split: if_splits)
qed


text \<open>Claim C30. A drain that begins while the server starts can be lost: if it falls between the check of the
  flag in \<open>run\<close> and its subscription, the send has no receiver and is discarded; \<open>begin_drain\<close> returns
  true, and the server accepts connections and reports itself ready, with nothing left to tell it
  otherwise.\<close>

theorem drain_lost_at_startup:
  assumes "watch_laws W" "server_runtime W settings now = Some rs"
  shows "\<exists>w. (server_step W)\<^sup>*\<^sup>* (server_start rs 1) w \<and> sw_callers w = [BeginDone True]
    \<and> sw_run w = RunAccepting False \<and> rs_draining (sw_runtime w) \<and> rs_ready (sw_runtime w)
    \<and> \<not> watch_value W (rs_drain (sw_runtime w)) \<and> (\<forall>w'. \<not> server_step W w w')"
proof -
  have rs: "\<not> rs_draining rs" "rs_drain rs = watch_new W"
    using assms(2) by (auto simp: server_runtime_def split: sum.splits)
  define r1 where "r1 = rs\<lparr>rs_draining := True\<rparr>"
  define r2 where "r2 = r1\<lparr>rs_ready := False\<rparr>"
  define r3 where "r3 = r2\<lparr>rs_drain := watch_send W (watch_new W) True\<rparr>"
  define r4 where "r4 = r3\<lparr>rs_ready := True\<rparr>"
  define r5 where "r5 = r4\<lparr>rs_drain := watch_subscribe W (rs_drain r4)\<rparr>"
  define st :: "'a RuntimeState \<Rightarrow> run_pc \<Rightarrow> begin_pc \<Rightarrow> 'a server_world" where
    "st r pc c = \<lparr>sw_runtime = r, sw_run = pc, sw_callers = [c]\<rparr>" for r pc c
  note [simp] = st_def
  have "server_step W (st rs RunStart BeginStart) (st rs RunAdmitted BeginStart)"
    using server_step.run_admitted [of "st rs RunStart BeginStart" W] rs by simp
  moreover have "server_step W (st rs RunAdmitted BeginStart) (st r1 RunAdmitted BeginSwapped)"
    using server_step.begin_won [of 0 "st rs RunAdmitted BeginStart" W] rs by (simp add: r1_def)
  moreover have "server_step W (st r1 RunAdmitted BeginSwapped) (st r2 RunAdmitted BeginUnready)"
    using server_step.begin_unready [of 0 "st r1 RunAdmitted BeginSwapped" W] by (simp add: r2_def)
  moreover have "server_step W (st r2 RunAdmitted BeginUnready) (st r3 RunAdmitted (BeginDone True))"
    using server_step.begin_send [of 0 "st r2 RunAdmitted BeginUnready" W] rs by (simp add: r3_def r2_def r1_def)
  moreover have "server_step W (st r3 RunAdmitted (BeginDone True)) (st r4 RunReady (BeginDone True))"
    using server_step.run_ready [of "st r3 RunAdmitted (BeginDone True)" W] by (simp add: r4_def)
  moreover have "server_step W (st r4 RunReady (BeginDone True)) (st r5 (RunAccepting False) (BeginDone True))"
    using server_step.run_subscribe [of "st r4 RunReady (BeginDone True)" W] by (simp add: r5_def)
  ultimately have reach: "(server_step W)\<^sup>*\<^sup>* (st rs RunStart BeginStart) (st r5 (RunAccepting False) (BeginDone True))"
    by (meson converse_rtranclp_into_rtranclp rtranclp.rtrancl_refl)
  have stuck: "\<not> server_step W (st r5 (RunAccepting False) (BeginDone True)) w'" for w'
    by (auto elim!: server_step.cases simp: nth_Cons')
  have "\<not> watch_value W (rs_drain r5)" "rs_draining r5" "rs_ready r5"
    using assms(1) by (simp_all add: watch_laws_def r5_def r4_def r3_def r2_def r1_def)
  with reach stuck show ?thesis
    by (intro exI [of _ "st r5 (RunAccepting False) (BeginDone True)"]) (simp add: server_start_def)
qed

text \<open>A completed drain is idle: with admission stopped, \<open>drain\<close> returns true only when no connection
  and no request is active any more.\<close>

theorem drain_true_means_idle:
  assumes "(drain_step wakes)\<^sup>*\<^sup>* (drain_start c q) w" "dw_pc w = Drained True"
  shows "dw_connections w = 0 \<and> dw_requests w = 0"
proof -
  have "(dw_pc w = CheckRequests \<longrightarrow> dw_connections w = 0)
      \<and> (dw_pc w = Drained True \<longrightarrow> dw_connections w = 0 \<and> dw_requests w = 0)"
    using assms(1) by (induction rule: rtranclp_induct) (simp add: drain_start_def, blast dest: drain_step_idle)
  then show ?thesis using assms(2) by simp
qed

text \<open>Claim C31. A drain can miss the last exit: when the last connection leaves between the check of the
  counters and the creation of the \<open>notified()\<close> future, its notification wakes nobody; all work is done,
  and \<open>drain\<close> can only run into its timeout and report failure.\<close>

theorem drain_can_miss_last_exit:
  assumes "notify_laws wakes"
  shows "\<exists>w. (drain_step wakes)\<^sup>*\<^sup>* (drain_start 1 0) w \<and> dw_connections w = 0 \<and> dw_requests w = 0
    \<and> (\<forall>w'. (drain_step wakes)\<^sup>*\<^sup>* w w' \<longrightarrow> dw_pc w' \<in> {Parked, Drained False})"
proof -
  define st where "st c n pc = \<lparr>dw_connections = c, dw_requests = 0, dw_notifies = n, dw_pc = pc\<rparr>" for c n :: nat and pc
  note [simp] = st_def
  have "drain_step wakes (st 1 0 CheckConnections) (st 1 0 Arm)"
    using drain_step.check_connections [of "st 1 0 CheckConnections" wakes] by simp
  moreover have "drain_step wakes (st 1 0 Arm) (st 0 1 Arm)"
    using drain_step.connection_exits [of "st 1 0 Arm" wakes] by simp
  moreover have "drain_step wakes (st 0 1 Arm) (st 0 0 Arm)"
    using drain_step.notify [of "st 0 1 Arm" wakes] assms by (simp add: notify_laws_def)
  moreover have "drain_step wakes (st 0 0 Arm) (st 0 0 Parked)"
    using drain_step.arm [of "st 0 0 Arm" wakes] by simp
  ultimately have reach: "(drain_step wakes)\<^sup>*\<^sup>* (drain_start 1 0) (st 0 0 Parked)"
    by (simp add: drain_start_def)
  have "dw_pc w' \<in> {Parked, Drained False}" if "(drain_step wakes)\<^sup>*\<^sup>* (st 0 0 Parked) w'" for w'
  proof -
    from that have "w' \<in> {st 0 0 Parked, st 0 0 (Drained False)}"
      by (induction rule: rtranclp_induct) (auto elim!: drain_step.cases)
    then show ?thesis by auto
  qed
  with reach show ?thesis by (intro exI [of _ "st 0 0 Parked"]) simp
qed

section \<open>Witnesses\<close>

text \<open>A watch channel that is its value and its number of receivers.\<close>

definition plain_watch :: "(bool \<times> nat) watch" where
  "plain_watch = \<lparr>watch_new = (False, 0), watch_value = fst, watch_receivers = snd,
     watch_send = (\<lambda>(old, n) v. (if n = 0 then old else v, n)), watch_subscribe = (\<lambda>(old, n). (old, n + 1))\<rparr>"

lemma plain_watch_laws: "watch_laws plain_watch"
  by (simp add: watch_laws_def plain_watch_def)

definition sample_runtime :: "(bool \<times> nat) RuntimeState" where
  "sample_runtime = \<lparr>rs_ready = False, rs_active_connections = 0, rs_active_requests = 0,
     rs_max_in_flight = max_in_flight settings_default,
     rs_compression_policy = compression_policy_default
       \<lparr>cp_max_decoded_body_len := max_decoded_body_len settings_default\<rparr>,
     rs_decoded_byte_budget = \<lparr>capacity = 64 * 1024 * 1024, used = 0\<rparr>, rs_draining = False,
     rs_drain = (False, 0), rs_force_drain = (False, 0), rs_started = 0\<rparr>"

lemma sample_runtime_new: "server_runtime plain_watch settings_default 0 = Some sample_runtime"
  by (simp add: server_runtime_def budget_new_def plain_watch_def sample_runtime_def)

theorem begin_drain_once_witness:
  "winners (sw_callers (server_start sample_runtime 2)) = 0"
  using begin_drain_once [of plain_watch sample_runtime 2 "server_start sample_runtime 2"]
  by (simp add: sample_runtime_def server_start_def)


theorem drain_lost_at_startup_witness:
  "\<exists>w. (server_step plain_watch)\<^sup>*\<^sup>* (server_start sample_runtime 1) w \<and> rs_ready (sw_runtime w)
     \<and> sw_callers w = [BeginDone True]"
  using drain_lost_at_startup [OF plain_watch_laws sample_runtime_new] by auto

theorem drain_true_means_idle_witness:
  "\<exists>w. (drain_step (\<lambda>pc. pc = Parked))\<^sup>*\<^sup>* (drain_start 0 0) w \<and> dw_pc w = Drained True \<and> dw_requests w = 0"
proof -
  let ?w = "\<lambda>pc. \<lparr>dw_connections = 0, dw_requests = 0, dw_notifies = 0, dw_pc = pc\<rparr>"
  have "drain_step (\<lambda>pc. pc = Parked) (?w CheckConnections) (?w CheckRequests)"
    using drain_step.check_connections [of "?w CheckConnections" "\<lambda>pc. pc = Parked"] by simp
  moreover have "drain_step (\<lambda>pc. pc = Parked) (?w CheckRequests) (?w (Drained True))"
    using drain_step.check_requests [of "?w CheckRequests" "\<lambda>pc. pc = Parked"] by simp
  ultimately have run: "(drain_step (\<lambda>pc. pc = Parked))\<^sup>*\<^sup>* (drain_start 0 0) (?w (Drained True))"
    by (simp add: drain_start_def)
  with drain_true_means_idle [OF run] show ?thesis by auto
qed

theorem drain_can_miss_last_exit_witness:
  "\<exists>w. (drain_step (\<lambda>pc. pc = Parked))\<^sup>*\<^sup>* (drain_start 1 0) w \<and> dw_connections w = 0 \<and> dw_pc w \<noteq> Drained True"
proof -
  have "notify_laws (\<lambda>pc. pc = Parked)" by (simp add: notify_laws_def)
  from drain_can_miss_last_exit [OF this] obtain w where "(drain_step (\<lambda>pc. pc = Parked))\<^sup>*\<^sup>* (drain_start 1 0) w"
    "dw_connections w = 0" "dw_pc w \<in> {Parked, Drained False}" by blast
  then show ?thesis by auto
qed

end
