(* ===== verification/Connection.thy ===== *)
theory Connection
  imports Dispatch Response_Writer Server_Runtime
begin

text \<open>
  One connection, \<open>serve_connection\<close> of crates/moonlight-bridge-server/src/lib.rs: the handshake, the select
  loop with its frame handlers, the table of active requests and the epilogue.

  The loop state is the record \<open>conn\<close>; a turn of the loop handles one \<open>loop_event\<close>, chosen by the
  scheduler among those whose guard holds, and ends by continuing or breaking with a result.  Request tasks
  run concurrently: they finish, panic, or are dropped after an abort, and \<open>conn_step\<close> interleaves them with
  the loop.  An aborted task is dropped at its next await, so it may still run its last statements.  The
  semaphores are the parameter \<open>S\<close>, \<open>fresh\<close> is \<open>Semaphore::new(0)\<close>, \<open>sent\<close> is what the response queue
  answers to the send of a turn and \<open>bye\<close> what it answers to a closing GOODBYE.
\<close>

section \<open>Handshake\<close>

definition negotiate :: "PeerSettingsV2 \<Rightarrow> PeerSettingsV2 \<Rightarrow> PeerSettingsV2" where
  "negotiate client server =
    \<lparr>max_body_len = min (max_body_len client) (max_body_len server),
     max_decoded_body_len = min (max_decoded_body_len client) (max_decoded_body_len server),
     max_metadata_len = min (max_metadata_len client) (max_metadata_len server),
     max_in_flight = min (max_in_flight client) (max_in_flight server),
     max_concurrent_streams = min (max_concurrent_streams client) (max_concurrent_streams server),
     initial_stream_credit = min (initial_stream_credit client) (initial_stream_credit server),
     compression_codecs = compression_codecs client AND compression_codecs server,
     features = features client AND features server,
     diagnostic_features = diagnostic_features client AND diagnostic_features server\<rparr>"

text \<open>The settings, the bytes written and the unread rest of the stream.\<close>

definition handshake :: "PeerSettingsV2 \<Rightarrow> bool \<Rightarrow> bytes \<Rightarrow> io_error + PeerSettingsV2 \<times> bytes \<times> bytes" where
  "handshake server timed_out reader =
    (if timed_out then Inl (io_error_new io_kind.TimedOut ''MoonLightBridge HELLO timed out'')
     else rbind (read_frame reader (word_of_nat SETTINGS_BODY_LEN)) (\<lambda>(hello, rest).
       if kind hello \<noteq> Hello \<or> request_id hello \<noteq> 0
       then Inl (io_error_new InvalidData ''HELLO must be the first frame'')
       else rbind (map_err invalid_data (settings_decode (body hello))) (\<lambda>client.
         let negotiated = negotiate client server in
         rbind (write_frame [] (frame_new Welcome 0 0 (settings_encode negotiated))) (\<lambda>out.
         Inr (negotiated, out, rest)))))"

section \<open>State of the loop\<close>

record 's ActiveRequest =
  ar_task :: nat
  ar_credits :: "'s option"

datatype task_state = TaskRunning | TaskAborted | TaskGone

record task =
  tk_request_id :: u64
  tk_state :: task_state

text \<open>Tasks are numbered in spawn order; \<open>cn_notified\<close> is the stored permit of \<open>active_changed\<close>, \<open>cn_sent\<close> the
  frames handed to the response queue by the loop.\<close>

record 's conn =
  cn_draining :: bool
  cn_active :: "(u64, 's ActiveRequest) btree_map"
  cn_permits :: 's
  cn_tasks :: "task list"
  cn_notified :: bool
  cn_sent :: "Frame list"

datatype 's turn = Continue "'s conn" | Break "'s conn" "io_error + unit"

definition put :: "Frame \<Rightarrow> 's conn \<Rightarrow> 's conn" where
  "put f cn = cn\<lparr>cn_sent := cn_sent cn @ [f]\<rparr>"

definition control :: "FrameKind \<Rightarrow> Frame" where
  "control k = frame_new k 0 0 []"

text \<open>\<open>if responses_tx.send(..).await.is_err() { break Err(..) }\<close>, with the queue's error or the loop's own.\<close>

definition reply :: "io_error option \<Rightarrow> Frame \<Rightarrow> 's conn \<Rightarrow> 's turn" where
  "reply sent f cn = (case sent of None \<Rightarrow> Continue (put f cn) | Some e \<Rightarrow> Break cn (Inl e))"

definition reply_or_stopped :: "io_error option \<Rightarrow> Frame \<Rightarrow> 's conn \<Rightarrow> 's turn" where
  "reply_or_stopped sent f cn =
    (case sent of
       None \<Rightarrow> Continue (put f cn)
     | Some _ \<Rightarrow> Break cn (Inl (io_error_new BrokenPipe ''response writer stopped'')))"

text \<open>\<open>let _ = responses_tx.send(GOODBYE).await; break Ok(())\<close>.\<close>

definition say_goodbye :: "io_error option \<Rightarrow> 's conn \<Rightarrow> 's turn" where
  "say_goodbye sent cn = Break (if sent = None then put (control Goodbye) cn else cn) (Inr ())"

definition protocol_error :: "string \<Rightarrow> 's conn \<Rightarrow> 's turn" where
  "protocol_error m cn = Break cn (Inl (io_error_new InvalidData m))"

text \<open>The decimal digits of a number, for the one formatted message.\<close>

fun decimal :: "nat \<Rightarrow> string" where
  "decimal n = (if n < 10 then [char_of (48 + n)] else decimal (n div 10) @ [char_of (48 + n mod 10)])"

section \<open>Frame handlers\<close>

definition on_request ::
    "'s semaphore \<Rightarrow> 's \<Rightarrow> Router \<Rightarrow> PeerSettingsV2 \<Rightarrow> io_error option \<Rightarrow> Frame \<Rightarrow> 's conn \<Rightarrow> 's turn" where
  "on_request S fresh r negotiated sent frame cn =
    (if cn_draining cn then
       reply_or_stopped sent (error_frame frame Unavailable (str ''server connection is draining'')) cn
     else if request_id frame = 0 then protocol_error ''REQUEST request_id must not be zero'' cn
     else
       (case sem_try_acquire S (cn_permits cn) 1 of
          None \<Rightarrow> reply sent (error_frame frame ResourceExhausted (str ''too many active requests'')) cn
        | Some permits \<Rightarrow>
          let dropped = cn\<lparr>cn_permits := sem_release S permits 1\<rparr>;
              streaming = is_streaming r (method_id frame) in
          if streaming \<and> features negotiated AND FEATURE_SERVER_STREAMING = 0 then
            reply_or_stopped sent (error_frame frame InvalidRequest (str ''server streaming was not negotiated'')) dropped
          else if bt_contains (cn_active cn) (request_id frame) then
            protocol_error (''duplicate active request_id: '' @ decimal (unat (request_id frame))) dropped
          else Continue (cn\<lparr>cn_permits := permits,
                 cn_tasks := cn_tasks cn @ [\<lparr>tk_request_id = request_id frame, tk_state = TaskRunning\<rparr>],
                 cn_active := bt_insert (request_id frame)
                   \<lparr>ar_task = length (cn_tasks cn), ar_credits = (if streaming then Some fresh else None)\<rparr>
                   (cn_active cn)\<rparr>)))"

definition abort_task :: "nat \<Rightarrow> task list \<Rightarrow> task list" where
  "abort_task t tasks =
    (if t < length tasks \<and> tk_state (tasks ! t) = TaskRunning
     then tasks[t := (tasks ! t)\<lparr>tk_state := TaskAborted\<rparr>] else tasks)"

definition on_cancel :: "Frame \<Rightarrow> 's conn \<Rightarrow> 's turn" where
  "on_cancel frame cn =
    (case bt_get (cn_active cn) (request_id frame) of
       None \<Rightarrow> Continue cn
     | Some request \<Rightarrow>
         Continue (cn\<lparr>cn_active := bt_remove (request_id frame) (cn_active cn),
                      cn_tasks := abort_task (ar_task request) (cn_tasks cn), cn_notified := True\<rparr>))"

definition on_stream_credit :: "'s semaphore \<Rightarrow> Frame \<Rightarrow> 's conn \<Rightarrow> 's turn" where
  "on_stream_credit S frame cn =
    (if method_id frame \<noteq> 0 \<or> request_id frame = 0 \<or> length (body frame) \<noteq> 8 then
       protocol_error ''invalid STREAM_CREDIT frame'' cn
     else let count = u64_from_be_bytes (body frame) in
       if count = 0 then protocol_error ''STREAM_CREDIT must be positive'' cn
       else
         (case bt_get (cn_active cn) (request_id frame) of
            None \<Rightarrow> Continue cn
          | Some request \<Rightarrow>
            (case ar_credits request of
               None \<Rightarrow> protocol_error ''credits target a unary request'' cn
             | Some credits \<Rightarrow>
                 let available = sem_available S credits;
                     room = MAX_PERMITS - available in
                 Continue (cn\<lparr>cn_active := bt_insert (request_id frame)
                   (request\<lparr>ar_credits := Some (sem_release S credits (min (unat count) room))\<rparr>)
                   (cn_active cn)\<rparr>))))"

definition on_ping :: "io_error option \<Rightarrow> Frame \<Rightarrow> 's conn \<Rightarrow> 's turn" where
  "on_ping sent frame cn =
    (if request_id frame = 0 then protocol_error ''PING request_id must not be zero'' cn
     else reply sent (frame_new Pong 0 (request_id frame) (body frame)) cn)"

definition health_body :: "ServerHealth \<Rightarrow> bytes" where
  "health_body h =
     [VERSION, if sh_ready h then 1 else 0, 0, 0]
     @ u64_to_be_bytes (sh_active_connections h)
     @ u64_to_be_bytes (sh_active_requests h)
     @ u32_to_be_bytes (sh_max_in_flight_per_connection h)
     @ u64_to_be_bytes (word_of_nat (min (sh_uptime_millis h) (2 ^ 64 - 1)))"

definition on_health :: "ServerHealth \<Rightarrow> io_error option \<Rightarrow> Frame \<Rightarrow> 's conn \<Rightarrow> 's turn" where
  "on_health health sent frame cn =
    (if request_id frame = 0 \<or> method_id frame \<noteq> 0 \<or> body frame \<noteq> [] then
       protocol_error ''invalid HEALTH frame'' cn
     else reply sent (frame_new HealthStatus 0 (request_id frame) (health_body health)) cn)"

definition handle_frame ::
    "'s semaphore \<Rightarrow> 's \<Rightarrow> Router \<Rightarrow> PeerSettingsV2 \<Rightarrow> ServerHealth \<Rightarrow> io_error option \<Rightarrow> Frame \<Rightarrow> 's conn
      \<Rightarrow> 's turn" where
  "handle_frame S fresh r negotiated health sent frame cn =
    (case kind frame of
       Request \<Rightarrow> on_request S fresh r negotiated sent frame cn
     | Cancel \<Rightarrow> on_cancel frame cn
     | StreamCredit \<Rightarrow> on_stream_credit S frame cn
     | Ping \<Rightarrow> on_ping sent frame cn
     | Health \<Rightarrow> on_health health sent frame cn
     | Goodbye \<Rightarrow> Break cn (Inr ())
     | _ \<Rightarrow> protocol_error ''unexpected client frame kind'' cn)"

section \<open>Events\<close>

text \<open>The frame \<open>EventHub::publish\<close> broadcasts; a zero id panics.  The broadcast channel is a library.\<close>

definition event_publish :: "u32 \<Rightarrow> bytes \<Rightarrow> Frame option" where
  "event_publish event_id input = (if event_id = 0 then None else Some (frame_new Event event_id 0 input))"

definition event_hub_new :: "nat \<Rightarrow> nat option" where
  "event_hub_new backlog = (if backlog > 0 then Some backlog else None)"

section \<open>The select loop\<close>

text \<open>What an arm of the select can deliver.  An event is what was published.  The booleans of the watch
  arms: the channel is open, its current value.\<close>

datatype loop_event =
    FrameRead "io_error + Frame"
  | ReaderStopped
  | EventReceived u32 bytes
  | EventLagged
  | EventsClosed
  | DrainChanged bool bool
  | ActiveChanged
  | ForceChanged bool bool

fun arm_enabled :: "PeerSettingsV2 \<Rightarrow> 's conn \<Rightarrow> loop_event \<Rightarrow> bool" where
  "arm_enabled negotiated cn (EventReceived _ _) = (features negotiated AND FEATURE_SERVER_EVENTS \<noteq> 0)"
| "arm_enabled negotiated cn EventLagged = (features negotiated AND FEATURE_SERVER_EVENTS \<noteq> 0)"
| "arm_enabled negotiated cn EventsClosed = (features negotiated AND FEATURE_SERVER_EVENTS \<noteq> 0)"
| "arm_enabled negotiated cn (DrainChanged _ _) = (\<not> cn_draining cn)"
| "arm_enabled negotiated cn ActiveChanged = (cn_draining cn \<and> cn_notified cn)"
| "arm_enabled negotiated cn _ = True"

fun loop_turn ::
    "'s semaphore \<Rightarrow> 's \<Rightarrow> Router \<Rightarrow> PeerSettingsV2 \<Rightarrow> ServerHealth \<Rightarrow> io_error option \<Rightarrow> io_error option \<Rightarrow> loop_event \<Rightarrow> 's conn
      \<Rightarrow> 's turn" where
  "loop_turn S fresh r negotiated health sent bye (FrameRead (Inr frame)) cn =
     handle_frame S fresh r negotiated health sent frame cn"
| "loop_turn S fresh r negotiated health sent bye (FrameRead (Inl e)) cn =
     Break cn (if error_kind e = UnexpectedEof then Inr () else Inl e)"
| "loop_turn S fresh r negotiated health sent bye ReaderStopped cn =
     Break cn (Inl (io_error_new BrokenPipe ''request reader stopped unexpectedly''))"
| "loop_turn S fresh r negotiated health sent bye (EventReceived event_id input) cn =
     (case event_publish event_id input of
        None \<Rightarrow> Continue cn
      | Some frame \<Rightarrow>
          if length (body frame) > unat (max_decoded_body_len negotiated) then Continue cn else reply sent frame cn)"
| "loop_turn S fresh r negotiated health sent bye EventLagged cn = Continue cn"
| "loop_turn S fresh r negotiated health sent bye EventsClosed cn = Continue cn"
| "loop_turn S fresh r negotiated health sent bye (DrainChanged open_ch draining) cn =
     (if open_ch \<and> draining then
        (let cn' = cn\<lparr>cn_draining := True\<rparr> in
         case reply_or_stopped sent (control GoAway) cn' of
           Break c e \<Rightarrow> Break c e
         | Continue c \<Rightarrow> if cn_active c = [] then say_goodbye bye c else Continue c)
      else Continue cn)"
| "loop_turn S fresh r negotiated health sent bye ActiveChanged cn =
     (let cn' = cn\<lparr>cn_notified := False\<rparr> in
      if cn_active cn' = [] then say_goodbye bye cn' else Continue cn')"
| "loop_turn S fresh r negotiated health sent bye (ForceChanged open_ch forced) cn =
     (if \<not> open_ch \<or> forced then say_goodbye bye cn else Continue cn)"

text \<open>The state at loop entry: the drain value read at subscription, and the GOAWAY of a connection that
  starts while the server drains.\<close>

definition conn_start :: "'s \<Rightarrow> bool \<Rightarrow> io_error option \<Rightarrow> 's turn" where
  "conn_start permits draining sent =
    (let cn = \<lparr>cn_draining = draining, cn_active = [], cn_permits = permits, cn_tasks = [], cn_notified = False,
               cn_sent = []\<rparr> in
     if draining then reply sent (control GoAway) cn else Continue cn)"

section \<open>Request tasks\<close>

text \<open>The frames a request task hands to the response queue, with the parameters the connection gives it.\<close>

definition request_task ::
    "zstd \<Rightarrow> Router \<Rightarrow> PeerSettingsV2 \<Rightarrow> CompressionPolicy \<Rightarrow> PeerIdentity option \<Rightarrow> Frame \<Rightarrow> nat option
      \<Rightarrow> stream_env \<Rightarrow> BudgetInner \<Rightarrow> Frame list" where
  "request_task z r negotiated policy peer frame received env budget =
    (let rc = \<lparr>rc_codecs = compression_codecs negotiated, rc_policy = connection_compression_policy negotiated policy\<rparr>;
         limit = max_decoded_body_len negotiated in
     if is_streaming r (method_id frame)
     then so_frames (sd_out (dispatch_stream z r frame limit (max_metadata_len negotiated) rc peer received env budget))
     else (case dr_exit (dispatch_observed z r frame limit (max_metadata_len negotiated) rc peer received (se_base env) budget) of
             Replied response \<Rightarrow> [fit_outbound_frame response limit]
           | _ \<Rightarrow> []))"

definition task_live :: "task \<Rightarrow> bool" where
  "task_live t = (tk_state t \<noteq> TaskGone)"

definition task_end :: "'s semaphore \<Rightarrow> nat \<Rightarrow> 's conn \<Rightarrow> 's conn" where
  "task_end S t cn = cn\<lparr>cn_permits := sem_release S (cn_permits cn) 1,
     cn_tasks := (cn_tasks cn)[t := (cn_tasks cn ! t)\<lparr>tk_state := TaskGone\<rparr>]\<rparr>"

text \<open>The last statements of a task: remove the table entry under its request id, notify.\<close>

definition task_finish :: "'s semaphore \<Rightarrow> nat \<Rightarrow> 's conn \<Rightarrow> 's conn" where
  "task_finish S t cn =
     (task_end S t cn)\<lparr>cn_active := bt_remove (tk_request_id (cn_tasks cn ! t)) (cn_active cn), cn_notified := True\<rparr>"

inductive conn_step :: "'s semaphore \<Rightarrow> 's \<Rightarrow> Router \<Rightarrow> PeerSettingsV2 \<Rightarrow> 's conn \<Rightarrow> 's conn \<Rightarrow> bool"
  for S :: "'s semaphore" and fresh r negotiated where
  turn:
    "arm_enabled negotiated cn ev \<Longrightarrow> loop_turn S fresh r negotiated health sent bye ev cn = Continue cn' \<Longrightarrow>
     conn_step S fresh r negotiated cn cn'"
| finishes:
    "t < length (cn_tasks cn) \<Longrightarrow> task_live (cn_tasks cn ! t) \<Longrightarrow>
     conn_step S fresh r negotiated cn (task_finish S t cn)"
| panics:
    "t < length (cn_tasks cn) \<Longrightarrow> task_live (cn_tasks cn ! t) \<Longrightarrow>
     conn_step S fresh r negotiated cn (task_end S t cn)"
| dropped:
    "t < length (cn_tasks cn) \<Longrightarrow> tk_state (cn_tasks cn ! t) = TaskAborted \<Longrightarrow>
     conn_step S fresh r negotiated cn (task_end S t cn)"
| takes_credit:
    "bt_get (cn_active cn) rid = Some request \<Longrightarrow> ar_credits request = Some credits \<Longrightarrow>
     sem_try_acquire S credits 1 = Some credits' \<Longrightarrow>
     conn_step S fresh r negotiated cn
       (cn\<lparr>cn_active := bt_insert rid (request\<lparr>ar_credits := Some credits'\<rparr>) (cn_active cn)\<rparr>)"

section \<open>Epilogue\<close>

datatype writer_end = WriterEnded "io_error + unit" | WriterPanicked | WriterTimedOut

definition epilogue :: "'s conn \<Rightarrow> io_error + unit \<Rightarrow> writer_end \<Rightarrow> 's conn \<times> (io_error + unit)" where
  "epilogue cn result writer =
    (cn\<lparr>cn_active := [], cn_tasks := fold (\<lambda>(_, request). abort_task (ar_task request)) (cn_active cn) (cn_tasks cn)\<rparr>,
     (case writer of
        WriterPanicked \<Rightarrow> Inl \<lparr>error_kind = OtherError, error_detail = NoDetail\<rparr>
      | WriterEnded w \<Rightarrow> rbind result (\<lambda>_. w)
      | WriterTimedOut \<Rightarrow>
          rbind result (\<lambda>_. Inl (io_error_new io_kind.TimedOut ''response writer shutdown timed out''))))"

section \<open>Lemmas\<close>

definition live :: "'s conn \<Rightarrow> nat" where
  "live cn = length (filter task_live (cn_tasks cn))"

definition entry_ok :: "'s semaphore \<Rightarrow> ('s \<Rightarrow> bool) \<Rightarrow> task list \<Rightarrow> u64 \<times> 's ActiveRequest \<Rightarrow> bool" where
  "entry_ok S ok tasks e =
    (fst e \<noteq> 0 \<and> ar_task (snd e) < length tasks \<and> tk_request_id (tasks ! ar_task (snd e)) = fst e
     \<and> (\<forall>c. ar_credits (snd e) = Some c \<longrightarrow> ok c \<and> sem_available S c \<le> MAX_PERMITS))"

definition conn_inv :: "'s semaphore \<Rightarrow> ('s \<Rightarrow> bool) \<Rightarrow> nat \<Rightarrow> 's conn \<Rightarrow> bool" where
  "conn_inv S ok cap cn =
    (ok (cn_permits cn) \<and> sem_available S (cn_permits cn) + live cn = cap
     \<and> bt_wf (cn_active cn) \<and> list_all (entry_ok S ok (cn_tasks cn)) (cn_active cn))"

lemma count_update:
  "t < length xs \<Longrightarrow> P (xs ! t) \<Longrightarrow> \<not> P y \<Longrightarrow> length (filter P (xs[t := y])) + 1 = length (filter P xs)"
proof (induction xs arbitrary: t)
  case (Cons x xs)
  then show ?case by (cases t) auto
qed simp

lemma count_update_same:
  "t < length xs \<Longrightarrow> P (xs ! t) = P y \<Longrightarrow> length (filter P (xs[t := y])) = length (filter P xs)"
proof (induction xs arbitrary: t)
  case (Cons x xs)
  then show ?case by (cases t) auto
qed simp

lemma abort_task_simps [simp]:
  "length (abort_task t tasks) = length tasks"
  "length (filter task_live (abort_task t tasks)) = length (filter task_live tasks)"
  "i < length tasks \<Longrightarrow> tk_request_id (abort_task t tasks ! i) = tk_request_id (tasks ! i)"
  by (auto simp: abort_task_def task_live_def count_update_same nth_list_update)

lemma entry_ok_tasks:
  assumes "length tasks \<le> length tasks'"
    "\<And>i. i < length tasks \<Longrightarrow> tk_request_id (tasks' ! i) = tk_request_id (tasks ! i)"
  shows "list_all (entry_ok S ok tasks) m \<Longrightarrow> list_all (entry_ok S ok tasks') m"
  using assms by (auto simp: list_all_iff entry_ok_def)

lemma entry_ok_remove: "list_all P m \<Longrightarrow> list_all P (bt_remove k m)"
  by (simp add: bt_remove_def list_all_iff)

lemma entry_ok_insert: "list_all P m \<Longrightarrow> P (k, v) \<Longrightarrow> list_all P (bt_insert k v m)"
  using bt_insert_set [of k v m] by (auto simp: list_all_iff)

lemma conn_inv_same:
  "conn_inv S ok cap cn \<Longrightarrow> cn_permits cn' = cn_permits cn \<Longrightarrow> cn_tasks cn' = cn_tasks cn \<Longrightarrow>
   cn_active cn' = cn_active cn \<Longrightarrow> conn_inv S ok cap cn'"
  by (simp add: conn_inv_def live_def)

lemma put_sel [simp]:
  "cn_permits (put f cn) = cn_permits cn" "cn_tasks (put f cn) = cn_tasks cn" "cn_active (put f cn) = cn_active cn"
  "cn_draining (put f cn) = cn_draining cn" "cn_notified (put f cn) = cn_notified cn"
  "cn_sent (put f cn) = cn_sent cn @ [f]"
  by (simp_all add: put_def)

lemma reply_Continue:
  "reply sent f cn = Continue cn' \<longleftrightarrow> sent = None \<and> cn' = put f cn"
  "reply_or_stopped sent f cn = Continue cn' \<longleftrightarrow> sent = None \<and> cn' = put f cn"
  "protocol_error m cn \<noteq> Continue cn'" "say_goodbye sent cn \<noteq> Continue cn'"
  by (auto simp: reply_def reply_or_stopped_def protocol_error_def say_goodbye_def split: option.splits)

text \<open>What a request that does not break the connection did.\<close>

lemma on_request_Continue:
  assumes "on_request S fresh r negotiated sent f cn = Continue cn'"
  obtains (Refused) c m permits where "cn' = put (error_frame f c m) (cn\<lparr>cn_permits := permits\<rparr>)"
      "permits = cn_permits cn \<or> (\<exists>p. sem_try_acquire S (cn_permits cn) 1 = Some p \<and> permits = sem_release S p 1)"
  | (Spawned) permits where "\<not> cn_draining cn" "request_id f \<noteq> 0"
      "sem_try_acquire S (cn_permits cn) 1 = Some permits" "\<not> bt_contains (cn_active cn) (request_id f)"
      "is_streaming r (method_id f) \<Longrightarrow> features negotiated AND FEATURE_SERVER_STREAMING \<noteq> 0"
      "cn' = cn\<lparr>cn_permits := permits,
         cn_tasks := cn_tasks cn @ [\<lparr>tk_request_id = request_id f, tk_state = TaskRunning\<rparr>],
         cn_active := bt_insert (request_id f) \<lparr>ar_task = length (cn_tasks cn),
           ar_credits = (if is_streaming r (method_id f) then Some fresh else None)\<rparr> (cn_active cn)\<rparr>"
proof -
  have same: "cn\<lparr>cn_permits := cn_permits cn\<rparr> = cn" by simp
  consider "cn_draining cn" | "\<not> cn_draining cn" "sem_try_acquire S (cn_permits cn) 1 = None"
    | p where "\<not> cn_draining cn" "sem_try_acquire S (cn_permits cn) 1 = Some p" by fastforce
  then show ?thesis
  proof cases
    case 1
    with assms Refused [of Unavailable _ "cn_permits cn"] show ?thesis
      by (simp add: on_request_def reply_Continue)
  next
    case 2
    with assms Refused [of ResourceExhausted _ "cn_permits cn"] show ?thesis
      by (simp add: on_request_def reply_Continue split: if_splits)
  next
    case (3 p)
    show ?thesis
    proof (cases "is_streaming r (method_id f) \<and> features negotiated AND FEATURE_SERVER_STREAMING = 0")
      case True
      with 3 assms Refused [of InvalidRequest _ "sem_release S p 1"] show ?thesis
        by (simp add: on_request_def reply_Continue Let_def split: if_splits)
    next
      case False
      with 3 assms Spawned [of p] show ?thesis
        by (auto simp: on_request_def reply_Continue Let_def split: if_splits)
    qed
  qed
qed

lemma on_request_inv:
  assumes "pool_of S ok" "conn_inv S ok cap cn" "cap \<le> MAX_PERMITS" "ok fresh" "sem_available S fresh = 0"
    and "on_request S fresh r negotiated sent f cn = Continue cn'"
  shows "conn_inv S ok cap cn'"
  using assms(6)
proof (cases rule: on_request_Continue)
  case (Refused c m permits)
  have "ok permits \<and> sem_available S permits = sem_available S (cn_permits cn)"
  proof (cases "permits = cn_permits cn")
    case True
    then show ?thesis using assms(2) by (simp add: conn_inv_def)
  next
    case False
    then obtain p where p: "sem_try_acquire S (cn_permits cn) 1 = Some p" "permits = sem_release S p 1"
      using Refused by auto
    have a: "ok (cn_permits cn)" "sem_available S (cn_permits cn) + live cn = cap"
      using assms(2) by (simp_all add: conn_inv_def)
    from permit_pool.conserve_acquire [OF assms(1) a p(1)]
    have "ok p" "sem_available S p + (live cn + 1) = cap" by simp_all
    from permit_pool.conserve_release [OF assms(1) this assms(3), of 1] a p(2) show ?thesis by simp
  qed
  then show ?thesis using assms(2) Refused(1) by (simp add: conn_inv_def live_def)
next
  case (Spawned permits)
  have a: "ok (cn_permits cn)" "sem_available S (cn_permits cn) + live cn = cap"
    using assms(2) by (simp_all add: conn_inv_def)
  from permit_pool.conserve_acquire [OF assms(1) a Spawned(3)]
  have "ok permits" "sem_available S permits + (live cn + 1) = cap" by simp_all
  moreover have "list_all (entry_ok S ok (cn_tasks cn @ [\<lparr>tk_request_id = request_id f, tk_state = TaskRunning\<rparr>]))
      (cn_active cn)"
    by (rule entry_ok_tasks [of "cn_tasks cn"]) (use assms(2) in \<open>simp_all add: conn_inv_def nth_append\<close>)
  ultimately show ?thesis using assms(2,4,5) Spawned(2)
    by (auto simp: Spawned(6) conn_inv_def live_def task_live_def bt_insert_wf entry_ok_def intro!: entry_ok_insert)
qed

lemma conn_inv_entry:
  assumes "conn_inv S ok cap cn" "bt_get (cn_active cn) rid = Some a"
  shows "entry_ok S ok (cn_tasks cn) (rid, a)"
  using assms bt_get_Some_in [OF assms(2)] by (auto simp: conn_inv_def list_all_iff)

lemma conn_inv_credits:
  assumes "conn_inv S ok cap cn" "bt_get (cn_active cn) rid = Some a" "ok c" "sem_available S c \<le> MAX_PERMITS"
  shows "conn_inv S ok cap (cn\<lparr>cn_active := bt_insert rid (a\<lparr>ar_credits := Some c\<rparr>) (cn_active cn)\<rparr>)"
  using assms conn_inv_entry [OF assms(1,2)]
  by (auto simp: conn_inv_def live_def bt_insert_wf entry_ok_def intro!: entry_ok_insert)

lemma on_stream_credit_Continue:
  assumes "on_stream_credit S f cn = Continue cn'"
  obtains (Ignored) "cn' = cn" "bt_get (cn_active cn) (request_id f) = None"
  | (Granted) a credits where "bt_get (cn_active cn) (request_id f) = Some a" "ar_credits a = Some credits"
      "cn' = cn\<lparr>cn_active := bt_insert (request_id f) (a\<lparr>ar_credits := Some (sem_release S credits
         (min (unat (u64_from_be_bytes (body f))) (MAX_PERMITS - sem_available S credits)))\<rparr>) (cn_active cn)\<rparr>"
  using assms
  by (auto simp: on_stream_credit_def Let_def reply_Continue split: if_splits option.splits)

lemma on_stream_credit_inv:
  assumes "pool_of S ok" "conn_inv S ok cap cn" "on_stream_credit S f cn = Continue cn'"
  shows "conn_inv S ok cap cn'"
  using assms(3)
proof (cases rule: on_stream_credit_Continue)
  case Ignored
  then show ?thesis using assms(2) by simp
next
  case (Granted a credits)
  let ?n = "min (unat (u64_from_be_bytes (body f))) (MAX_PERMITS - sem_available S credits)"
  have c: "ok credits" "sem_available S credits \<le> MAX_PERMITS"
    using conn_inv_entry [OF assms(2) Granted(1)] Granted(2) by (simp_all add: entry_ok_def)
  then have "sem_available S credits + ?n \<le> MAX_PERMITS" by simp
  then show ?thesis
    unfolding Granted(3)
    using permit_pool.release_available [OF assms(1) c(1)] by (intro conn_inv_credits [OF assms(2) Granted(1)]) simp_all
qed

lemma on_cancel_inv:
  assumes "conn_inv S ok cap cn" "on_cancel f cn = Continue cn'"
  shows "conn_inv S ok cap cn'"
proof (cases "bt_get (cn_active cn) (request_id f)")
  case None
  then show ?thesis using assms by (simp add: on_cancel_def)
next
  case (Some a)
  have "list_all (entry_ok S ok (abort_task (ar_task a) (cn_tasks cn))) (cn_active cn)"
    by (rule entry_ok_tasks [of "cn_tasks cn"]) (use assms(1) in \<open>simp_all add: conn_inv_def\<close>)
  then show ?thesis using assms Some
    by (auto simp: on_cancel_def conn_inv_def live_def bt_remove_wf intro: entry_ok_remove)
qed

lemma loop_turn_inv:
  assumes "pool_of S ok" "conn_inv S ok cap cn" "cap \<le> MAX_PERMITS" "ok fresh" "sem_available S fresh = 0"
    and "loop_turn S fresh r negotiated health sent bye ev cn = Continue cn'"
  shows "conn_inv S ok cap cn'"
proof -
  have frame: "conn_inv S ok cap cn'" if "handle_frame S fresh r negotiated health sent f cn = Continue cn'" for f
    using that on_request_inv [OF assms(1-5)] on_stream_credit_inv [OF assms(1,2)] on_cancel_inv [OF assms(2)]
    by (cases "kind f")
      (auto simp: handle_frame_def on_ping_def on_health_def reply_Continue split: if_splits
        intro: conn_inv_same [OF assms(2)])
  show ?thesis
  proof (cases ev)
    case (FrameRead x)
    then show ?thesis using assms(6) frame by (cases x) auto
  next
    case (EventReceived e f)
    then show ?thesis using assms(2,6)
      by (auto simp: reply_Continue split: if_splits option.splits intro: conn_inv_same [OF assms(2)])
  next
    case (DrainChanged a b)
    then show ?thesis using assms(2,6)
      by (auto simp: reply_Continue Let_def split: if_splits turn.splits intro: conn_inv_same [OF assms(2)])
  qed (use assms(2,6) in \<open>auto simp: Let_def reply_Continue split: if_splits intro: conn_inv_same [OF assms(2)]\<close>)
qed

lemma task_end_inv:
  assumes "pool_of S ok" "conn_inv S ok cap cn" "cap \<le> MAX_PERMITS"
    and "t < length (cn_tasks cn)" "task_live (cn_tasks cn ! t)"
  shows "conn_inv S ok cap (task_end S t cn)"
proof -
  let ?tasks = "(cn_tasks cn)[t := (cn_tasks cn ! t)\<lparr>tk_state := TaskGone\<rparr>]"
  have count: "length (filter task_live ?tasks) + 1 = live cn"
    using count_update [OF assms(4), of task_live] assms(5) by (simp add: live_def task_live_def)
  have a: "ok (cn_permits cn)" "sem_available S (cn_permits cn) + live cn = cap"
    using assms(2) by (simp_all add: conn_inv_def)
  have rel: "ok (sem_release S (cn_permits cn) 1) \<and> sem_available S (sem_release S (cn_permits cn) 1) + (live cn - 1) = cap"
    by (rule permit_pool.conserve_release [OF assms(1) a assms(3)]) (use count in linarith)
  then have "ok (sem_release S (cn_permits cn) 1)"
    "sem_available S (sem_release S (cn_permits cn) 1) + length (filter task_live ?tasks) = cap"
    using count by (simp, linarith)
  moreover have "list_all (entry_ok S ok ?tasks) (cn_active cn)"
    by (rule entry_ok_tasks [of "cn_tasks cn"]) (use assms(2,4) in \<open>simp_all add: conn_inv_def nth_list_update\<close>)
  ultimately show ?thesis using assms(2) by (simp add: conn_inv_def task_end_def live_def)
qed

lemma conn_step_inv:
  assumes "conn_step S fresh r negotiated cn cn'"
    and "pool_of S ok" "conn_inv S ok cap cn" "cap \<le> MAX_PERMITS" "ok fresh" "sem_available S fresh = 0"
  shows "conn_inv S ok cap cn'"
  using assms(1)
proof cases
  case (turn ev health sent bye)
  show ?thesis by (rule loop_turn_inv [OF assms(2-6) turn(2)])
next
  case (finishes t)
  then show ?thesis using task_end_inv [OF assms(2-4) finishes(2,3)]
    by (simp add: task_finish_def conn_inv_def live_def bt_remove_wf entry_ok_remove task_end_def)
next
  case (panics t)
  then show ?thesis using task_end_inv [OF assms(2-4) panics(2,3)] by simp
next
  case (dropped t)
  then show ?thesis using task_end_inv [OF assms(2-4) dropped(2)] by (simp add: task_live_def)
next
  case (takes_credit rid request credits credits')
  have c: "ok credits" "sem_available S credits \<le> MAX_PERMITS"
    using conn_inv_entry [OF assms(3) takes_credit(2)] takes_credit(3) by (simp_all add: entry_ok_def)
  show ?thesis unfolding takes_credit(1)
    using permit_pool.acquire_Some [OF assms(2) c(1) takes_credit(4)] c(2)
    by (intro conn_inv_credits [OF assms(3) takes_credit(2)]) simp_all
qed

lemma conn_reachable_inv:
  assumes "(conn_step S fresh r negotiated)\<^sup>*\<^sup>* cn0 cn" "pool_of S ok" "conn_inv S ok cap cn0"
    "cap \<le> MAX_PERMITS" "ok fresh" "sem_available S fresh = 0"
  shows "conn_inv S ok cap cn"
  using assms(1)
proof (induction rule: rtranclp_induct)
  case base
  show ?case by (rule assms(3))
next
  case (step y z)
  show ?case by (rule conn_step_inv [OF step(2) assms(2) step.IH assms(4-6)])
qed

lemma conn_start_inv:
  "ok permits \<Longrightarrow> conn_start permits draining sent = Continue cn \<Longrightarrow>
   conn_inv S ok (sem_available S permits) cn"
  by (auto simp: conn_start_def Let_def reply_Continue conn_inv_def live_def bt_wf_def split: if_splits)

lemma codec_none_both:
  fixes a b :: u32
  assumes "a AND 1 \<noteq> 0" "b AND 1 \<noteq> 0"
  shows "(a AND b) AND 1 \<noteq> 0"
  using assms by (simp add: and_one_eq odd_iff_mod_2_eq_one [symmetric] even_and_iff flip: odd_iff_mod_2_eq_one)

lemma negotiate_valid:
  "settings_valid client \<Longrightarrow> settings_valid server \<Longrightarrow> settings_valid (negotiate client server)"
  using codec_none_both by (auto simp: settings_valid_def negotiate_def min_def)

lemma and_within:
  fixes a b :: "'a::len word"
  shows "(a AND b) AND NOT a = 0" "(a AND b) AND NOT b = 0"
  by (auto intro!: bit_word_eqI simp: bit_and_iff bit_not_iff)

lemma negotiate_bounds:
  assumes "n = negotiate client server"
  shows "max_body_len n \<le> max_body_len client \<and> max_body_len n \<le> max_body_len server
    \<and> max_decoded_body_len n \<le> max_decoded_body_len client \<and> max_decoded_body_len n \<le> max_decoded_body_len server
    \<and> max_in_flight n \<le> max_in_flight client \<and> max_in_flight n \<le> max_in_flight server
    \<and> compression_codecs n AND NOT (compression_codecs client) = 0
    \<and> features n AND NOT (features server) = 0"
  using assms by (simp add: negotiate_def and_within)

lemma plain_frame_roundtrip:
  assumes "length input \<le> unat m"
  shows "write_frame [] (frame_new k mid rid input) = Inr (header_bytes (frame_header (frame_new k mid rid input)) @ input)"
    and "read_frame ((header_bytes (frame_header (frame_new k mid rid input)) @ input) @ rest) m =
      Inr (frame_new k mid rid input, rest)"
proof -
  have e: "frame_encodable (frame_new k mid rid input)"
    using le_trans [OF assms unat_u32_le_max] by (simp add: frame_encodable_def)
  then show "write_frame [] (frame_new k mid rid input) = Inr (header_bytes (frame_header (frame_new k mid rid input)) @ input)"
    by (simp add: write_frame_Inr)
  show "read_frame ((header_bytes (frame_header (frame_new k mid rid input)) @ input) @ rest) m =
      Inr (frame_new k mid rid input, rest)"
    using read_frame_encoded [OF e, of m rest] assms by simp
qed

text \<open>Ids of tasks only grow at the end, and without reuse a running task owns its table entry.\<close>

definition task_ids :: "'s conn \<Rightarrow> u64 list" where
  "task_ids cn = map tk_request_id (cn_tasks cn)"

definition owned :: "'s conn \<Rightarrow> bool" where
  "owned cn = (\<forall>t < length (cn_tasks cn). tk_state (cn_tasks cn ! t) = TaskRunning \<longrightarrow>
     (\<exists>a. bt_get (cn_active cn) (tk_request_id (cn_tasks cn ! t)) = Some a \<and> ar_task a = t))"

lemma task_ids_update:
  "t < length (cn_tasks cn) \<Longrightarrow>
   map tk_request_id ((cn_tasks cn)[t := (cn_tasks cn ! t)\<lparr>tk_state := s\<rparr>]) = task_ids cn"
  by (simp add: task_ids_def map_update list_update_same_conv)

lemma abort_task_ids: "map tk_request_id (abort_task t tasks) = map tk_request_id tasks"
  by (simp add: abort_task_def map_update list_update_same_conv)

lemma owned_same:
  "owned cn \<Longrightarrow> cn_tasks cn' = cn_tasks cn \<Longrightarrow> cn_active cn' = cn_active cn \<Longrightarrow> owned cn'"
  by (simp add: owned_def)

lemma owned_task_end:
  assumes "owned cn" "t < length (cn_tasks cn)"
  shows "owned (task_end S t cn)"
  using assms by (auto simp: owned_def task_end_def nth_list_update)

lemma owned_task_finish:
  assumes "owned cn" "t < length (cn_tasks cn)" "distinct (task_ids cn)"
  shows "owned (task_finish S t cn)"
proof -
  have "tk_request_id (cn_tasks cn ! u) \<noteq> tk_request_id (cn_tasks cn ! t)"
    if "u < length (cn_tasks cn)" "u \<noteq> t" for u
    using assms(2,3) that nth_eq_iff_index_eq [of "task_ids cn" u t] by (simp add: task_ids_def)
  then show ?thesis using assms(1,2)
    by (auto simp: owned_def task_finish_def task_end_def nth_list_update bt_get_remove)
qed

lemma owned_cancel:
  assumes "owned cn" "on_cancel f cn = Continue cn'"
  shows "owned cn'"
proof (cases "bt_get (cn_active cn) (request_id f)")
  case None
  then show ?thesis using assms by (simp add: on_cancel_def)
next
  case (Some a)
  show ?thesis unfolding owned_def
  proof (intro allI impI)
    fix t assume t: "t < length (cn_tasks cn')" "tk_state (cn_tasks cn' ! t) = TaskRunning"
    have cn': "cn' = cn\<lparr>cn_active := bt_remove (request_id f) (cn_active cn),
        cn_tasks := abort_task (ar_task a) (cn_tasks cn), cn_notified := True\<rparr>"
      using assms(2) Some by (simp add: on_cancel_def)
    then have t': "t < length (cn_tasks cn)" "tk_state (cn_tasks cn ! t) = TaskRunning" "t \<noteq> ar_task a"
      using t by (auto simp: abort_task_def nth_list_update split: if_splits)
    then obtain b where b: "bt_get (cn_active cn) (tk_request_id (cn_tasks cn ! t)) = Some b" "ar_task b = t"
      using assms(1) by (auto simp: owned_def)
    then have "tk_request_id (cn_tasks cn ! t) \<noteq> request_id f" using Some t'(3) by auto
    then show "\<exists>a. bt_get (cn_active cn') (tk_request_id (cn_tasks cn' ! t)) = Some a \<and> ar_task a = t"
      using b t'(1) by (simp add: cn' bt_get_remove)
  qed
qed

lemma owned_credit:
  assumes "owned cn" "bt_wf (cn_active cn)" "bt_get (cn_active cn) rid = Some a"
  shows "owned (cn\<lparr>cn_active := bt_insert rid (a\<lparr>ar_credits := c\<rparr>) (cn_active cn)\<rparr>)"
  using assms by (fastforce simp: owned_def bt_get_insert)

lemma owned_request:
  assumes "owned cn" "bt_wf (cn_active cn)" "on_request S fresh r negotiated sent f cn = Continue cn'"
  shows "owned cn'"
  using assms(3)
proof (cases rule: on_request_Continue)
  case (Refused c m permits)
  then show ?thesis using assms(1) by (simp add: owned_def)
next
  case (Spawned permits)
  have "tk_request_id (cn_tasks cn ! t) \<noteq> request_id f"
    if "t < length (cn_tasks cn)" "tk_state (cn_tasks cn ! t) = TaskRunning" for t
    using assms(1) that Spawned(4) by (auto simp: owned_def bt_contains_def)
  then show ?thesis using assms(1,2)
    by (auto simp: Spawned(6) owned_def nth_append bt_get_insert less_Suc_eq)
qed

lemma loop_turn_owned:
  assumes "owned cn" "bt_wf (cn_active cn)" "loop_turn S fresh r negotiated health sent bye ev cn = Continue cn'"
  shows "owned cn'"
proof -
  have frame: "owned cn'" if "handle_frame S fresh r negotiated health sent f cn = Continue cn'" for f
  proof (cases "kind f = StreamCredit")
    case True
    then have "on_stream_credit S f cn = Continue cn'" using that by (simp add: handle_frame_def)
    then show ?thesis
      by (cases rule: on_stream_credit_Continue) (use assms(1,2) owned_credit in auto)
  next
    case False
    then show ?thesis using that owned_request [OF assms(1,2)] owned_cancel [OF assms(1)]
      by (cases "kind f")
        (auto simp: handle_frame_def on_ping_def on_health_def reply_Continue split: if_splits
          intro: owned_same [OF assms(1)])
  qed
  show ?thesis
  proof (cases ev)
    case (FrameRead x)
    then show ?thesis using assms(3) frame by (cases x) auto
  next
    case (EventReceived e f)
    then show ?thesis using assms(1,3)
      by (auto simp: reply_Continue split: if_splits option.splits intro: owned_same [OF assms(1)])
  next
    case (DrainChanged a b)
    then show ?thesis using assms(1,3)
      by (auto simp: reply_Continue Let_def split: if_splits turn.splits intro: owned_same [OF assms(1)])
  qed (use assms(1,3) in \<open>auto simp: Let_def reply_Continue split: if_splits intro: owned_same [OF assms(1)]\<close>)
qed

lemma handle_frame_tasks:
  "handle_frame S fresh r negotiated health sent f cn = Continue cn' \<Longrightarrow> \<exists>ids. task_ids cn' = task_ids cn @ ids"
  by (cases "kind f")
    (auto simp: handle_frame_def on_ping_def on_health_def reply_Continue on_cancel_def abort_task_ids task_ids_def
      split: if_splits option.splits elim!: on_request_Continue on_stream_credit_Continue)

lemma conn_step_ids:
  assumes "conn_step S fresh r negotiated cn cn'"
  shows "\<exists>ids. task_ids cn' = task_ids cn @ ids"
  using assms
proof cases
  case (turn ev health sent bye)
  show ?thesis
  proof (cases ev)
    case (FrameRead x)
    then show ?thesis using turn(2) handle_frame_tasks by (cases x) auto
  next
    case (EventReceived e f)
    then show ?thesis using turn(2) by (auto simp: reply_Continue simp: task_ids_def split: if_splits option.splits)
  next
    case (DrainChanged a b)
    then show ?thesis using turn(2)
      by (auto simp: reply_Continue Let_def simp: task_ids_def split: if_splits turn.splits)
  qed (use turn(2) in \<open>auto simp: Let_def reply_Continue task_ids_def split: if_splits\<close>)
qed (auto simp: task_finish_def task_end_def task_ids_def map_update list_update_same_conv intro!: exI [of _ "[]"])

lemma conn_step_owned:
  assumes "conn_step S fresh r negotiated cn cn'" "owned cn" "bt_wf (cn_active cn)" "distinct (task_ids cn)"
  shows "owned cn'"
  using assms(1)
proof cases
  case (turn ev health sent bye)
  show ?thesis by (rule loop_turn_owned [OF assms(2,3) turn(2)])
next
  case (takes_credit rid request credits credits')
  then show ?thesis using owned_credit assms(2,3) by blast
qed (use assms(2,4) owned_task_end owned_task_finish in blast)+

lemma conn_reachable_owned:
  assumes "(conn_step S fresh r negotiated)\<^sup>*\<^sup>* cn0 cn" "owned cn0" "pool_of S ok" "conn_inv S ok cap cn0"
    "cap \<le> MAX_PERMITS" "ok fresh" "sem_available S fresh = 0"
  shows "distinct (task_ids cn) \<longrightarrow> owned cn"
  using assms(1)
proof (induction rule: rtranclp_induct)
  case base
  then show ?case using assms(2) by simp
next
  case (step y z)
  have "bt_wf (cn_active y)"
    using conn_reachable_inv [OF step(1) assms(3-7)] by (simp add: conn_inv_def)
  moreover have "distinct (task_ids z) \<Longrightarrow> distinct (task_ids y)"
    using conn_step_ids [OF step(2)] by auto
  ultimately show ?case using conn_step_owned [OF step(2)] step.IH by blast
qed

text \<open>A connection that entered its loop while the server was draining.\<close>

definition born_draining :: "'s conn \<Rightarrow> bool" where
  "born_draining cn = (cn_draining cn \<and> cn_active cn = [] \<and> cn_tasks cn = [] \<and> \<not> cn_notified cn
     \<and> list_all (\<lambda>f. kind f \<noteq> Goodbye) (cn_sent cn))"

lemma born_draining_frame:
  assumes "born_draining cn" "handle_frame S fresh r negotiated health sent f cn = tn"
  shows "case tn of Continue c \<Rightarrow> born_draining c | Break c e \<Rightarrow> c = cn"
  using assms
  by (cases "kind f"; cases sent)
    (auto simp: handle_frame_def on_ping_def on_health_def on_cancel_def on_stream_credit_def on_request_def reply_def
      reply_or_stopped_def protocol_error_def born_draining_def put_def bt_get_def error_frame_def Let_def split: if_splits)

lemma born_draining_turn:
  assumes "born_draining cn" "arm_enabled negotiated cn ev" "\<And>a b. ev \<noteq> ForceChanged a b"
    and "loop_turn S fresh r negotiated health sent bye ev cn = tn"
  shows "case tn of Continue c \<Rightarrow> born_draining c | Break c e \<Rightarrow> c = cn"
proof (cases ev)
  case (FrameRead x)
  then show ?thesis using assms(1,4) born_draining_frame [OF assms(1), of S fresh r negotiated health sent]
    by (cases x) auto
next
  case (EventReceived e f)
  then show ?thesis using assms(1,4)
    by (cases sent) (auto simp: reply_def event_publish_def born_draining_def put_def split: if_splits)
qed (use assms in \<open>auto simp: born_draining_def\<close>)

lemma born_draining_step:
  assumes "conn_step S fresh r negotiated cn cn'" "born_draining cn"
  shows "born_draining cn'"
  using assms(1)
proof cases
  case (turn ev health sent bye)
  show ?thesis
  proof (cases "\<exists>a b. ev = ForceChanged a b")
    case True
    then show ?thesis using turn(2) assms(2) by (auto simp: say_goodbye_def split: if_splits)
  next
    case False
    then show ?thesis using born_draining_turn [OF assms(2) turn(1)] turn(2) by fastforce
  qed
qed (use assms(2) in \<open>auto simp: born_draining_def bt_get_def\<close>)

lemma handle_frame_sent:
  "handle_frame S fresh r negotiated health sent f cn = Continue cn' \<Longrightarrow> \<exists>fs. cn_sent cn' = cn_sent cn @ fs"
  by (cases "kind f")
    (auto simp: handle_frame_def on_ping_def on_health_def reply_Continue on_cancel_def
      split: if_splits option.splits elim!: on_request_Continue on_stream_credit_Continue)

lemma conn_step_sent:
  assumes "conn_step S fresh r negotiated cn cn'"
  shows "\<exists>fs. cn_sent cn' = cn_sent cn @ fs"
  using assms
proof cases
  case (turn ev health sent bye)
  show ?thesis
  proof (cases ev)
    case (FrameRead x)
    then show ?thesis using turn(2) handle_frame_sent by (cases x) auto
  next
    case (DrainChanged a b)
    then show ?thesis using turn(2)
      by (auto simp: reply_Continue Let_def split: if_splits turn.splits)
  qed (use turn(2) in \<open>auto simp: Let_def reply_Continue split: if_splits option.splits\<close>)
qed (auto simp: task_finish_def task_end_def)

section \<open>Properties\<close>

text \<open>The handshake agrees: a HELLO with valid settings is answered with a WELCOME that the client
  reads back as exactly the settings the server goes on with; no limit exceeds either side's, codecs
  and features are common to both, the settings are valid, and the bytes after the HELLO are left for the
  reader.\<close>

theorem handshake_agrees:
  assumes "settings_valid client" "settings_valid server"
    and "write_frame [] (frame_new Hello 0 0 (settings_encode client)) = Inr hello"
    and "n = negotiate client server"
  shows "\<exists>out. handshake server False (hello @ rest) = Inr (n, out, rest)
    \<and> read_frame out 44 = Inr (frame_new Welcome 0 0 (settings_encode n), [])
    \<and> settings_decode (settings_encode n) = Inr n
    \<and> max_body_len n \<le> max_body_len client \<and> max_body_len n \<le> max_body_len server
    \<and> max_decoded_body_len n \<le> max_decoded_body_len client \<and> max_decoded_body_len n \<le> max_decoded_body_len server
    \<and> max_in_flight n \<le> max_in_flight client \<and> max_in_flight n \<le> max_in_flight server
    \<and> compression_codecs n AND NOT (compression_codecs client) = 0
    \<and> features n AND NOT (features server) = 0"
proof -
  have v: "settings_valid n" using negotiate_valid assms by simp
  let ?h = "frame_new Hello 0 0 (settings_encode client)"
  let ?w = "frame_new Welcome 0 0 (settings_encode n)"
  have hello: "hello = header_bytes (frame_header ?h) @ settings_encode client"
    using plain_frame_roundtrip(1) [of "settings_encode client" 44 Hello 0 0] assms(3)
    by (simp add: SETTINGS_BODY_LEN_def)
  have r: "read_frame (hello @ rest) 44 = Inr (?h, rest)"
    unfolding hello by (rule plain_frame_roundtrip(2)) (simp add: SETTINGS_BODY_LEN_def)
  have w: "write_frame [] ?w = Inr (header_bytes (frame_header ?w) @ settings_encode n)"
    by (rule plain_frame_roundtrip(1) [of _ 44]) (simp add: SETTINGS_BODY_LEN_def)
  have rw: "read_frame (header_bytes (frame_header ?w) @ settings_encode n) 44 = Inr (?w, [])"
    using plain_frame_roundtrip(2) [of "settings_encode n" 44 Welcome 0 0 "[]"] by (simp add: SETTINGS_BODY_LEN_def)
  have "handshake server False (hello @ rest) = Inr (n, header_bytes (frame_header ?w) @ settings_encode n, rest)"
    using r w assms(1,4) by (simp add: handshake_def SETTINGS_BODY_LEN_def settings_decode_encode Let_def del: rbind_eq_Inr)
  then show ?thesis using rw v negotiate_bounds [OF assms(4)] by (simp add: settings_decode_encode)
qed

text \<open>Claim C7. Requests in flight are bounded: however frames, events, drains and request tasks interleave, the
  tasks alive never exceed the negotiated limit, and the free permits and the live tasks always add up to
  it, also after panics, refusals and cancellations.\<close>

theorem in_flight_bounded:
  assumes "pool_of S ok" "ok permits" "ok fresh" "sem_available S fresh = 0"
    and "sem_available S permits = unat (max_in_flight negotiated)"
    and "conn_start permits draining sent = Continue cn0"
    and "(conn_step S fresh r negotiated)\<^sup>*\<^sup>* cn0 cn"
  shows "length (filter task_live (cn_tasks cn)) \<le> unat (max_in_flight negotiated)
    \<and> sem_available S (cn_permits cn) + length (filter task_live (cn_tasks cn)) = unat (max_in_flight negotiated)"
proof -
  have "unat (max_in_flight negotiated) \<le> MAX_PERMITS"
    using unat_u32_le_max [of "max_in_flight negotiated"]
    by (simp add: MAX_PERMITS_def usize_max_def u32_max_def)
  then have "conn_inv S ok (unat (max_in_flight negotiated)) cn"
    using conn_reachable_inv [OF assms(7,1) conn_start_inv [where ok = ok, OF assms(2,6)]] assms(3-5) by simp
  then show ?thesis by (simp add: conn_inv_def live_def)
qed

text \<open>Claim C20. Cancellation reaches a running request: as long as the client does not reuse a request id, every
  request still running is in the table under its own task, so a CANCEL for it aborts exactly that task
  and leaves the others as they are.\<close>

theorem cancel_reaches_running:
  assumes "pool_of S ok" "ok permits" "ok fresh" "sem_available S fresh = 0"
    and "sem_available S permits \<le> MAX_PERMITS"
    and "conn_start permits draining sent = Continue cn0"
    and "(conn_step S fresh r negotiated)\<^sup>*\<^sup>* cn0 cn"
    and "distinct (map tk_request_id (cn_tasks cn))"
    and "t < length (cn_tasks cn)" "tk_state (cn_tasks cn ! t) = TaskRunning"
    and "request_id f = tk_request_id (cn_tasks cn ! t)"
  shows "\<exists>cn'. on_cancel f cn = Continue cn'
    \<and> cn_tasks cn' = (cn_tasks cn)[t := (cn_tasks cn ! t)\<lparr>tk_state := TaskAborted\<rparr>]
    \<and> bt_get (cn_active cn') (request_id f) = None \<and> cn_notified cn'"
proof -
  have "owned cn0" using assms(6) by (auto simp: conn_start_def Let_def reply_Continue owned_def split: if_splits)
  then have "owned cn"
    using conn_reachable_owned [OF assms(7) _ assms(1) conn_start_inv [where ok = ok, OF assms(2,6)] assms(5,3,4)] assms(8)
    by (simp add: task_ids_def)
  then obtain a where "bt_get (cn_active cn) (request_id f) = Some a" "ar_task a = t"
    using assms(9-11) by (auto simp: owned_def)
  then show ?thesis using assms(9,10) by (simp add: on_cancel_def abort_task_def bt_get_remove)
qed

text \<open>Claim C27. Reusing a cancelled id can orphan a request: an aborted task that is past its last await still
  removes the table entry under its id, which may already belong to the next request with that id; that
  request then runs without an entry, and a CANCEL for it does nothing.\<close>

theorem cancel_reuse_orphans_task:
  assumes "pool_of S ok" "ok permits" "sem_available S permits \<ge> 2" "rid \<noteq> 0"
    and "\<not> is_streaming r mid"
    and "conn_start permits False None = Continue cn0"
  shows "\<exists>cn. (conn_step S fresh r negotiated)\<^sup>*\<^sup>* cn0 cn
    \<and> cn_tasks cn ! 1 = \<lparr>tk_request_id = rid, tk_state = TaskRunning\<rparr>
    \<and> on_cancel (frame_new Cancel 0 rid []) cn = Continue cn"
proof -
  obtain p1 where p1: "sem_try_acquire S permits 1 = Some p1"
    using permit_pool.acquire_None [OF assms(1,2), of 1] assms(3) by (cases "sem_try_acquire S permits 1") auto
  then have "ok p1" "sem_available S p1 \<ge> 1"
    using permit_pool.acquire_Some [OF assms(1,2) p1] assms(3) by auto
  then obtain p2 where p2: "sem_try_acquire S p1 1 = Some p2"
    using permit_pool.acquire_None [OF assms(1), of p1 1] by (cases "sem_try_acquire S p1 1") auto
  define st where "st act p ts b = \<lparr>cn_draining = False, cn_active = act, cn_permits = p, cn_tasks = ts,
      cn_notified = b, cn_sent = []\<rparr>" for act and p :: 'a and ts b
  define tk where "tk s = \<lparr>tk_request_id = rid, tk_state = s\<rparr>" for s
  define en where "en n = (rid, \<lparr>ar_task = n, ar_credits = None :: 'a option\<rparr>)" for n
  let ?q = "frame_new Request mid rid []"
  have turn: "conn_step S fresh r negotiated c c'"
    if "handle_frame S fresh r negotiated undefined None f c = Continue c'" for f c c'
    using conn_step.turn [of negotiated c "FrameRead (Inr f)" S fresh r undefined None None c'] that by simp
  have cn0: "cn0 = st [] permits [] False" using assms(6) by (simp add: conn_start_def st_def)
  have "conn_step S fresh r negotiated cn0 (st [en 0] p1 [tk TaskRunning] False)"
    by (rule turn [of ?q]) (use assms(4,5) p1 in \<open>simp add: cn0 handle_frame_def on_request_def st_def en_def tk_def
      bt_contains_def bt_get_def\<close>)
  moreover have "conn_step S fresh r negotiated (st [en 0] p1 [tk TaskRunning] False)
      (st [] p1 [tk TaskAborted] True)"
    by (rule turn [of "frame_new Cancel 0 rid []"])
      (simp add: handle_frame_def on_cancel_def st_def en_def tk_def bt_get_def bt_remove_def abort_task_def)
  moreover have "conn_step S fresh r negotiated (st [] p1 [tk TaskAborted] True)
      (st [en 1] p2 [tk TaskAborted, tk TaskRunning] True)"
    by (rule turn [of ?q]) (use assms(4,5) p2 in \<open>simp add: handle_frame_def on_request_def st_def en_def tk_def
      bt_contains_def bt_get_def\<close>)
  moreover have "conn_step S fresh r negotiated (st [en 1] p2 [tk TaskAborted, tk TaskRunning] True)
      (task_finish S 0 (st [en 1] p2 [tk TaskAborted, tk TaskRunning] True))"
    by (rule conn_step.finishes) (simp_all add: st_def tk_def task_live_def)
  ultimately have "(conn_step S fresh r negotiated)\<^sup>*\<^sup>* cn0
      (task_finish S 0 (st [en 1] p2 [tk TaskAborted, tk TaskRunning] True))"
    by (meson converse_rtranclp_into_rtranclp rtranclp.rtrancl_refl)
  then show ?thesis
    by (intro exI [of _ "task_finish S 0 (st [en 1] p2 [tk TaskAborted, tk TaskRunning] True)"] conjI)
      (simp_all add: task_finish_def task_end_def st_def en_def tk_def on_cancel_def bt_remove_def bt_get_def)
qed

text \<open>Stream credits saturate: a STREAM_CREDIT for a running stream adds its 64-bit count, capped so that
  the credits never exceed what the semaphore can hold; adding to it cannot panic.\<close>

theorem stream_credits_saturate:
  assumes "pool_of S ok" "bt_wf (cn_active cn)"
    and "bt_get (cn_active cn) rid = Some a" "ar_credits a = Some c" "ok c" "sem_available S c \<le> MAX_PERMITS"
    and "rid \<noteq> 0" "n \<noteq> 0"
  shows "\<exists>cn' a' c'. on_stream_credit S (frame_new StreamCredit 0 rid (u64_to_be_bytes n)) cn = Continue cn'
    \<and> bt_get (cn_active cn') rid = Some a' \<and> ar_task a' = ar_task a \<and> ar_credits a' = Some c'
    \<and> sem_available S c' = min (sem_available S c + unat n) MAX_PERMITS \<and> cn_permits cn' = cn_permits cn"
proof -
  let ?n = "min (unat n) (MAX_PERMITS - sem_available S c)"
  have "sem_available S c + ?n \<le> MAX_PERMITS" using assms(6) by simp
  from permit_pool.release_available [OF assms(1,5) this]
  have "sem_available S (sem_release S c ?n) = min (sem_available S c + unat n) MAX_PERMITS"
    using assms(6) by linarith
  then show ?thesis using assms(2-4,7,8) by (simp add: on_stream_credit_def Let_def bt_get_insert)
qed

text \<open>Claim C28. A connection that enters its loop while the server is already draining is never released: it
  announces GOAWAY and refuses every request, but no event other than the forced shutdown ever makes it
  send GOODBYE, although it has no request to wait for.\<close>

theorem late_connection_never_released:
  assumes "conn_start permits True None = Continue cn0"
    and "(conn_step S fresh r negotiated)\<^sup>*\<^sup>* cn0 cn"
    and "arm_enabled negotiated cn ev" "\<And>a b. ev \<noteq> ForceChanged a b"
    and "loop_turn S fresh r negotiated health sent bye ev cn = tn"
  shows "cn_active cn = [] \<and> cn_draining cn \<and> hd (cn_sent cn) = control GoAway
    \<and> (case tn of Continue c \<Rightarrow> list_all (\<lambda>f. kind f \<noteq> Goodbye) (cn_sent c)
        | Break c _ \<Rightarrow> list_all (\<lambda>f. kind f \<noteq> Goodbye) (cn_sent c))"
proof -
  have cn0: "born_draining cn0" "cn_sent cn0 = [control GoAway]"
    using assms(1) by (auto simp: conn_start_def reply_def born_draining_def put_def control_def)
  have born: "born_draining cn"
    using assms(2) cn0(1) by (induction rule: rtranclp_induct) (auto intro: born_draining_step)
  have "\<exists>rest. cn_sent cn = control GoAway # rest"
    using assms(2)
  proof (induction rule: rtranclp_induct)
    case (step y z)
    then show ?case using conn_step_sent [OF step(2)] by auto
  qed (simp add: cn0(2))
  then show ?thesis
    using born born_draining_turn [OF born assms(3,4,5)] by (cases tn) (auto simp: born_draining_def)
qed

section \<open>Witnesses\<close>

definition sample_negotiated :: PeerSettingsV2 where
  "sample_negotiated = settings_default\<lparr>max_in_flight := 2\<rparr>"

definition sample_hello :: bytes where
  "sample_hello = header_bytes (frame_header (frame_new Hello 0 0 (settings_encode settings_default)))
     @ settings_encode settings_default"

theorem handshake_agrees_witness:
  "\<exists>out. handshake sample_negotiated False (sample_hello @ [1]) =
     Inr (negotiate settings_default sample_negotiated, out, [1])"
proof -
  have v: "settings_valid settings_default" "settings_valid sample_negotiated"
    by (simp_all add: settings_valid_def sample_negotiated_def settings_default_def DEFAULT_MAX_BODY_LEN_def
        DEFAULT_MAX_IN_FLIGHT_def COMPRESSION_CODEC_NONE_def COMPRESSION_CODEC_ZSTD_def)
  have w: "write_frame [] (frame_new Hello 0 0 (settings_encode settings_default)) = Inr sample_hello"
    unfolding sample_hello_def
    by (rule plain_frame_roundtrip(1) [of _ 44]) (simp add: SETTINGS_BODY_LEN_def)
  from handshake_agrees [OF v w refl, of "[1]"] show ?thesis by auto
qed

lemma counter_sels [simp]:
  "sem_available counter_semaphore n = n" "sem_try_acquire counter_semaphore n k = (if n < k then None else Some (n - k))"
  "sem_release counter_semaphore n k = n + k"
  by (simp_all add: counter_semaphore_def)

theorem in_flight_bounded_witness:
  "\<exists>cn0. conn_start (2 :: nat) False None = Continue cn0
     \<and> length (filter task_live (cn_tasks cn0)) \<le> unat (max_in_flight sample_negotiated)"
proof -
  obtain cn0 where s: "conn_start (2 :: nat) False None = Continue cn0" by (simp add: conn_start_def)
  show ?thesis
    using in_flight_bounded [OF counter_semaphore_pool _ _ _ _ s rtranclp.rtrancl_refl, of 0 sample_negotiated] s
    by (simp add: sample_negotiated_def)
qed

theorem cancel_reaches_running_witness:
  "\<exists>cn0 cn cn'. conn_start (2 :: nat) False None = Continue cn0
     \<and> (conn_step counter_semaphore 0 sample_router sample_negotiated)\<^sup>*\<^sup>* cn0 cn
     \<and> on_cancel (frame_new Cancel 0 5 []) cn = Continue cn' \<and> tk_state (cn_tasks cn' ! 0) = TaskAborted"
proof -
  obtain cn0 where s: "conn_start (2 :: nat) False None = Continue cn0" by (simp add: conn_start_def)
  define cn where "cn = \<lparr>cn_draining = False, cn_active = [(5, \<lparr>ar_task = 0, ar_credits = None\<rparr>)],
    cn_permits = 1 :: nat, cn_tasks = [\<lparr>tk_request_id = 5, tk_state = TaskRunning\<rparr>], cn_notified = False, cn_sent = []\<rparr>"
  have "loop_turn counter_semaphore 0 sample_router sample_negotiated undefined None None
      (FrameRead (Inr (frame_new Request 7 5 []))) cn0 = Continue cn"
    using s by (auto simp: conn_start_def handle_frame_def on_request_def cn_def is_streaming_def bt_contains_def bt_get_def)
  then have "conn_step counter_semaphore 0 sample_router sample_negotiated cn0 cn"
    by (intro conn_step.turn [of _ _ "FrameRead (Inr (frame_new Request 7 5 []))"]) simp_all
  then have run: "(conn_step counter_semaphore 0 sample_router sample_negotiated)\<^sup>*\<^sup>* cn0 cn" by simp
  have "\<exists>cn'. on_cancel (frame_new Cancel 0 5 []) cn = Continue cn'
      \<and> cn_tasks cn' = (cn_tasks cn)[0 := (cn_tasks cn ! 0)\<lparr>tk_state := TaskAborted\<rparr>]"
    using cancel_reaches_running [OF counter_semaphore_pool _ _ _ _ s run, of 0 "frame_new Cancel 0 5 []"]
    by (auto simp: cn_def MAX_PERMITS_def usize_max_def)
  then show ?thesis using s run by (auto simp: cn_def)
qed

theorem cancel_reuse_orphans_task_witness:
  "\<exists>cn0 cn. conn_start (2 :: nat) False None = Continue cn0
     \<and> (conn_step counter_semaphore 0 sample_router sample_negotiated)\<^sup>*\<^sup>* cn0 cn
     \<and> cn_tasks cn ! 1 = \<lparr>tk_request_id = 5, tk_state = TaskRunning\<rparr>
     \<and> on_cancel (frame_new Cancel 0 5 []) cn = Continue cn"
proof -
  obtain cn0 where s: "conn_start (2 :: nat) False None = Continue cn0" by (simp add: conn_start_def)
  show ?thesis
    using cancel_reuse_orphans_task [OF counter_semaphore_pool _ _ _ _ s, of 5 sample_router 7 0 sample_negotiated] s
    by (auto simp: is_streaming_def bt_contains_def bt_get_def)
qed

theorem stream_credits_saturate_witness:
  "\<exists>cn' a' c'. on_stream_credit counter_semaphore (frame_new StreamCredit 0 5 (u64_to_be_bytes 3))
        \<lparr>cn_draining = False, cn_active = [(5, \<lparr>ar_task = 0, ar_credits = Some (4 :: nat)\<rparr>)], cn_permits = 1,
         cn_tasks = [], cn_notified = False, cn_sent = []\<rparr> = Continue cn'
     \<and> bt_get (cn_active cn') 5 = Some a' \<and> ar_credits a' = Some c' \<and> c' = 7"
  using stream_credits_saturate [OF counter_semaphore_pool, of "\<lparr>cn_draining = False,
      cn_active = [(5, \<lparr>ar_task = 0, ar_credits = Some (4 :: nat)\<rparr>)], cn_permits = 1, cn_tasks = [],
      cn_notified = False, cn_sent = []\<rparr>" 5 "\<lparr>ar_task = 0, ar_credits = Some 4\<rparr>" 4 3]
  by (auto simp: bt_wf_def bt_get_def MAX_PERMITS_def usize_max_def)

theorem late_connection_never_released_witness:
  "\<exists>cn0. conn_start (2 :: nat) True None = Continue cn0
     \<and> loop_turn counter_semaphore 0 sample_router sample_negotiated undefined None None
         (FrameRead (Inr (frame_new Goodbye 0 0 []))) cn0 = Break cn0 (Inr ())
     \<and> list_all (\<lambda>f. kind f \<noteq> Goodbye) (cn_sent cn0)"
proof -
  obtain cn0 where s: "conn_start (2 :: nat) True None = Continue cn0" by (simp add: conn_start_def reply_def)
  have t: "loop_turn counter_semaphore 0 sample_router sample_negotiated undefined None None
         (FrameRead (Inr (frame_new Goodbye 0 0 []))) cn0 = Break cn0 (Inr ())"
    by (simp add: handle_frame_def)
  show ?thesis
    using late_connection_never_released [OF s rtranclp.rtrancl_refl, of sample_negotiated
        "FrameRead (Inr (frame_new Goodbye 0 0 []))" counter_semaphore 0 sample_router undefined None None, OF _ _ t] s t
    by simp
qed

lemma stream_shape_frames:
  assumes "stream_shape f body_limit ob n out" "g \<in> set (so_frames out)"
  shows "method_id g = method_id f \<and> request_id g = request_id f \<and> kind g \<in> {StreamItem, StreamEnd, Error}
    \<and> (kind g \<noteq> Error \<longrightarrow> length (body g) \<le> unat body_limit)"
  using assms by (auto simp: stream_shape_def stream_ends_def stream_item_def stream_end_def error_frame_def split: if_splits)

lemma request_task_unary:
  assumes "\<not> is_streaming r (method_id f)"
    and "budget_wf budget" and "g \<in> set (request_task z r negotiated policy peer f received env budget)"
  shows "method_id g = method_id f \<and> request_id g = request_id f \<and> kind g \<in> {Response, Error}
    \<and> length (body g) \<le> unat (max_decoded_body_len negotiated)"
proof -
  obtain reply where reply: "dr_exit (dispatch_observed z r f (max_decoded_body_len negotiated) (max_metadata_len negotiated)
      \<lparr>rc_codecs = compression_codecs negotiated, rc_policy = connection_compression_policy negotiated policy\<rparr>
      peer received (se_base env) budget) = Replied reply"
    "g = fit_outbound_frame reply (max_decoded_body_len negotiated)"
    using assms(1,3) by (auto simp: request_task_def Let_def split: dispatch_exit.splits dest: sym)
  from dispatch_observed_reply [OF assms(2) refl reply(1)] obtain oc where
    "replies f (max_decoded_body_len negotiated) reply oc" by blast
  then show ?thesis using reply(2) by (cases oc) (auto simp: replies_def)
qed

text \<open>Every frame a request task submits belongs to its request: it carries the method and request id,
  a unary task submits at most one frame, a response or an error, within the negotiated decoded limit, and
  a streaming task submits items and an end within that limit or an error.\<close>

theorem task_frames_belong:
  assumes "budget_wf budget"
    and "frames = request_task z r negotiated policy peer f received env budget"
  shows "list_all (\<lambda>g. method_id g = method_id f \<and> request_id g = request_id f) frames
    \<and> (if is_streaming r (method_id f)
       then list_all (\<lambda>g. kind g = Error \<or> kind g \<in> {StreamItem, StreamEnd}
              \<and> length (body g) \<le> unat (max_decoded_body_len negotiated)) frames
       else length frames \<le> 1 \<and> list_all (\<lambda>g. kind g \<in> {Response, Error}
              \<and> length (body g) \<le> unat (max_decoded_body_len negotiated)) frames)"
proof (cases "is_streaming r (method_id f)")
  case True
  let ?rc = "\<lparr>rc_codecs = compression_codecs negotiated, rc_policy = connection_compression_policy negotiated policy\<rparr>"
  note d = dispatch_stream_sound [OF assms(1), of _ z r f "max_decoded_body_len negotiated"
      "max_metadata_len negotiated" ?rc peer received env, OF refl]
  show ?thesis using True assms(2) stream_shape_frames [OF conjunct1 [OF d]]
    by (auto simp: request_task_def Let_def list_all_iff)
next
  case False
  then have "length frames \<le> 1" using assms(2) by (auto simp: request_task_def Let_def split: dispatch_exit.splits)
  then show ?thesis using False assms(2) request_task_unary [OF False assms(1)]
    by (auto simp: list_all_iff)
qed

theorem task_frames_belong_witness:
  "list_all (\<lambda>g. method_id g = 7 \<and> request_id g = 1)
     (request_task stored_codec sample_router settings_default eager_policy None (frame_new Request 7 1 [5])
        None (sample_stream_env Ready 0) sample_budget)"
  using task_frames_belong [where f = "frame_new Request 7 1 [5]" and r = sample_router, OF _ refl, of sample_budget]
  by (simp add: sample_budget_def budget_wf_def usize_max_def)

lemma parsed_request_served:
  assumes "middleware r = []" and "bt_get (handlers r) (method_id f) = Some h" and "h (payload q) = Returned (Inr out)"
    and "\<not> is_streaming r (method_id f)" and "completes (deadline q) (env_takes (se_base env))"
    and "length out \<le> unat (max_decoded_body_len negotiated)"
    and p: "request_payload z f (max_metadata_len negotiated)
      \<lparr>rc_codecs = compression_codecs negotiated, rc_policy = connection_compression_policy negotiated policy\<rparr> False
      (env_timing (se_base env)) budget = (Inr q, f\<lparr>body := []\<rparr>, budget')" "metadata q = None"
  shows "request_task z r negotiated policy peer f received env budget =
    [frame_new Response (method_id f) (request_id f) out]"
proof -
  let ?rc = "\<lparr>rc_codecs = compression_codecs negotiated, rc_policy = connection_compression_policy negotiated policy\<rparr>"
  from p(1) obtain s where s: "begin_dispatch z r f (max_metadata_len negotiated) ?rc received (se_base env) budget = Inr s"
      "bg_request s = q" "bg_frame s = f\<lparr>body := []\<rparr>"
    using assms(1) by (auto simp: begin_dispatch_def Let_def)
  have i: "invoke r h (request_context r (bg_frame s) (bg_request s) peer (env_ctx_now (se_base env)))
      (payload (bg_request s)) = (Returned (Inr out), [InvokeHandler (payload q)])"
    using s assms(1,3) p(2) by (simp add: invoke_def request_context_def)
  have c: "completes (deadline (bg_request s)) (env_takes (se_base env))" using s assms(5) by simp
  have h: "bt_get (handlers r) (method_id (bg_frame s)) = Some h" using s assms(2) by simp
  from dispatch_observed_handled(1) [OF s(1) h i refl c refl, of "max_decoded_body_len negotiated"] obtain stages reply deferred log where
    "conclude (bg_frame s) (max_decoded_body_len negotiated) (bg_observation s) (bg_detailed s) stages
       (env_deferred_now (se_base env)) (Inr out) = (reply, deferred, log)"
    "dr_exit (dispatch_observed z r f (max_decoded_body_len negotiated) (max_metadata_len negotiated) ?rc peer received
       (se_base env) budget) = Replied reply" by fastforce
  moreover from this(1) have "reply = frame_new Response (method_id f) (request_id f) out"
    using assms(6) s(3) by (auto simp: conclude_def Let_def split: prod.splits)
  ultimately show ?thesis using assms(4,6) by (simp add: request_task_def Let_def fit_outbound_frame_def)
qed

lemma plain_request_served:
  assumes "middleware r = []" and "bt_get (handlers r) mid = Some h" and "h input = Returned (Inr out)"
    and "\<not> is_streaming r mid" and "env_takes (se_base env) \<noteq> None"
    and "length out \<le> unat (max_decoded_body_len negotiated)"
  shows "request_task z r negotiated policy peer (frame_new Request mid rid input) received env budget =
    [frame_new Response mid rid out]"
  using parsed_request_served [OF assms(1), of "frame_new Request mid rid input" h
      "\<lparr>deadline = None, trace_context = None, metadata = None, payload = input, decompression = None, decoded_permit = None\<rparr>"
      out env negotiated z policy budget budget peer received] assms
  by (auto simp: request_payload_split request_metadata_plain completes_def)

end
