(* ===== verification/Idempotency.thy ===== *)
theory Idempotency
  imports Bridge_Prelude
begin

text \<open>
  Safe retryable mutations, crates/moonlight-bridge-server/src/idempotency.rs: the coalescing
  \<open>IdempotencyCache\<close> and the optimistic lock \<open>Revisioned\<close>.

  An \<open>Arc<Entry>\<close> is the index of its cell in \<open>cw_cells\<close>; a cell is empty until the worker sets it, once.
  The critical section of \<open>execute\<close> and the completion of a worker both run under the state mutex, so each
  is one step; any number of calls, completions and clock ticks interleave.  The operation is application
  code: a completing worker has any result, a panic being the error \<open>Indeterminate\<close>.
\<close>

section \<open>The cache\<close>

datatype 'e IdempotencyError = Operation 'e | Overloaded | Indeterminate

type_synonym ('v, 'e) op_result = "'e IdempotencyError + 'v"

record ('k, 'v, 'e) cache_world =
  cw_entries :: "('k, nat) btree_map"
  cw_completed :: "'k list"
  cw_cells :: "(nat \<times> ('v, 'e) op_result) option list"
  cw_workers :: "(nat \<times> 'k) list"
  cw_now :: nat

text \<open>\<open>new\<close> panics on a zero capacity or retention time.\<close>

definition cache_new :: "nat \<Rightarrow> nat \<Rightarrow> nat \<Rightarrow> ('k, 'v, 'e) cache_world option" where
  "cache_new cap ttl now =
    (if cap > 0 \<and> ttl > 0
     then Some \<lparr>cw_entries = [], cw_completed = [], cw_cells = [], cw_workers = [], cw_now = now\<rparr> else None)"

definition determinate :: "('v, 'e) op_result \<Rightarrow> bool" where
  "determinate r = (r \<noteq> Inl Indeterminate)"

definition entry_live :: "nat \<Rightarrow> nat \<Rightarrow> (nat \<times> ('v, 'e) op_result) option \<Rightarrow> bool" where
  "entry_live ttl now cell =
    (case cell of None \<Rightarrow> True | Some (completed, result) \<Rightarrow> \<not> determinate result \<or> now - completed < ttl)"

text \<open>The two loops over the completion queue.\<close>

fun pop_until :: "'k \<Rightarrow> ('k, nat) btree_map \<Rightarrow> 'k list \<Rightarrow> ('k, nat) btree_map \<times> 'k list" where
  "pop_until key es [] = (es, [])"
| "pop_until key es (oldest # ks) =
    (let es' = bt_remove oldest es in if oldest = key then (es', ks) else pop_until key es' ks)"

fun evict_oldest :: "('k, nat) btree_map \<Rightarrow> 'k list \<Rightarrow> bool \<times> ('k, nat) btree_map \<times> 'k list" where
  "evict_oldest es [] = (False, es, [])"
| "evict_oldest es (oldest # ks) =
    (if bt_contains es oldest then (True, bt_remove oldest es, ks) else evict_oldest es ks)"

text \<open>A new entry and its spawned worker.\<close>

definition admit :: "'k::linorder \<Rightarrow> ('k, nat) btree_map \<Rightarrow> 'k list \<Rightarrow> ('k, 'v, 'e) cache_world
    \<Rightarrow> ('k, 'v, 'e) cache_world" where
  "admit key es ks w = w\<lparr>cw_entries := bt_insert key (length (cw_cells w)) es, cw_completed := ks,
     cw_cells := cw_cells w @ [None], cw_workers := cw_workers w @ [(length (cw_cells w), key)]\<rparr>"

text \<open>The cell the caller waits for and whether it is a replay, or the admission error.\<close>

definition execute_section ::
    "nat \<Rightarrow> nat \<Rightarrow> 'k::linorder \<Rightarrow> ('k, 'v, 'e) cache_world \<Rightarrow> ('e IdempotencyError + nat \<times> bool) \<times> ('k, 'v, 'e) cache_world" where
  "execute_section cap ttl key w =
    (case bt_get (cw_entries w) key of
       Some c \<Rightarrow>
         if entry_live ttl (cw_now w) (cw_cells w ! c) then (Inr (c, True), w)
         else let (es, ks) = pop_until key (cw_entries w) (cw_completed w) in
           (Inr (length (cw_cells w), False), admit key es ks w)
     | None \<Rightarrow>
         if length (cw_entries w) \<ge> cap then
           (case evict_oldest (cw_entries w) (cw_completed w) of
              (True, es, ks) \<Rightarrow> (Inr (length (cw_cells w), False), admit key es ks w)
            | (False, es, ks) \<Rightarrow> (Inl Overloaded, w\<lparr>cw_entries := es, cw_completed := ks\<rparr>))
         else (Inr (length (cw_cells w), False), admit key (cw_entries w) (cw_completed w) w))"

definition worker_done ::
    "nat \<Rightarrow> 'k \<Rightarrow> ('v, 'e) op_result \<Rightarrow> ('k, 'v, 'e) cache_world \<Rightarrow> ('k, 'v, 'e) cache_world" where
  "worker_done c key result w =
     w\<lparr>cw_cells := (cw_cells w)[c := Some (cw_now w, result)],
       cw_completed := (if determinate result then cw_completed w @ [key] else cw_completed w),
       cw_workers := filter (\<lambda>x. x \<noteq> (c, key)) (cw_workers w)\<rparr>"

inductive cache_step :: "nat \<Rightarrow> nat \<Rightarrow> ('k::linorder, 'v, 'e) cache_world \<Rightarrow> ('k, 'v, 'e) cache_world \<Rightarrow> bool"
  for cap ttl where
  call: "cache_step cap ttl w (snd (execute_section cap ttl key w))"
| completes: "(c, key) \<in> set (cw_workers w) \<Longrightarrow> result \<noteq> Inl Overloaded \<Longrightarrow>
     cache_step cap ttl w (worker_done c key result w)"
| tick: "cache_step cap ttl w (w\<lparr>cw_now := cw_now w + n\<rparr>)"

section \<open>Waiting for the result\<close>

text \<open>The final loop of \<open>execute\<close> against the worker's last statements: set the cell, then notify.  A
  registered waiter is woken even before it parks.\<close>

datatype waiter_pc = Register | Inspect | Park | Return

datatype worker_pc = Working | Stored | Notified

record wait_world =
  ww_waiter :: waiter_pc
  ww_worker :: worker_pc
  ww_woken :: bool

inductive wait_step :: "wait_world \<Rightarrow> wait_world \<Rightarrow> bool" where
  register: "ww_waiter w = Register \<Longrightarrow> wait_step w (w\<lparr>ww_waiter := Inspect, ww_woken := False\<rparr>)"
| inspect: "ww_waiter w = Inspect \<Longrightarrow> wait_step w (w\<lparr>ww_waiter := (if ww_worker w = Working then Park else Return)\<rparr>)"
| woken: "ww_waiter w = Park \<Longrightarrow> ww_woken w \<Longrightarrow> wait_step w (w\<lparr>ww_waiter := Register\<rparr>)"
| store: "ww_worker w = Working \<Longrightarrow> wait_step w (w\<lparr>ww_worker := Stored\<rparr>)"
| notify: "ww_worker w = Stored \<Longrightarrow> wait_step w (w\<lparr>ww_worker := Notified, ww_woken := (ww_waiter w \<in> {Inspect, Park})\<rparr>)"

section \<open>Optimistic concurrency\<close>

record 't RevisionState =
  rv_revision :: u64
  rv_value :: 't

record RevisionConflict =
  rc_expected :: u64
  rc_actual :: u64

definition revisioned_new :: "'t \<Rightarrow> 't RevisionState" where
  "revisioned_new v = \<lparr>rv_revision = 0, rv_value = v\<rparr>"

definition revisioned_read :: "'t RevisionState \<Rightarrow> u64 \<times> 't" where
  "revisioned_read s = (rv_revision s, rv_value s)"

text \<open>\<open>None\<close> is the panic of the exhausted counter, after the value was already updated.\<close>

definition revisioned_update ::
    "u64 \<Rightarrow> ('t \<Rightarrow> 'r \<times> 't) \<Rightarrow> 't RevisionState \<Rightarrow> (RevisionConflict + u64 \<times> 'r) option \<times> 't RevisionState" where
  "revisioned_update expected f s =
    (if rv_revision s \<noteq> expected
     then (Some (Inl \<lparr>rc_expected = expected, rc_actual = rv_revision s\<rparr>), s)
     else
       let (output, v) = f (rv_value s); s' = s\<lparr>rv_value := v\<rparr> in
       if unat (rv_revision s) + 1 < 2 ^ 64
       then (Some (Inr (rv_revision s + 1, output)), s'\<lparr>rv_revision := rv_revision s + 1\<rparr>)
       else (None, s'))"

section \<open>Invariant\<close>

definition finished :: "('k, 'v, 'e) cache_world \<Rightarrow> 'k \<Rightarrow> bool" where
  "finished w k = (\<exists>c t r. bt_get (cw_entries w) k = Some c \<and> cw_cells w ! c = Some (t, r) \<and> determinate r)"

definition completed_at :: "('k, 'v, 'e) cache_world \<Rightarrow> 'k \<Rightarrow> nat" where
  "completed_at w k = (case bt_get (cw_entries w) k of
     Some c \<Rightarrow> (case cw_cells w ! c of Some (t, r) \<Rightarrow> t | None \<Rightarrow> 0) | None \<Rightarrow> 0)"

definition cache_inv :: "nat \<Rightarrow> ('k::linorder, 'v, 'e) cache_world \<Rightarrow> bool" where
  "cache_inv cap w =
    (bt_wf (cw_entries w) \<and> length (cw_entries w) \<le> cap
     \<and> (\<forall>k c. bt_get (cw_entries w) k = Some c \<longrightarrow> c < length (cw_cells w)
          \<and> (cw_cells w ! c = None \<longrightarrow> (c, k) \<in> set (cw_workers w)))
     \<and> distinct (map fst (cw_workers w))
     \<and> (\<forall>(c, k) \<in> set (cw_workers w). bt_get (cw_entries w) k = Some c \<and> cw_cells w ! c = None)
     \<and> distinct (cw_completed w) \<and> (\<forall>k. k \<in> set (cw_completed w) \<longleftrightarrow> finished w k)
     \<and> sorted (map (completed_at w) (cw_completed w))
     \<and> (\<forall>k \<in> set (cw_completed w). completed_at w k \<le> cw_now w))"

lemma cache_new_inv: "cache_new cap ttl now = Some w \<Longrightarrow> cache_inv cap w"
  by (auto simp: cache_new_def cache_inv_def bt_wf_def bt_get_def finished_def split: if_splits)

lemma bt_length_card: "bt_wf m \<Longrightarrow> length m = card (fst ` set m)"
proof -
  assume "bt_wf m"
  then have "distinct (map fst m)" by (simp add: bt_wf_def strict_sorted_iff)
  then have "card (set (map fst m)) = length (map fst m)" by (rule distinct_card)
  then show ?thesis by simp
qed

lemma bt_insert_length:
  "bt_wf m \<Longrightarrow> length (bt_insert k v m) = (if bt_contains m k then length m else length m + 1)"
  by (simp add: bt_length_card bt_insert_wf bt_insert_fst bt_contains_iff card_insert_if)

lemma bt_keys: "k \<in> fst ` set m \<longleftrightarrow> bt_get m k \<noteq> None"
  by (simp add: bt_get_None)

text \<open>Dropping the oldest completed entries.\<close>

definition dropped :: "'k list \<Rightarrow> ('k::linorder, nat) btree_map \<Rightarrow> ('k, nat) btree_map \<Rightarrow> bool" where
  "dropped pre es es' = (bt_wf es' \<and> (\<forall>k. bt_get es' k = (if k \<in> set pre then None else bt_get es k)))"

lemma dropped_length:
  assumes "bt_wf es" "dropped pre es es'" "\<forall>k \<in> set pre. bt_get es k \<noteq> None" "pre \<noteq> []"
  shows "length es' < length es"
proof -
  have "k \<in> fst ` set es" if "k \<in> fst ` set es'" for k
    using that assms(2) by (metis bt_keys dropped_def)
  then have sub: "fst ` set es' \<subseteq> fst ` set es" by blast
  have "fst ` set es' \<subset> fst ` set es"
  proof
    show "fst ` set es' \<subseteq> fst ` set es" by (rule sub)
    obtain k where "k \<in> set pre" using assms(4) by (meson list.set_sel(1))
    then show "fst ` set es' \<noteq> fst ` set es"
      using assms(2,3) by (metis bt_keys dropped_def)
  qed
  then show ?thesis
    using bt_length_card [OF assms(1)] bt_length_card [of es'] assms(2) psubset_card_mono [of "fst ` set es"]
    by (simp add: dropped_def)
qed

lemma dropped_remove: "bt_wf es \<Longrightarrow> dropped [k] es (bt_remove k es)"
  by (simp add: dropped_def bt_remove_wf bt_get_remove)

lemma pop_until_dropped:
  "bt_wf es \<Longrightarrow> key \<in> set ks \<Longrightarrow> \<exists>pre. ks = pre @ key # snd (pop_until key es ks)
     \<and> dropped (pre @ [key]) es (fst (pop_until key es ks))"
proof (induction ks arbitrary: es)
  case (Cons k ks)
  have wf: "bt_wf (bt_remove k es)" using Cons.prems by (simp add: bt_remove_wf)
  show ?case
  proof (cases "k = key")
    case True
    then show ?thesis using dropped_remove [OF Cons.prems(1)] by (intro exI [of _ "[]"]) simp
  next
    case False
    then obtain pre where "ks = pre @ key # snd (pop_until key (bt_remove k es) ks)"
      "dropped (pre @ [key]) (bt_remove k es) (fst (pop_until key (bt_remove k es) ks))"
      using Cons.IH [OF wf] Cons.prems by auto
    then show ?thesis using False
      by (intro exI [of _ "k # pre"]) (auto simp: dropped_def bt_get_remove)
  qed
qed simp

lemma finished_dropped:
  assumes "dropped pre (cw_entries w) es'"
  shows "finished (w\<lparr>cw_entries := es', cw_completed := post\<rparr>) k \<longleftrightarrow> finished w k \<and> k \<notin> set pre"
  using assms by (auto simp: finished_def dropped_def)

lemma cache_inv_dropped:
  assumes "cache_inv cap w" "cw_completed w = pre @ post" "dropped pre (cw_entries w) es'"
  shows "cache_inv cap (w\<lparr>cw_entries := es', cw_completed := post\<rparr>)"
    and "pre \<noteq> [] \<Longrightarrow> length es' < length (cw_entries w)"
proof -
  let ?w = "w\<lparr>cw_entries := es', cw_completed := post\<rparr>"
  have fin: "\<forall>k. k \<in> set (pre @ post) \<longleftrightarrow> finished w k" and dist: "distinct (pre @ post)"
    and wf: "bt_wf (cw_entries w)" using assms(1,2) by (simp_all add: cache_inv_def)
  have pres: "\<forall>k \<in> set pre. bt_get (cw_entries w) k \<noteq> None" using fin by (auto simp: finished_def)
  show len: "pre \<noteq> [] \<Longrightarrow> length es' < length (cw_entries w)"
    using dropped_length [OF wf assms(3) pres] .
  have le: "length es' \<le> cap"
  proof (cases "pre = []")
    case True
    then have "fst ` set es' = fst ` set (cw_entries w)"
      using assms(3) by (auto simp: set_eq_iff bt_keys dropped_def)
    then show ?thesis using bt_length_card [OF wf] bt_length_card [of es'] assms(1,3)
      by (simp add: dropped_def cache_inv_def)
  next
    case False
    then show ?thesis using len assms(1) by (simp add: cache_inv_def)
  qed
  have at: "completed_at ?w k = completed_at w k" if "k \<in> set post" for k
    using that dist assms(3) by (auto simp: completed_at_def dropped_def split: option.splits)
  have eq: "map (completed_at ?w) post = map (completed_at w) post" using at by simp
  have "sorted (map (completed_at ?w) post)"
    unfolding eq using assms(1,2) by (simp add: cache_inv_def sorted_append)
  moreover have "k \<notin> set pre" if "(c, k) \<in> set (cw_workers w)" for c k
  proof -
    have "bt_get (cw_entries w) k = Some c" "cw_cells w ! c = None"
      using assms(1) that by (auto simp: cache_inv_def)
    then have "\<not> finished w k" by (simp add: finished_def)
    then show ?thesis using fin by auto
  qed
  ultimately show "cache_inv cap ?w"
    using assms(1,3) le fin dist at assms(2)
    by (auto simp: cache_inv_def finished_dropped [OF assms(3)] dropped_def split: if_splits)
qed

lemma cache_inv_admit:
  assumes "cache_inv cap w" "bt_get (cw_entries w) key = None" "length (cw_entries w) < cap"
  shows "cache_inv cap (admit key (cw_entries w) (cw_completed w) w)"
proof -
  let ?n = "length (cw_cells w)"
  let ?w = "admit key (cw_entries w) (cw_completed w) w"
  have wf: "bt_wf (cw_entries w)" using assms(1) by (simp add: cache_inv_def)
  have get: "bt_get (cw_entries ?w) k = (if k = key then Some ?n else bt_get (cw_entries w) k)" for k
    by (simp add: admit_def bt_get_insert [OF wf])
  have cell: "bt_get (cw_entries w) k = Some c \<Longrightarrow> cw_cells ?w ! c = cw_cells w ! c" for k c
    using assms(1) by (auto simp: cache_inv_def admit_def nth_append)
  have new: "cw_cells ?w ! ?n = None" by (simp add: admit_def)
  have fin: "finished ?w k \<longleftrightarrow> finished w k" for k
    using cell new assms(2) by (auto simp: finished_def get)
  have at: "k \<in> set (cw_completed w) \<Longrightarrow> completed_at ?w k = completed_at w k" for k
    using assms(1,2) cell by (auto simp: completed_at_def get cache_inv_def finished_def)
  then have "map (completed_at ?w) (cw_completed w) = map (completed_at w) (cw_completed w)" by simp
  then have "sorted (map (completed_at ?w) (cw_completed w))" using assms(1) unfolding cache_inv_def by metis
  moreover have "\<forall>x \<in> set (cw_workers w). fst x < ?n"
    using assms(1) by (auto simp: cache_inv_def)
  moreover have "length (cw_entries ?w) \<le> cap"
    using assms(2,3) bt_insert_length [OF wf, of key ?n] by (simp add: admit_def bt_contains_def)
  moreover have "bt_wf (cw_entries ?w)" using wf by (simp add: admit_def bt_insert_wf)
  moreover have "bt_get (cw_entries w) k = Some c \<Longrightarrow> c < ?n" for k c using assms(1) by (simp add: cache_inv_def)
  ultimately show ?thesis
    using assms(1,2) fin at cell new unfolding cache_inv_def get
    by (auto simp: admit_def less_Suc_eq split: if_splits)
qed

lemma cache_inv_finished: "cache_inv cap w \<Longrightarrow> k \<in> set (cw_completed w) \<longleftrightarrow> finished w k"
  by (simp add: cache_inv_def)

text \<open>What the critical section does, under the invariant.\<close>

lemma execute_section_cases:
  assumes "cache_inv cap w" "execute_section cap ttl key w = (res, w')"
  obtains (Replayed) c where "res = Inr (c, True)" "w' = w" "bt_get (cw_entries w) key = Some c"
      "entry_live ttl (cw_now w) (cw_cells w ! c)"
  | (Overloaded) "res = Inl Overloaded" "w' = w" "bt_get (cw_entries w) key = None"
      "length (cw_entries w) = cap" "cw_completed w = []"
  | (Started) pre post es where "res = Inr (length (cw_cells w), False)" "cw_completed w = pre @ post"
      "dropped pre (cw_entries w) es" "bt_get es key = None" "length es < cap" "w' = admit key es post w"
      "case bt_get (cw_entries w) key of
         Some c \<Rightarrow> \<not> entry_live ttl (cw_now w) (cw_cells w ! c) \<and> (\<exists>pre'. pre = pre' @ [key])
       | None \<Rightarrow> length pre = (if length (cw_entries w) \<ge> cap then 1 else 0)"
proof (cases "bt_get (cw_entries w) key")
  case (Some c)
  show ?thesis
  proof (cases "entry_live ttl (cw_now w) (cw_cells w ! c)")
    case True
    then show ?thesis using assms(2) Some Replayed [of c] by (auto simp add: execute_section_def)
  next
    case False
    then have "finished w key" using Some by (auto simp: finished_def entry_live_def split: option.splits)
    then have "key \<in> set (cw_completed w)" and wf: "bt_wf (cw_entries w)"
      using assms(1) by (simp_all add: cache_inv_def)
    from pop_until_dropped [OF wf this(1)] obtain pre es post where
      p: "pop_until key (cw_entries w) (cw_completed w) = (es, post)" "cw_completed w = (pre @ [key]) @ post"
      "dropped (pre @ [key]) (cw_entries w) es"
      by (cases "pop_until key (cw_entries w) (cw_completed w)") auto
    have "length es < length (cw_entries w)" using cache_inv_dropped(2) [OF assms(1) p(2,3)] by simp
    then have "length es < cap" using assms(1) by (simp add: cache_inv_def)
    then show ?thesis
      using Started [of "pre @ [key]" post es] p False Some assms(2)
      by (simp add: execute_section_def dropped_def)
  qed
next
  case None
  show ?thesis
  proof (cases "length (cw_entries w) \<ge> cap")
    case True
    show ?thesis
    proof (cases "cw_completed w")
      case Nil
      moreover have "w\<lparr>cw_completed := []\<rparr> = w" using Nil by (cases w) simp
      ultimately show ?thesis using assms None True Overloaded by (auto simp: execute_section_def cache_inv_def)
    next
      case (Cons k ks)
      then have "finished w k" using cache_inv_finished [OF assms(1), of k] by simp
      then have c: "bt_contains (cw_entries w) k" by (auto simp: finished_def bt_contains_def)
      have d: "dropped [k] (cw_entries w) (bt_remove k (cw_entries w))"
        using assms(1) by (intro dropped_remove) (simp add: cache_inv_def)
      have len: "length (bt_remove k (cw_entries w)) < cap"
        using cache_inv_dropped(2) [OF assms(1) _ d, of ks] Cons assms(1) by (simp add: cache_inv_def)
      show ?thesis
        using Started [of "[k]" ks "bt_remove k (cw_entries w)"] Cons c d len None True assms(2)
        by (simp add: execute_section_def bt_get_remove)
    qed
  next
    case False
    moreover have "dropped [] (cw_entries w) (cw_entries w)"
      using assms(1) by (simp add: dropped_def cache_inv_def)
    ultimately show ?thesis
      using Started [of "[]" "cw_completed w" "cw_entries w"] None assms(2) by (simp add: execute_section_def)
  qed
qed

lemma execute_section_inv:
  assumes "cache_inv cap w" "execute_section cap ttl key w = (res, w')"
  shows "cache_inv cap w'"
  using assms
proof (cases rule: execute_section_cases)
  case (Started pre post es)
  have "cache_inv cap (w\<lparr>cw_entries := es, cw_completed := post\<rparr>)"
    by (rule cache_inv_dropped(1) [OF assms(1) Started(2,3)])
  from cache_inv_admit [OF this, of key] Started(4,5) show ?thesis
    by (simp add: Started(6) admit_def)
qed (use assms(1) in simp_all)

lemma worker_done_inv:
  assumes "cache_inv cap w" "(c, key) \<in> set (cw_workers w)"
  shows "cache_inv cap (worker_done c key result w)"
proof -
  let ?w = "worker_done c key result w"
  have ck: "bt_get (cw_entries w) key = Some c" "cw_cells w ! c = None" "c < length (cw_cells w)"
    using assms by (auto simp: cache_inv_def)
  have uniq: "k = key" if "bt_get (cw_entries w) k = Some c" for k
  proof -
    have "(c, k) \<in> set (cw_workers w)" using assms(1) that ck(2) by (simp add: cache_inv_def)
    moreover have "distinct (map fst (cw_workers w))" using assms(1) by (simp add: cache_inv_def)
    ultimately show ?thesis using assms(2) by (metis eq_key_imp_eq_value)
  qed
  have cell: "bt_get (cw_entries w) k = Some d \<Longrightarrow>
      cw_cells ?w ! d = (if k = key then Some (cw_now w, result) else cw_cells w ! d)" for k d
  proof (cases "k = key")
    case False
    moreover assume "bt_get (cw_entries w) k = Some d"
    ultimately have "d \<noteq> c" using uniq by blast
    then show ?thesis using False by (simp add: worker_done_def)
  qed (use ck in \<open>simp add: worker_done_def\<close>)
  have ents: "cw_entries ?w = cw_entries w" "cw_now ?w = cw_now w" by (simp_all add: worker_done_def)
  have fin: "finished ?w k \<longleftrightarrow> (if k = key then determinate result else finished w k)" for k
    using cell ck(1) by (auto simp: finished_def ents)
  have notin: "key \<notin> set (cw_completed w)"
    using ck(1,2) by (simp add: cache_inv_finished [OF assms(1)] finished_def)
  have at: "completed_at ?w k = (if k = key then cw_now w else completed_at w k)" for k
    using cell ck(1) by (auto simp: completed_at_def ents split: option.splits)
  have comp: "cw_completed ?w = cw_completed w @ (if determinate result then [key] else [])"
    by (simp add: worker_done_def)
  have eq: "map (completed_at ?w) (cw_completed w) = map (completed_at w) (cw_completed w)"
    using notin by (auto simp: at)
  have sorted: "sorted (map (completed_at ?w) (cw_completed ?w))"
    unfolding comp map_append eq using assms(1) at [of key] by (auto simp: cache_inv_def sorted_append)
  have workers: "cw_workers ?w = filter (\<lambda>x. x \<noteq> (c, key)) (cw_workers w)" by (simp add: worker_done_def)
  have dist: "distinct (map fst (cw_workers ?w))"
    using assms(1) by (simp add: workers cache_inv_def distinct_map_filter)
  have w1: "(d, k) \<in> set (cw_workers ?w) \<Longrightarrow> bt_get (cw_entries w) k = Some d \<and> cw_cells ?w ! d = None" for d k
  proof -
    assume a: "(d, k) \<in> set (cw_workers ?w)"
    then have g: "bt_get (cw_entries w) k = Some d" "cw_cells w ! d = None" "(d, k) \<noteq> (c, key)"
      using assms(1) by (auto simp: workers cache_inv_def)
    then have "k \<noteq> key" using ck(1) by auto
    then show ?thesis using cell [OF g(1)] g by simp
  qed
  have w2: "bt_get (cw_entries w) k = Some d \<Longrightarrow>
      d < length (cw_cells ?w) \<and> (cw_cells ?w ! d = None \<longrightarrow> (d, k) \<in> set (cw_workers ?w))" for d k
  proof -
    assume g: "bt_get (cw_entries w) k = Some d"
    then have i: "d < length (cw_cells w)" "cw_cells w ! d = None \<longrightarrow> (d, k) \<in> set (cw_workers w)"
      using assms(1) by (simp_all add: cache_inv_def)
    have "length (cw_cells ?w) = length (cw_cells w)" by (simp add: worker_done_def)
    then show ?thesis using i cell [OF g] by (auto simp: workers)
  qed
  have cm: "distinct (cw_completed ?w)" "\<forall>k. k \<in> set (cw_completed ?w) \<longleftrightarrow> finished ?w k"
      "\<forall>k \<in> set (cw_completed ?w). completed_at ?w k \<le> cw_now ?w"
    using assms(1) notin by (auto simp: comp fin at ents cache_inv_def)
  have base: "bt_wf (cw_entries w)" "length (cw_entries w) \<le> cap" using assms(1) by (simp_all add: cache_inv_def)
  show ?thesis unfolding cache_inv_def
    using base dist sorted w1 w2 cm unfolding ents by blast
qed

lemma cache_step_inv:
  assumes "cache_step cap ttl w w'" "cache_inv cap w"
  shows "cache_inv cap w'"
  using assms(1)
proof cases
  case (call key)
  then show ?thesis using execute_section_inv [OF assms(2)] by (metis prod.collapse)
next
  case (completes c key result)
  then show ?thesis using worker_done_inv [OF assms(2)] by simp
next
  case (tick n)
  have "finished (w\<lparr>cw_now := cw_now w + n\<rparr>) = finished w" "completed_at (w\<lparr>cw_now := cw_now w + n\<rparr>) = completed_at w"
    by (auto simp: fun_eq_iff finished_def completed_at_def split: option.splits)
  then show ?thesis using assms(2) tick by (auto simp: cache_inv_def)
qed

lemma cache_reachable_inv: "(cache_step cap ttl)\<^sup>*\<^sup>* w0 w \<Longrightarrow> cache_inv cap w0 \<Longrightarrow> cache_inv cap w"
  by (induction rule: rtranclp_induct) (auto intro: cache_step_inv)

section \<open>Properties\<close>

lemma dropped_keys:
  "dropped pre es es' \<Longrightarrow> bt_get es k \<noteq> None \<Longrightarrow> bt_get es' k = None \<Longrightarrow> k \<in> set pre"
  by (auto simp: dropped_def split: if_splits)

text \<open>Claim C32. One operation per key: whatever the interleaving of calls, completions and time, the cache never
  holds more entries than its capacity, no key has two operations running, and a call for a key whose
  operation is running joins that operation instead of starting another.\<close>

theorem idempotent_single_flight:
  assumes "cache_new cap ttl now = Some w0" "(cache_step cap ttl)\<^sup>*\<^sup>* w0 w"
  shows "length (cw_entries w) \<le> cap \<and> distinct (map snd (cw_workers w))
    \<and> (\<forall>(c, key) \<in> set (cw_workers w). execute_section cap ttl key w = (Inr (c, True), w))"
proof -
  have inv: "cache_inv cap w" using cache_reachable_inv cache_new_inv assms by blast
  have wk: "bt_get (cw_entries w) k = Some c \<and> cw_cells w ! c = None" if "(c, k) \<in> set (cw_workers w)" for c k
    using inv that by (auto simp: cache_inv_def)
  have d: "distinct (map fst (cw_workers w))" using inv by (simp add: cache_inv_def)
  have "inj_on snd (set (cw_workers w))" by (auto simp: inj_on_def dest!: wk)
  moreover have "distinct (cw_workers w)" using d by (simp add: distinct_map)
  ultimately have "distinct (map snd (cw_workers w))" by (simp add: distinct_map)
  moreover have "length (cw_entries w) \<le> cap" using inv by (simp add: cache_inv_def)
  moreover have "execute_section cap ttl k w = (Inr (c, True), w)" if "(c, k) \<in> set (cw_workers w)" for c k
    using wk [OF that] by (simp add: execute_section_def entry_live_def)
  ultimately show ?thesis by auto
qed

lemma older_expired:
  assumes inv: "cache_inv cap w" and split: "cw_completed w = (pre @ [key]) @ post"
    and d: "bt_get (cw_entries w) key = Some d" and stale: "\<not> entry_live ttl (cw_now w) (cw_cells w ! d)"
    and k: "k \<in> set (pre @ [key])"
  shows "\<exists>e t r. bt_get (cw_entries w) k = Some e \<and> cw_cells w ! e = Some (t, r) \<and> determinate r \<and> cw_now w - t \<ge> ttl"
proof -
  from stale obtain t0 r0 where "cw_cells w ! d = Some (t0, r0)"
    by (cases "cw_cells w ! d") (auto simp: entry_live_def)
  then have t0: "cw_cells w ! d = Some (t0, r0)" "cw_now w - t0 \<ge> ttl"
    using stale by (simp_all add: entry_live_def not_less)
  have "k \<in> set (cw_completed w)" using k split by auto
  then obtain e t r where e: "bt_get (cw_entries w) k = Some e" "cw_cells w ! e = Some (t, r)" "determinate r"
    using cache_inv_finished [OF inv] by (auto simp: finished_def)
  have "sorted (map (completed_at w) (pre @ [key]))" using inv split by (simp add: cache_inv_def sorted_append)
  then have "completed_at w k \<le> completed_at w key" using k by (auto simp: sorted_append)
  then have "t \<le> t0" using e d t0 by (simp add: completed_at_def)
  then show ?thesis using e t0 by auto
qed

text \<open>No operation is repeated early: a call starts a new operation for a key in the cache only when the
  earlier result is determinate and at least the retention time old, and everything it drops is that old;
  a panicked operation is never run again; a call is refused exactly when the key is new, the cache is
  full and every entry is pending or indeterminate.\<close>

theorem idempotent_no_early_rerun:
  assumes "cache_new cap ttl now = Some w0" "(cache_step cap ttl)\<^sup>*\<^sup>* w0 w"
    and "execute_section cap ttl key w = (res, w')"
  shows "(\<forall>c d k. res = Inr (c, False) \<and> bt_get (cw_entries w) key = Some d \<and> bt_get (cw_entries w) k \<noteq> None
              \<and> (k = key \<or> bt_get (cw_entries w') k = None) \<longrightarrow>
            (\<exists>e t r. bt_get (cw_entries w) k = Some e \<and> cw_cells w ! e = Some (t, r) \<and> determinate r
               \<and> cw_now w - t \<ge> ttl))
    \<and> (\<forall>c t. bt_get (cw_entries w) key = Some c \<and> cw_cells w ! c = Some (t, Inl Indeterminate) \<longrightarrow>
            res = Inr (c, True))
    \<and> (res = Inl Overloaded \<longleftrightarrow> bt_get (cw_entries w) key = None \<and> length (cw_entries w) = cap
            \<and> (\<forall>k. \<not> finished w k))"
proof -
  have inv: "cache_inv cap w" using cache_reachable_inv cache_new_inv assms(1,2) by blast
  note fin = cache_inv_finished [OF inv]
  have none: "cw_completed w = [] \<longleftrightarrow> (\<forall>k. \<not> finished w k)" by (auto simp: fin [symmetric])
  from inv assms(3) show ?thesis
  proof (cases rule: execute_section_cases)
    case (Replayed c)
    then show ?thesis by simp
  next
    case Overloaded
    then show ?thesis using none by simp
  next
    case (Started pre post es)
    have old: "\<exists>e t r. bt_get (cw_entries w) k = Some e \<and> cw_cells w ! e = Some (t, r) \<and> determinate r
        \<and> cw_now w - t \<ge> ttl"
      if d: "bt_get (cw_entries w) key = Some d" and k: "k \<in> set pre" for d k
      using older_expired [OF inv _ d] Started(2,7) d k by auto
    have get': "bt_get (cw_entries w') k = (if k = key then Some (length (cw_cells w)) else bt_get es k)" for k
      using Started(3) by (simp add: Started(6) admit_def bt_get_insert dropped_def)
    have key: "bt_get (cw_entries w) key = Some d \<Longrightarrow> key \<in> set pre" for d using Started(7) by auto
    have inpre: "bt_get (cw_entries w) k \<noteq> None \<Longrightarrow> k \<noteq> key \<Longrightarrow> bt_get (cw_entries w') k = None \<Longrightarrow> k \<in> set pre" for k
      using dropped_keys [OF Started(3)] by (simp add: get')
    have "\<exists>e t r. bt_get (cw_entries w) k = Some e \<and> cw_cells w ! e = Some (t, r) \<and> determinate r
        \<and> cw_now w - t \<ge> ttl"
      if a: "bt_get (cw_entries w) key = Some d" "bt_get (cw_entries w) k \<noteq> None"
        "k = key \<or> bt_get (cw_entries w') k = None" for d k
    proof (rule old [OF a(1)])
      show "k \<in> set pre" using key [OF a(1)] inpre a(2,3) by (cases "k = key") auto
    qed
    moreover have "\<not> (bt_get (cw_entries w) key = None \<and> length (cw_entries w) = cap \<and> (\<forall>k. \<not> finished w k))"
    proof
      assume "bt_get (cw_entries w) key = None \<and> length (cw_entries w) = cap \<and> (\<forall>k. \<not> finished w k)"
      moreover from this have "pre = []" using none Started(2) by simp
      ultimately show False using Started(7) by simp
    qed
    moreover have "\<not> (bt_get (cw_entries w) key = Some c \<and> cw_cells w ! c = Some (t, Inl Indeterminate))" for c t
      using Started(7) by (auto simp: entry_live_def determinate_def)
    ultimately show ?thesis using Started(1) by auto
  qed
qed

text \<open>No caller is left waiting: once the worker has stored the result and notified, a caller is never
  parked without a wake-up, and from every state it is one step from progress or the worker is not yet done.\<close>

theorem idempotent_waiter_not_stranded:
  assumes "wait_step\<^sup>*\<^sup>* \<lparr>ww_waiter = Register, ww_worker = Working, ww_woken = False\<rparr> w"
  shows "(ww_waiter w = Park \<and> ww_worker w = Notified \<longrightarrow> ww_woken w)
    \<and> (ww_waiter w = Return \<longrightarrow> ww_worker w \<noteq> Working)
    \<and> (ww_waiter w \<noteq> Return \<and> ww_worker w = Notified \<longrightarrow> (\<exists>w'. wait_step w w' \<and> ww_worker w' = Notified))"
proof -
  have inv: "(ww_waiter w = Park \<and> ww_worker w = Notified \<longrightarrow> ww_woken w) \<and> (ww_waiter w = Return \<longrightarrow> ww_worker w \<noteq> Working)"
    using assms by (induction rule: rtranclp_induct) (auto elim!: wait_step.cases split: if_splits)
  have "\<exists>w'. wait_step w w' \<and> ww_worker w' = Notified" if "ww_waiter w \<noteq> Return" "ww_worker w = Notified"
  proof (cases "ww_waiter w")
    case Register
    then show ?thesis using wait_step.register [of w] that by auto
  next
    case Inspect
    then show ?thesis using wait_step.inspect [of w] that by auto
  next
    case Park
    then show ?thesis using wait_step.woken [of w] that inv by auto
  qed (use that in simp)
  with inv show ?thesis by blast
qed

text \<open>Optimistic updates are never lost: an update is applied exactly when nothing was written since the
  revision it expects; it then moves the revision by one, so a second writer with the same expectation
  is refused with the actual revision and changes nothing.\<close>

theorem revision_conflict_detected:
  assumes "revisioned_read s = (seen, v)" "unat seen + 1 < 2 ^ 64"
    and "revisioned_update seen f s = (Some (Inr (seen', out)), s')"
  shows "seen' = seen + 1 \<and> seen' \<noteq> seen \<and> (out, rv_value s') = f v
    \<and> revisioned_update seen g s' = (Some (Inl \<lparr>rc_expected = seen, rc_actual = seen'\<rparr>), s')
    \<and> fst (revisioned_read s') = seen'"
proof -
  have "seen + 1 \<noteq> seen" by simp
  then show ?thesis using assms
    by (auto simp: revisioned_read_def revisioned_update_def Let_def split: if_splits prod.splits)
qed

section \<open>Witnesses\<close>

definition sample_cache :: "(nat, nat, nat) cache_world" where
  "sample_cache = \<lparr>cw_entries = [], cw_completed = [], cw_cells = [], cw_workers = [], cw_now = 0\<rparr>"

lemma sample_cache_new: "cache_new 1 5 0 = Some sample_cache"
  by (simp add: cache_new_def sample_cache_def)

definition busy_cache :: "(nat, nat, nat) cache_world" where
  "busy_cache = \<lparr>cw_entries = [(7, 0)], cw_completed = [], cw_cells = [None], cw_workers = [(0, 7)], cw_now = 0\<rparr>"

lemma busy_cache_reachable: "(cache_step 1 5)\<^sup>*\<^sup>* sample_cache busy_cache"
proof -
  have "snd (execute_section 1 5 7 sample_cache) = busy_cache"
    by (simp add: execute_section_def sample_cache_def busy_cache_def admit_def bt_get_def)
  with cache_step.call [of 1 5 sample_cache 7] show ?thesis by simp
qed

theorem idempotent_single_flight_witness:
  "execute_section 1 5 7 busy_cache = (Inr (0, True), busy_cache)"
  using idempotent_single_flight [OF sample_cache_new busy_cache_reachable] by (simp add: busy_cache_def)

theorem idempotent_no_early_rerun_witness:
  "fst (execute_section 1 5 8 busy_cache) = Inl Overloaded"
proof -
  obtain res w' where e: "execute_section 1 5 8 busy_cache = (res, w')" by fastforce
  have "\<not> finished busy_cache k" for k by (auto simp: finished_def busy_cache_def bt_get_def split: if_splits)
  with idempotent_no_early_rerun [OF sample_cache_new busy_cache_reachable e] e show ?thesis
    by (simp add: busy_cache_def bt_get_def)
qed

theorem idempotent_waiter_not_stranded_witness:
  "\<exists>w'. wait_step \<lparr>ww_waiter = Register, ww_worker = Notified, ww_woken = False\<rparr> w' \<and> ww_worker w' = Notified"
proof -
  let ?w = "\<lambda>pc. \<lparr>ww_waiter = Register, ww_worker = pc, ww_woken = False\<rparr>"
  have "wait_step (?w Working) (?w Stored)" using wait_step.store [of "?w Working"] by simp
  moreover have "wait_step (?w Stored) (?w Notified)" using wait_step.notify [of "?w Stored"] by simp
  ultimately have "wait_step\<^sup>*\<^sup>* (?w Working) (?w Notified)"
    by (meson converse_rtranclp_into_rtranclp rtranclp.rtrancl_refl)
  from idempotent_waiter_not_stranded [OF this] show ?thesis by simp
qed

theorem revision_conflict_detected_witness:
  "revisioned_update 0 (\<lambda>x. ((), x + 1)) \<lparr>rv_revision = 1, rv_value = 5 :: nat\<rparr>
     = (Some (Inl \<lparr>rc_expected = 0, rc_actual = 1\<rparr>), \<lparr>rv_revision = 1, rv_value = 5\<rparr>)"
  using revision_conflict_detected [of "revisioned_new (4 :: nat)" 0 4 "\<lambda>x. ((), x + 1)" 1 "()"
      "\<lparr>rv_revision = 1, rv_value = 5\<rparr>" "\<lambda>x. ((), x + 1)"]
  by (simp add: revisioned_new_def revisioned_read_def revisioned_update_def)

end
