(* ===== verification/Codegen_Ids.thy ===== *)
theory Codegen_Ids
  imports Bridge_Prelude
begin

text \<open>
  Wire identifiers of the generator, crates/moonlight-bridge-codegen/src/lib.rs: canonical method and event
  names, the FNV-1a \<open>method_id\<close>, the collision check \<open>validate_method_ids\<close>, and the identifier
  spellings of the generated code.

  The Protobuf descriptors are structs of the prost crate; the records keep the fields the generator reads.
  An \<open>io::Error\<close> is a constructor of \<open>codegen_error\<close> with the values its text is made of.  The spelling
  functions are modelled on ASCII text, which is what Protobuf identifiers are.
\<close>

section \<open>Descriptors\<close>

record FieldDescriptor =
  fl_name :: "bytes option"
  fl_number :: "int option"
  fl_label :: "int option"
  fl_type :: "int option"
  fl_type_name :: "bytes option"
  fl_oneof_index :: "int option"
  fl_proto3_optional :: "bool option"

record EnumDescriptor =
  en_name :: "bytes option"
  en_value :: "(bytes option \<times> int option) list"
  en_reserved_range :: "(int option \<times> int option) list"
  en_reserved_name :: "bytes list"

datatype Descriptor = Descriptor
  (ds_name: "bytes option")
  (ds_field: "FieldDescriptor list")
  (ds_reserved_range: "(int option \<times> int option) list")
  (ds_reserved_name: "bytes list")
  (ds_nested_type: "Descriptor list")
  (ds_enum_type: "EnumDescriptor list")

record MethodDescriptor =
  md_name :: "bytes option"
  md_input_type :: "bytes option"
  md_output_type :: "bytes option"
  md_client_streaming :: "bool option"
  md_server_streaming :: "bool option"

record ServiceDescriptor =
  sv_name :: "bytes option"
  sv_method :: "MethodDescriptor list"

record FileDescriptor =
  fd_name :: "bytes option"
  fd_package :: "bytes option"
  fd_java_package :: "bytes option"
  fd_message_type :: "Descriptor list"
  fd_enum_type :: "EnumDescriptor list"
  fd_service :: "ServiceDescriptor list"

datatype codegen_error =
    Missing string
  | MethodIdCollision bytes u32
  | EventIdCollision bytes u32
  | UnsupportedStreaming
  | MissingMessageType
  | NoPolicy bytes
  | UnknownType string bytes
  | InvalidProtoName

section \<open>Names and ids\<close>

definition required :: "bytes option \<Rightarrow> string \<Rightarrow> codegen_error + bytes" where
  "required value field = ok_or (Missing field) value"

definition java_package :: "FileDescriptor \<Rightarrow> codegen_error + bytes" where
  "java_package file =
    (case fd_java_package file of Some p \<Rightarrow> Inr p | None \<Rightarrow> required (fd_package file) ''proto package'')"

definition package_of :: "FileDescriptor \<Rightarrow> bytes" where
  "package_of file = (case fd_package file of Some p \<Rightarrow> p | None \<Rightarrow> [])"

definition canonical_method :: "FileDescriptor \<Rightarrow> bytes \<Rightarrow> bytes \<Rightarrow> bytes" where
  "canonical_method file service method =
    (if package_of file = [] then service @ str ''/'' @ method
     else package_of file @ str ''.'' @ service @ str ''/'' @ method)"

definition canonical_event :: "FileDescriptor \<Rightarrow> bytes \<Rightarrow> bytes" where
  "canonical_event file message = str ''event:'' @ package_of file @ str ''.'' @ message"

definition fnv_step :: "u32 \<Rightarrow> u8 \<Rightarrow> u32" where
  "fnv_step hash b = (hash XOR ucast b) * 0x01000193"

definition method_id_of :: "bytes \<Rightarrow> u32" where
  "method_id_of name = foldl fnv_step 0x811C9DC5 name"

definition ends_with :: "bytes \<Rightarrow> bytes \<Rightarrow> bool" where
  "ends_with name suffix = (length suffix \<le> length name \<and> drop (length name - length suffix) name = suffix)"

section \<open>Collision check\<close>

definition check_method :: "FileDescriptor \<Rightarrow> bytes \<Rightarrow> u32 list \<Rightarrow> MethodDescriptor \<Rightarrow> codegen_error + u32 list" where
  "check_method file service_name ids method =
     rbind (required (md_name method) ''method name'') (\<lambda>method_name.
     let canonical = canonical_method file service_name method_name;
         ident = method_id_of canonical in
     if ident \<in> set ids then Inl (MethodIdCollision canonical ident) else Inr (ident # ids))"

definition check_service :: "FileDescriptor \<Rightarrow> u32 list \<Rightarrow> ServiceDescriptor \<Rightarrow> codegen_error + u32 list" where
  "check_service file ids service =
     rbind (required (sv_name service) ''service name'') (\<lambda>service_name.
     try_fold (check_method file service_name) ids (sv_method service))"

definition check_event :: "FileDescriptor \<Rightarrow> u32 list \<Rightarrow> Descriptor \<Rightarrow> codegen_error + u32 list" where
  "check_event file ids message =
     rbind (required (ds_name message) ''message name'') (\<lambda>name.
     if ends_with name (str ''Event'') then
       let canonical = canonical_event file name;
           ident = method_id_of canonical in
       if ident = 0 \<or> ident \<in> set ids then Inl (EventIdCollision canonical ident) else Inr (ident # ids)
     else Inr ids)"

definition check_file :: "u32 list \<Rightarrow> FileDescriptor \<Rightarrow> codegen_error + u32 list" where
  "check_file ids file =
     rbind (try_fold (check_service file) ids (fd_service file)) (\<lambda>ids'.
     try_fold (check_event file) ids' (fd_message_type file))"

definition validate_method_ids :: "FileDescriptor list \<Rightarrow> codegen_error + unit" where
  "validate_method_ids files = rbind (try_fold check_file [] files) (\<lambda>_. Inr ())"

definition reject_unsupported_streaming :: "MethodDescriptor \<Rightarrow> codegen_error + unit" where
  "reject_unsupported_streaming method =
    (if md_client_streaming method = Some True then Inl UnsupportedStreaming else Inr ())"

text \<open>\<open>rsplit('.').next()\<close>: the text after the last dot.\<close>

definition rust_message_type :: "bytes option \<Rightarrow> codegen_error + bytes" where
  "rust_message_type value =
     rbind (ok_or MissingMessageType value) (\<lambda>v. Inr (rev (takeWhile (\<lambda>b. b \<noteq> 46) (rev v))))"

section \<open>Spellings\<close>

definition is_upper :: "char \<Rightarrow> bool" where
  "is_upper c = (65 \<le> (of_char c :: nat) \<and> (of_char c :: nat) \<le> 90)"

definition is_lower :: "char \<Rightarrow> bool" where
  "is_lower c = (97 \<le> (of_char c :: nat) \<and> (of_char c :: nat) \<le> 122)"

definition is_digit :: "char \<Rightarrow> bool" where
  "is_digit c = (48 \<le> (of_char c :: nat) \<and> (of_char c :: nat) \<le> 57)"

definition is_alnum :: "char \<Rightarrow> bool" where
  "is_alnum c = (is_upper c \<or> is_lower c \<or> is_digit c)"

definition to_lower :: "char \<Rightarrow> char" where
  "to_lower c = (if is_upper c then char_of ((of_char c :: nat) + 32) else c)"

definition to_upper :: "char \<Rightarrow> char" where
  "to_upper c = (if is_lower c then char_of ((of_char c :: nat) - 32) else c)"

fun snake_tail :: "string \<Rightarrow> string" where
  "snake_tail [] = []"
| "snake_tail (c # cs) = (if is_upper c then CHR ''_'' # to_lower c # snake_tail cs else to_lower c # snake_tail cs)"

definition snake_case :: "string \<Rightarrow> string" where
  "snake_case s = (case s of [] \<Rightarrow> [] | c # cs \<Rightarrow> to_lower c # snake_tail cs)"

definition upper_snake :: "string \<Rightarrow> string" where
  "upper_snake s = map to_upper (snake_case s)"

definition lower_camel :: "string \<Rightarrow> string" where
  "lower_camel s = (case s of [] \<Rightarrow> [] | c # cs \<Rightarrow> to_lower c # cs)"

text \<open>\<open>split\<close> at the characters that satisfy \<open>P\<close>, all parts, empty ones included.\<close>

fun split_parts :: "(char \<Rightarrow> bool) \<Rightarrow> string \<Rightarrow> string list" where
  "split_parts P [] = [[]]"
| "split_parts P (c # cs) =
    (if P c then [] # split_parts P cs
     else (case split_parts P cs of [] \<Rightarrow> [[c]] | w # ws \<Rightarrow> (c # w) # ws))"

definition capitalise :: "string \<Rightarrow> string" where
  "capitalise w = (case w of [] \<Rightarrow> [] | c # cs \<Rightarrow> to_upper c # cs)"

definition upper_camel_words :: "string \<Rightarrow> string" where
  "upper_camel_words s = concat (map capitalise (filter (\<lambda>w. w \<noteq> []) (split_parts (\<lambda>c. \<not> is_alnum c) s)))"

section \<open>Lemmas\<close>

lemma fnv_prime_unit: "(0x01000193 :: u32) * 0x359C449B = 1"
  by simp

lemma xor_cancel:
  fixes a b c :: "'a::len word"
  shows "a XOR c = b XOR c \<longleftrightarrow> a = b"
proof
  assume eq: "a XOR c = b XOR c"
  show "a = b"
  proof (rule bit_word_eqI)
    fix n assume "n < LENGTH('a)"
    show "bit a n = bit b n" using arg_cong [OF eq, of "\<lambda>w. bit w n"] by (simp add: bit_xor_iff) blast
  qed
qed simp

lemma fnv_step_inj: "fnv_step h b = fnv_step h' b \<longleftrightarrow> h = h'"
proof
  assume "fnv_step h b = fnv_step h' b"
  then have "(h XOR ucast b) * 0x01000193 * 0x359C449B = (h' XOR ucast b) * 0x01000193 * 0x359C449B"
    by (simp add: fnv_step_def)
  then have "h XOR ucast b = h' XOR ucast b" by (simp only: mult.assoc fnv_prime_unit mult_1_right)
  then show "h = h'" by (simp add: xor_cancel)
qed simp

lemma fnv_byte_inj: "fnv_step h b = fnv_step h b' \<longleftrightarrow> b = b'"
proof
  assume "fnv_step h b = fnv_step h b'"
  then have "(h XOR ucast b) * 0x01000193 * 0x359C449B = (h XOR ucast b') * 0x01000193 * 0x359C449B"
    by (simp add: fnv_step_def)
  then have "h XOR ucast b = h XOR ucast b'" by (simp only: mult.assoc fnv_prime_unit mult_1_right)
  then have "ucast b XOR h = ucast b' XOR h" by (simp add: xor.commute)
  then have eq: "(ucast b :: u32) = ucast b'" by (simp add: xor_cancel)
  show "b = b'"
  proof (rule bit_word_eqI)
    fix n assume "n < LENGTH(8)"
    then show "bit b n = bit b' n" using arg_cong [OF eq, of "\<lambda>w. bit w n"] by (simp add: bit_ucast_iff)
  qed
qed simp

lemma foldl_fnv_inj: "foldl fnv_step h ys = foldl fnv_step h' ys \<longleftrightarrow> h = h'"
  by (induction ys arbitrary: h h') (simp_all add: fnv_step_inj)

text \<open>A check that adds the ids of its input, fresh and distinct, adds those of a whole list.\<close>

definition adds_ids :: "(u32 list \<Rightarrow> 'a \<Rightarrow> codegen_error + u32 list) \<Rightarrow> ('a \<Rightarrow> bool) \<Rightarrow> ('a \<Rightarrow> u32 list) \<Rightarrow> bool" where
  "adds_ids f ok g = (\<forall>ids x ids'. f ids x = Inr ids' \<longleftrightarrow>
     ok x \<and> distinct (g x) \<and> set (g x) \<inter> set ids = {} \<and> ids' = rev (g x) @ ids)"

lemma adds_idsD:
  "adds_ids f ok g \<Longrightarrow> f ids x = Inr ids' \<longleftrightarrow>
     ok x \<and> distinct (g x) \<and> set (g x) \<inter> set ids = {} \<and> ids' = rev (g x) @ ids"
  by (simp add: adds_ids_def)

lemma adds_ids_fold:
  assumes "adds_ids f ok g"
  shows "adds_ids (try_fold f) (list_all ok) (\<lambda>xs. concat (map g xs))"
proof -
  have "try_fold f ids xs = Inr ids' \<longleftrightarrow> list_all ok xs \<and> distinct (concat (map g xs))
      \<and> set (concat (map g xs)) \<inter> set ids = {} \<and> ids' = rev (concat (map g xs)) @ ids" for ids ids' xs
  proof (induction xs arbitrary: ids)
    case (Cons x xs)
    have step: "f ids x = Inr m \<longleftrightarrow> ok x \<and> distinct (g x) \<and> set (g x) \<inter> set ids = {} \<and> m = rev (g x) @ ids" for m
      by (rule adds_idsD [OF assms])
    show ?case by (auto simp: step Cons.IH)
  qed auto
  then show ?thesis by (simp only: adds_ids_def) simp
qed

definition method_named :: "MethodDescriptor \<Rightarrow> bool" where
  "method_named m = (md_name m \<noteq> None)"

definition service_named :: "ServiceDescriptor \<Rightarrow> bool" where
  "service_named s = (sv_name s \<noteq> None \<and> list_all method_named (sv_method s))"

definition file_named :: "FileDescriptor \<Rightarrow> bool" where
  "file_named f = (list_all service_named (fd_service f) \<and> list_all (\<lambda>m. ds_name m \<noteq> None) (fd_message_type f))"

definition service_methods :: "FileDescriptor \<Rightarrow> ServiceDescriptor \<Rightarrow> bytes list" where
  "service_methods f s = map (\<lambda>m. canonical_method f (the (sv_name s)) (the (md_name m))) (sv_method s)"

definition message_events :: "FileDescriptor \<Rightarrow> Descriptor \<Rightarrow> bytes list" where
  "message_events f m = (if ends_with (the (ds_name m)) (str ''Event'') then [canonical_event f (the (ds_name m))] else [])"

definition file_methods :: "FileDescriptor \<Rightarrow> bytes list" where
  "file_methods f = concat (map (service_methods f) (fd_service f))"

definition file_events :: "FileDescriptor \<Rightarrow> bytes list" where
  "file_events f = concat (map (message_events f) (fd_message_type f))"

lemma check_method_adds:
  "adds_ids (check_method f s) method_named (\<lambda>m. [method_id_of (canonical_method f s (the (md_name m)))])"
  by (auto simp: adds_ids_def check_method_def required_def method_named_def Let_def ok_or_eq_Inr
      split: if_splits option.splits)

lemma check_service_adds:
  "adds_ids (check_service f) service_named (\<lambda>s. map method_id_of (service_methods f s))"
proof -
  have "check_service f ids s = Inr ids' \<longleftrightarrow> service_named s \<and> distinct (map method_id_of (service_methods f s))
      \<and> set (map method_id_of (service_methods f s)) \<inter> set ids = {}
      \<and> ids' = rev (map method_id_of (service_methods f s)) @ ids" for ids ids' s
  proof (cases "sv_name s")
    case (Some n)
    have eq: "concat (map (\<lambda>m. [method_id_of (canonical_method f n (the (md_name m)))]) (sv_method s))
        = map method_id_of (service_methods f s)"
      by (simp add: service_methods_def Some concat_map_singleton comp_def)
    have "try_fold (check_method f n) ids (sv_method s) = Inr ids' \<longleftrightarrow> list_all method_named (sv_method s)
        \<and> distinct (map method_id_of (service_methods f s))
        \<and> set (map method_id_of (service_methods f s)) \<inter> set ids = {}
        \<and> ids' = rev (map method_id_of (service_methods f s)) @ ids"
      using adds_idsD [OF adds_ids_fold [OF check_method_adds [of f n]], of ids "sv_method s" ids'] unfolding eq .
    then show ?thesis by (simp add: check_service_def required_def Some service_named_def)
  qed (simp add: check_service_def required_def service_named_def)
  then show ?thesis by (simp only: adds_ids_def) simp
qed

lemma check_event_adds:
  "adds_ids (check_event f) (\<lambda>m. ds_name m \<noteq> None \<and> 0 \<notin> set (map method_id_of (message_events f m)))
     (\<lambda>m. map method_id_of (message_events f m))"
proof -
  have "check_event f ids m = Inr ids' \<longleftrightarrow>
      (ds_name m \<noteq> None \<and> 0 \<notin> set (map method_id_of (message_events f m)))
      \<and> distinct (map method_id_of (message_events f m)) \<and> set (map method_id_of (message_events f m)) \<inter> set ids = {}
      \<and> ids' = rev (map method_id_of (message_events f m)) @ ids" for ids ids' m
  proof (cases "ds_name m")
    case (Some n)
    then show ?thesis
      by (cases "ends_with n (str ''Event'')")
        (auto simp: check_event_def required_def message_events_def Let_def simp del: rbind_eq_Inr)
  qed (simp add: check_event_def required_def)
  then show ?thesis by (simp only: adds_ids_def) simp
qed

lemma check_file_adds:
  "adds_ids check_file (\<lambda>f. file_named f \<and> 0 \<notin> set (map method_id_of (file_events f)))
     (\<lambda>f. map method_id_of (file_methods f @ file_events f))"
proof -
  have s: "try_fold (check_service f) ids (fd_service f) = Inr m \<longleftrightarrow> list_all service_named (fd_service f)
      \<and> distinct (map method_id_of (file_methods f)) \<and> set (map method_id_of (file_methods f)) \<inter> set ids = {}
      \<and> m = rev (map method_id_of (file_methods f)) @ ids" for f ids m
    using adds_idsD [OF adds_ids_fold [OF check_service_adds [of f]], of ids "fd_service f" m]
    unfolding file_methods_def map_concat map_map comp_def .
  have e: "try_fold (check_event f) ids (fd_message_type f) = Inr m \<longleftrightarrow>
      list_all (\<lambda>m. ds_name m \<noteq> None \<and> 0 \<notin> set (map method_id_of (message_events f m))) (fd_message_type f)
      \<and> distinct (map method_id_of (file_events f)) \<and> set (map method_id_of (file_events f)) \<inter> set ids = {}
      \<and> m = rev (map method_id_of (file_events f)) @ ids" for f ids m
    using adds_idsD [OF adds_ids_fold [OF check_event_adds [of f]], of ids "fd_message_type f" m]
    unfolding file_events_def map_concat map_map comp_def .
  have z: "list_all (\<lambda>m. ds_name m \<noteq> None \<and> 0 \<notin> set (map method_id_of (message_events f m))) (fd_message_type f)
      \<longleftrightarrow> list_all (\<lambda>m. ds_name m \<noteq> None) (fd_message_type f) \<and> 0 \<notin> set (map method_id_of (file_events f))" for f
    by (auto simp: list_all_iff file_events_def)
  have "check_file ids f = Inr m \<longleftrightarrow> (file_named f \<and> 0 \<notin> set (map method_id_of (file_events f)))
      \<and> distinct (map method_id_of (file_methods f @ file_events f))
      \<and> set (map method_id_of (file_methods f @ file_events f)) \<inter> set ids = {}
      \<and> m = rev (map method_id_of (file_methods f @ file_events f)) @ ids" for f ids m
    unfolding check_file_def rbind_eq_Inr s e z file_named_def by auto
  then show ?thesis by (simp only: adds_ids_def) simp
qed

section \<open>Properties\<close>

text \<open>Claim C33. The collision check is exact: generation proceeds exactly when every service, method and message is
  named, all method and event ids of all files together are pairwise different, and no event has id
  zero.\<close>

theorem validate_method_ids_iff:
  "validate_method_ids files = Inr () \<longleftrightarrow>
     list_all file_named files
   \<and> distinct (map method_id_of (concat (map (\<lambda>f. file_methods f @ file_events f) files)))
   \<and> 0 \<notin> set (map method_id_of (concat (map file_events files)))"
proof -
  have "try_fold check_file [] files = Inr ids \<longleftrightarrow>
      list_all (\<lambda>f. file_named f \<and> 0 \<notin> set (map method_id_of (file_events f))) files
      \<and> distinct (map method_id_of (concat (map (\<lambda>f. file_methods f @ file_events f) files)))
      \<and> ids = rev (map method_id_of (concat (map (\<lambda>f. file_methods f @ file_events f) files)))" for ids
    using adds_idsD [OF adds_ids_fold [OF check_file_adds], of "[]" files ids]
    unfolding map_concat map_map comp_def by simp
  moreover have "list_all (\<lambda>f. file_named f \<and> 0 \<notin> set (map method_id_of (file_events f))) files \<longleftrightarrow>
      list_all file_named files \<and> 0 \<notin> set (map method_id_of (concat (map file_events files)))"
    by (auto simp: list_all_iff)
  ultimately show ?thesis unfolding validate_method_ids_def rbind_eq_Inr by auto
qed

text \<open>Names that differ in one byte never share an id: the FNV-1a step is a bijection of the hash for
  every byte and injective in the byte.\<close>

theorem method_id_one_byte:
  "method_id_of (xs @ [a] @ ys) = method_id_of (xs @ [b] @ ys) \<longleftrightarrow> a = b"
  by (simp add: method_id_of_def foldl_fnv_inj fnv_byte_inj)

text \<open>The id the repository's tests pin.\<close>

lemma method_id_echo: "method_id_of (str ''moonlight.bridge.example.v1.EchoService/Echo'') = 0x237DFACC"
  by (simp add: method_id_of_def str_def fnv_step_def)

end
