(* ===== verification/Rpc_Policy.thy ===== *)
theory Rpc_Policy
  imports Bridge_Prelude
begin

text \<open>
  RPC policies of the schema, crates/moonlight-bridge-codegen/src/policy.rs: defaults, parsing of the
  \<open>rpc_policy\<close> method option, and validation.

  Dynamic messages come from the prost-reflect crate and are a parameter of the parser: a \<open>pvalue\<close> message is
  what it answers to \<open>has_field_by_name\<close> and \<open>get_field_by_name\<close>.  A descriptor pool is the list of services
  with their methods and option values.  Error texts are constructors.
\<close>

section \<open>Policies\<close>

datatype Idempotency = IdempotencyUnspecified | ReadOnly | Idempotent | KeyRequired

datatype CompressionMode = CompressionDefault | CompressionDisabled | CompressionPrefer | CompressionRequired

record RetryPolicy =
  max_attempts :: u32
  initial_backoff_ms :: u32
  max_backoff_ms :: u32
  multiplier_milli :: u32

definition retry_default :: RetryPolicy where
  "retry_default = \<lparr>max_attempts = 1, initial_backoff_ms = 25, max_backoff_ms = 1000, multiplier_milli = 2000\<rparr>"

record RpcPolicy =
  timeout_ms :: u32
  idle_timeout_ms :: u32
  retry :: RetryPolicy
  idempotency :: Idempotency
  max_request_bytes :: u32
  max_response_bytes :: u32
  policy_scopes :: "bytes list"
  compression :: CompressionMode
  trace_sample_per_million :: u32

definition DEFAULT_TIMEOUT_MS :: u32 where "DEFAULT_TIMEOUT_MS = 2000"
definition DEFAULT_STREAM_IDLE_TIMEOUT_MS :: u32 where "DEFAULT_STREAM_IDLE_TIMEOUT_MS = 30000"
definition DEFAULT_MAX_BODY_BYTES :: u32 where "DEFAULT_MAX_BODY_BYTES = 16 * 1024 * 1024"

definition policy_defaults :: "bool \<Rightarrow> RpcPolicy" where
  "policy_defaults server_streaming =
    \<lparr>timeout_ms = DEFAULT_TIMEOUT_MS,
     idle_timeout_ms = (if server_streaming then DEFAULT_STREAM_IDLE_TIMEOUT_MS else 0),
     retry = retry_default, idempotency = IdempotencyUnspecified,
     max_request_bytes = DEFAULT_MAX_BODY_BYTES, max_response_bytes = DEFAULT_MAX_BODY_BYTES,
     policy_scopes = [], compression = CompressionDefault, trace_sample_per_million = 0\<rparr>"

datatype policy_error =
    NotUint32 string
  | NotEnum string
  | NotMessage string
  | NotRepeatedString string
  | NonString string
  | DuplicateScope
  | UnknownIdempotency int
  | UnknownCompression int
  | NonMessageOption bytes
  | Rejected bytes string
  | InvalidScope bytes bytes

section \<open>Reading the option\<close>

datatype pvalue =
    VU32 u32
  | VEnumNumber int
  | VString bytes
  | VList "pvalue list"
  | VMessage (has_field: "string \<Rightarrow> bool") (get_field: "string \<Rightarrow> pvalue option")
  | VOther

definition optional_u32 :: "pvalue \<Rightarrow> string \<Rightarrow> u32 \<Rightarrow> policy_error + u32" where
  "optional_u32 message name fallback =
    (if \<not> has_field message name then Inr fallback
     else (case get_field message name of Some (VU32 v) \<Rightarrow> Inr v | _ \<Rightarrow> Inl (NotUint32 name)))"

definition enum_number :: "pvalue \<Rightarrow> string \<Rightarrow> policy_error + int" where
  "enum_number message name =
    (case get_field message name of Some (VEnumNumber v) \<Rightarrow> Inr v | _ \<Rightarrow> Inl (NotEnum name))"

definition message_field :: "pvalue \<Rightarrow> string \<Rightarrow> policy_error + pvalue option" where
  "message_field message name =
    (if \<not> has_field message name then Inr None
     else (case get_field message name of Some (VMessage h g) \<Rightarrow> Inr (Some (VMessage h g)) | _ \<Rightarrow> Inl (NotMessage name)))"

definition string_item :: "string \<Rightarrow> pvalue \<Rightarrow> policy_error + bytes" where
  "string_item name value = (case value of VString s \<Rightarrow> Inr s | _ \<Rightarrow> Inl (NonString name))"

definition string_list :: "pvalue \<Rightarrow> string \<Rightarrow> policy_error + bytes list" where
  "string_list message name =
    (case get_field message name of
       Some (VList values) \<Rightarrow> try_map (string_item name) values
     | _ \<Rightarrow> Inl (NotRepeatedString name))"

definition parse_retry :: "pvalue \<Rightarrow> policy_error + RetryPolicy" where
  "parse_retry message =
     rbind (optional_u32 message ''max_attempts'' (max_attempts retry_default)) (\<lambda>a.
     rbind (optional_u32 message ''initial_backoff_ms'' (initial_backoff_ms retry_default)) (\<lambda>i.
     rbind (optional_u32 message ''max_backoff_ms'' (max_backoff_ms retry_default)) (\<lambda>m.
     rbind (optional_u32 message ''multiplier_milli'' (multiplier_milli retry_default)) (\<lambda>f.
     Inr \<lparr>max_attempts = a, initial_backoff_ms = i, max_backoff_ms = m, multiplier_milli = f\<rparr>))))"

definition idempotency_of :: "int \<Rightarrow> policy_error + Idempotency" where
  "idempotency_of n =
    (if n = 0 then Inr IdempotencyUnspecified else if n = 1 then Inr ReadOnly
     else if n = 2 then Inr Idempotent else if n = 3 then Inr KeyRequired else Inl (UnknownIdempotency n))"

definition compression_of :: "int \<Rightarrow> policy_error + CompressionMode" where
  "compression_of n =
    (if n = 0 then Inr CompressionDefault else if n = 1 then Inr CompressionDisabled
     else if n = 2 then Inr CompressionPrefer else if n = 3 then Inr CompressionRequired else Inl (UnknownCompression n))"

text \<open>\<open>windows(2).any(|pair| pair[0] == pair[1])\<close>.\<close>

fun adjacent_equal :: "'a list \<Rightarrow> bool" where
  "adjacent_equal (x # y # zs) = (x = y \<or> adjacent_equal (y # zs))"
| "adjacent_equal _ = False"

definition parse_policy :: "pvalue \<Rightarrow> bool \<Rightarrow> policy_error + RpcPolicy" where
  "parse_policy message server_streaming =
    (let defaults = policy_defaults server_streaming in
     rbind (string_list message ''required_scopes'') (\<lambda>unsorted.
     let scopes = sort unsorted in
     if adjacent_equal scopes then Inl DuplicateScope
     else
       rbind (optional_u32 message ''timeout_ms'' (timeout_ms defaults)) (\<lambda>timeout.
       rbind (optional_u32 message ''idle_timeout_ms'' (idle_timeout_ms defaults)) (\<lambda>idle.
       rbind (rbind (message_field message ''retry'') (\<lambda>m.
                case m of None \<Rightarrow> Inr retry_default | Some r \<Rightarrow> parse_retry r)) (\<lambda>rt.
       rbind (rbind (enum_number message ''idempotency'') idempotency_of) (\<lambda>idem.
       rbind (optional_u32 message ''max_request_bytes'' (max_request_bytes defaults)) (\<lambda>rq.
       rbind (optional_u32 message ''max_response_bytes'' (max_response_bytes defaults)) (\<lambda>rs.
       rbind (rbind (enum_number message ''compression'') compression_of) (\<lambda>comp.
       rbind (optional_u32 message ''trace_sample_per_million'' 0) (\<lambda>tr.
       Inr \<lparr>timeout_ms = timeout, idle_timeout_ms = idle, retry = rt, idempotency = idem,
            max_request_bytes = rq, max_response_bytes = rs, policy_scopes = scopes, compression = comp,
            trace_sample_per_million = tr\<rparr>))))))))))"

section \<open>Validation\<close>

definition within :: "nat \<Rightarrow> nat \<Rightarrow> u32 \<Rightarrow> bool" where
  "within lo hi v = (lo \<le> unat v \<and> unat v \<le> hi)"

definition check :: "bool \<Rightarrow> 'e \<Rightarrow> 'e + unit" where
  "check ok e = (if ok then Inr () else Inl e)"

definition scope_byte :: "u8 \<Rightarrow> bool" where
  "scope_byte b = (in_range 97 122 b \<or> in_range 48 57 b \<or> b \<in> {46, 95, 58, 45})"

definition scope_ok :: "bytes \<Rightarrow> bool" where
  "scope_ok scope = (scope \<noteq> [] \<and> length scope \<le> 128 \<and> list_all scope_byte scope)"

definition retry_ranges_ok :: "RetryPolicy \<Rightarrow> bool" where
  "retry_ranges_ok rt = (within 1 60000 (initial_backoff_ms rt) \<and> initial_backoff_ms rt \<le> max_backoff_ms rt
     \<and> unat (max_backoff_ms rt) \<le> 300000 \<and> within 1000 10000 (multiplier_milli rt))"

definition validate_policy :: "bytes \<Rightarrow> RpcPolicy \<Rightarrow> bool \<Rightarrow> bool \<Rightarrow> policy_error + unit" where
  "validate_policy canonical policy streaming server_streaming =
     rbind (check (within 1 600000 (timeout_ms policy))
              (Rejected canonical ''timeout_ms must be between 1 and 600000'')) (\<lambda>_.
     rbind (if server_streaming
            then check (within 1 600000 (idle_timeout_ms policy))
                   (Rejected canonical ''idle_timeout_ms must be between 1 and 600000 for streams'')
            else check (idle_timeout_ms policy = 0)
                   (Rejected canonical ''idle_timeout_ms is valid only for streaming RPCs'')) (\<lambda>_.
     rbind (check (within 1 8 (max_attempts (retry policy)))
              (Rejected canonical ''retry max_attempts must be between 1 and 8'')) (\<lambda>_.
     rbind (check (retry_ranges_ok (retry policy))
              (Rejected canonical ''retry backoff settings are outside safe ranges'')) (\<lambda>_.
     rbind (check (\<not> (max_attempts (retry policy) > 1 \<and> idempotency policy = IdempotencyUnspecified))
              (Rejected canonical ''retries require read-only, idempotent, or idempotency-key semantics'')) (\<lambda>_.
     rbind (check (\<not> (streaming \<and> max_attempts (retry policy) > 1))
              (Rejected canonical ''streaming RPCs cannot enable transparent retry'')) (\<lambda>_.
     rbind (check (within 1 67108864 (max_request_bytes policy))
              (Rejected canonical ''max_request_bytes must be between 1 and 67108864'')) (\<lambda>_.
     rbind (check (within 1 67108864 (max_response_bytes policy))
              (Rejected canonical ''max_response_bytes must be between 1 and 67108864'')) (\<lambda>_.
     rbind (check (length (policy_scopes policy) \<le> 32)
              (Rejected canonical ''at most 32 required scopes are permitted'')) (\<lambda>_.
     rbind (case find (\<lambda>s. \<not> scope_ok s) (policy_scopes policy) of
              Some scope \<Rightarrow> Inl (InvalidScope canonical scope) | None \<Rightarrow> Inr ()) (\<lambda>_.
     check (unat (trace_sample_per_million policy) \<le> 1000000)
       (Rejected canonical ''trace_sample_per_million must not exceed 1000000'')))))))))))"

section \<open>All policies of a pool\<close>

record pool_method =
  pm_name :: bytes
  pm_client_streaming :: bool
  pm_server_streaming :: bool
  pm_option :: "pvalue option"

type_synonym pool_services = "(bytes \<times> pool_method list) list"

definition method_policy :: "bytes \<Rightarrow> bool \<Rightarrow> pool_method \<Rightarrow> policy_error + RpcPolicy" where
  "method_policy canonical has_extension method =
    (if has_extension then
       (case pm_option method of
          None \<Rightarrow> Inr (policy_defaults (pm_server_streaming method))
        | Some (VMessage h g) \<Rightarrow> parse_policy (VMessage h g) (pm_server_streaming method)
        | Some _ \<Rightarrow> Inl (NonMessageOption canonical))
     else Inr (policy_defaults (pm_server_streaming method)))"

definition policy_step ::
    "bool \<Rightarrow> bytes \<Rightarrow> (bytes, RpcPolicy) btree_map \<Rightarrow> pool_method \<Rightarrow> policy_error + (bytes, RpcPolicy) btree_map" where
  "policy_step has_extension service_name policies method =
    (let canonical = service_name @ str ''/'' @ pm_name method in
     rbind (method_policy canonical has_extension method) (\<lambda>policy.
     rbind (validate_policy canonical policy (pm_client_streaming method \<or> pm_server_streaming method)
              (pm_server_streaming method)) (\<lambda>_.
     Inr (bt_insert canonical policy policies))))"

definition policies_from_pool :: "bool \<Rightarrow> pool_services \<Rightarrow> policy_error + (bytes, RpcPolicy) btree_map" where
  "policies_from_pool has_extension services =
     try_fold (\<lambda>policies (name, methods). try_fold (policy_step has_extension name) policies methods) [] services"

section \<open>Lemmas\<close>

lemma check_Inr [simp]: "check ok e = Inr u \<longleftrightarrow> ok"
  by (simp add: check_def)

definition policy_safe :: "RpcPolicy \<Rightarrow> bool \<Rightarrow> bool \<Rightarrow> bool" where
  "policy_safe policy streaming server_streaming =
    (within 1 600000 (timeout_ms policy)
     \<and> (if server_streaming then within 1 600000 (idle_timeout_ms policy) else idle_timeout_ms policy = 0)
     \<and> within 1 8 (max_attempts (retry policy)) \<and> retry_ranges_ok (retry policy)
     \<and> (max_attempts (retry policy) \<le> 1 \<or> idempotency policy \<noteq> IdempotencyUnspecified)
     \<and> (max_attempts (retry policy) \<le> 1 \<or> \<not> streaming)
     \<and> within 1 67108864 (max_request_bytes policy) \<and> within 1 67108864 (max_response_bytes policy)
     \<and> length (policy_scopes policy) \<le> 32 \<and> list_all scope_ok (policy_scopes policy)
     \<and> unat (trace_sample_per_million policy) \<le> 1000000)"

lemma validate_policy_Inr:
  "validate_policy canonical policy streaming server_streaming = Inr () \<longleftrightarrow>
   policy_safe policy streaming server_streaming"
proof -
  have "(case find (\<lambda>s. \<not> scope_ok s) xs of Some scope \<Rightarrow> Inl (InvalidScope canonical scope) | None \<Rightarrow> Inr ()) = Inr u
      \<longleftrightarrow> list_all scope_ok xs" for xs u
    by (auto simp: list_all_iff find_None_iff find_Some_iff split: option.splits) (metis nth_mem)?
  then show ?thesis
    by (cases server_streaming) (auto simp: validate_policy_def policy_safe_def not_less)
qed

lemma adjacent_equal_sorted: "sorted xs \<Longrightarrow> adjacent_equal xs \<longleftrightarrow> \<not> distinct xs"
proof (induction xs rule: adjacent_equal.induct)
  case (1 x y zs)
  then show ?case by (auto dest: order.antisym)
qed auto

lemma parse_policy_scopes:
  assumes "parse_policy m ss = Inr p"
  shows "sorted (policy_scopes p) \<and> distinct (policy_scopes p)"
proof -
  obtain unsorted where "policy_scopes p = sort unsorted" "\<not> adjacent_equal (sort unsorted)"
    using assms by (auto simp: parse_policy_def Let_def split: if_splits)
  then show ?thesis using adjacent_equal_sorted [of "sort unsorted"] by simp
qed

lemma defaults_scopes [simp]: "policy_scopes (policy_defaults ss) = []"
  by (simp add: policy_defaults_def)

lemma method_policy_scopes:
  "method_policy canonical ext m = Inr p \<Longrightarrow> sorted (policy_scopes p) \<and> distinct (policy_scopes p)"
  by (auto simp: method_policy_def parse_policy_scopes split: if_splits option.splits pvalue.splits)

text \<open>What is known of every entry, and which entries there are.\<close>

definition entry_from :: "bool \<Rightarrow> bytes \<Rightarrow> pool_method \<Rightarrow> bytes \<times> RpcPolicy \<Rightarrow> bool" where
  "entry_from ext service m e =
    (fst e = service @ str ''/'' @ pm_name m \<and> method_policy (fst e) ext m = Inr (snd e)
     \<and> policy_safe (snd e) (pm_client_streaming m \<or> pm_server_streaming m) (pm_server_streaming m))"

definition pool_methods :: "pool_services \<Rightarrow> (bytes \<times> pool_method) list" where
  "pool_methods services = concat (map (\<lambda>(s, ms). map (Pair s) ms) services)"

definition explained :: "bool \<Rightarrow> (bytes \<times> pool_method) list \<Rightarrow> (bytes, RpcPolicy) btree_map \<Rightarrow> bool" where
  "explained ext ms m = (bt_wf m \<and> (\<forall>e \<in> set m. \<exists>(s, pm) \<in> set ms. entry_from ext s pm e)
     \<and> fst ` set m = (\<lambda>(s, pm). s @ str ''/'' @ pm_name pm) ` set ms)"

lemma policy_step_explained:
  assumes "explained ext ms policies" "policy_step ext service policies m = Inr policies'"
  shows "explained ext (ms @ [(service, m)]) policies'"
proof -
  let ?c = "service @ str ''/'' @ pm_name m"
  obtain p where p: "method_policy ?c ext m = Inr p" "policies' = bt_insert ?c p policies"
    "policy_safe p (pm_client_streaming m \<or> pm_server_streaming m) (pm_server_streaming m)"
    using assms(2) by (auto simp: policy_step_def Let_def validate_policy_Inr)
  then have new: "entry_from ext service m (?c, p)" by (simp add: entry_from_def)
  have "\<exists>(s, pm) \<in> set (ms @ [(service, m)]). entry_from ext s pm e" if "e \<in> set policies'" for e
  proof (cases "e = (?c, p)")
    case True
    then show ?thesis using new by simp
  next
    case False
    then have "e \<in> set policies" using that bt_insert_set [of ?c p policies] p(2) by auto
    then show ?thesis using assms(1) by (auto simp: explained_def)
  qed
  then show ?thesis using assms(1) p(2) by (auto simp: explained_def bt_insert_wf bt_insert_fst)
qed

lemma policy_steps_explained:
  "explained ext ms policies \<Longrightarrow> try_fold (policy_step ext service) policies methods = Inr policies' \<Longrightarrow>
   explained ext (ms @ map (Pair service) methods) policies'"
proof (induction methods arbitrary: ms policies)
  case (Cons m methods)
  obtain q where q: "policy_step ext service policies m = Inr q"
    "try_fold (policy_step ext service) q methods = Inr policies'"
    using Cons.prems(2) by auto
  show ?case using Cons.IH [OF policy_step_explained [OF Cons.prems(1) q(1)] q(2)] by simp
qed simp

lemma policies_explained:
  "explained ext ms policies \<Longrightarrow>
   try_fold (\<lambda>policies (name, methods). try_fold (policy_step ext name) policies methods) policies services = Inr policies'
   \<Longrightarrow> explained ext (ms @ pool_methods services) policies'"
proof (induction services arbitrary: ms policies)
  case (Cons sv services)
  obtain s methods where sv: "sv = (s, methods)" by (cases sv)
  obtain q where q: "try_fold (policy_step ext s) policies methods = Inr q"
    "try_fold (\<lambda>policies (name, methods). try_fold (policy_step ext name) policies methods) q services = Inr policies'"
    using Cons.prems(2) sv by auto
  show ?case using Cons.IH [OF policy_steps_explained [OF Cons.prems(1) q(1)] q(2)] by (simp add: pool_methods_def sv)
qed (simp add: pool_methods_def)

lemma pool_explained: "policies_from_pool ext services = Inr policies \<Longrightarrow> explained ext (pool_methods services) policies"
  using policies_explained [of ext "[]" "[]" services policies]
  by (simp add: policies_from_pool_def) (simp add: explained_def bt_wf_def)

lemma compiled_policy_facts:
  assumes "policies_from_pool ext services = Inr policies" "bt_get policies k = Some p"
  shows "\<exists>streaming server_streaming. policy_safe p streaming server_streaming" "distinct (policy_scopes p)"
proof -
  have "(k, p) \<in> set policies" using assms(2) by (simp add: bt_get_Some_in)
  then obtain s pm where "entry_from ext s pm (k, p)" using pool_explained [OF assms(1)] by (fastforce simp: explained_def)
  then show "\<exists>streaming server_streaming. policy_safe p streaming server_streaming" "distinct (policy_scopes p)"
    using method_policy_scopes by (fastforce simp: entry_from_def)+
qed

section \<open>Properties\<close>

text \<open>Claim C34. Every compiled policy is safe: when a pool is accepted, its table has exactly one policy per method,
  under the method's canonical name, and each is within all limits: positive bounded timeouts, an idle
  timeout exactly for server streams, at most eight attempts with bounded backoff, retries only with
  declared retry safety and never on streams, body limits up to 64 MiB, and at most 32 well-formed
  scopes, sorted and without duplicates.\<close>

theorem compiled_policies_safe:
  assumes "policies_from_pool ext services = Inr policies"
  shows "fst ` set policies = (\<lambda>(s, pm). s @ str ''/'' @ pm_name pm) ` set (pool_methods services)
    \<and> (\<forall>e \<in> set policies. \<exists>(s, pm) \<in> set (pool_methods services). fst e = s @ str ''/'' @ pm_name pm
         \<and> policy_safe (snd e) (pm_client_streaming pm \<or> pm_server_streaming pm) (pm_server_streaming pm)
         \<and> sorted (policy_scopes (snd e)) \<and> distinct (policy_scopes (snd e)))"
proof -
  note ex = pool_explained [OF assms]
  then have "\<exists>(s, pm) \<in> set (pool_methods services). fst e = s @ str ''/'' @ pm_name pm
         \<and> policy_safe (snd e) (pm_client_streaming pm \<or> pm_server_streaming pm) (pm_server_streaming pm)
         \<and> sorted (policy_scopes (snd e)) \<and> distinct (policy_scopes (snd e))" if "e \<in> set policies" for e
    using that method_policy_scopes unfolding explained_def entry_from_def by fastforce
  with ex show ?thesis unfolding explained_def by blast
qed

text \<open>The built-in policy is always acceptable: a method without an option gets defaults that pass
  validation, for unary and for server-streaming methods.\<close>

theorem default_policy_valid:
  "validate_policy canonical (policy_defaults server_streaming) server_streaming server_streaming = Inr ()"
  by (cases server_streaming)
    (simp_all add: validate_policy_Inr policy_safe_def policy_defaults_def within_def retry_ranges_ok_def
      retry_default_def DEFAULT_TIMEOUT_MS_def DEFAULT_STREAM_IDLE_TIMEOUT_MS_def DEFAULT_MAX_BODY_BYTES_def)

definition sample_pool :: pool_services where
  "sample_pool = [(str ''a.Echo'', [\<lparr>pm_name = str ''Get'', pm_client_streaming = False, pm_server_streaming = True,
     pm_option = None\<rparr>])]"

theorem compiled_policies_safe_witness:
  "\<exists>policies. policies_from_pool True sample_pool = Inr policies \<and> fst ` set policies = {str ''a.Echo/Get''}"
proof -
  have v: "validate_policy c (policy_defaults True) True True = Inr ()" for c
    by (simp add: validate_policy_Inr policy_safe_def policy_defaults_def within_def retry_ranges_ok_def
      retry_default_def DEFAULT_TIMEOUT_MS_def DEFAULT_STREAM_IDLE_TIMEOUT_MS_def DEFAULT_MAX_BODY_BYTES_def)
  obtain policies where p: "policies_from_pool True sample_pool = Inr policies"
    by (simp add: policies_from_pool_def sample_pool_def policy_step_def method_policy_def Let_def v del: rbind_eq_Inr)
  from conjunct1 [OF compiled_policies_safe [OF p]] have "fst ` set policies = {str ''a.Echo/Get''}"
    by (simp add: sample_pool_def pool_methods_def str_def)
  with p show ?thesis by blast
qed

end
