(* ===== verification/Schema_Lock.thy ===== *)
theory Schema_Lock
  imports Codegen_Ids Rpc_Policy
begin

text \<open>
  The schema lock of the generator, crates/moonlight-bridge-codegen/src/schema.rs: the snapshot taken from
  Protobuf descriptors and the check of a new schema against a stored one.

  A 32-bit number is an \<open>int\<close>; the only arithmetic on one is \<open>saturating_add\<close>, written out.  A report line is a
  constructor of \<open>compat_error\<close> with the values its text is made of.  The JSON text of a lock is written
  and read by serde; the codec is a parameter of \<open>write_lock\<close> and \<open>check_lock\<close>, and so is what the file
  system returns.
\<close>

section \<open>Lock data\<close>

record LockedField =
  lf_name :: bytes
  lf_number :: int
  lf_label :: int
  lf_kind :: int
  lf_type_name :: bytes
  lf_oneof_index :: "int option"
  lf_proto3_optional :: bool

record NumberRange =
  nr_start :: int
  nr_end :: int

record LockedMessage =
  lm_fields :: "(int, LockedField) btree_map"
  lm_reserved_ranges :: "NumberRange list"
  lm_reserved_names :: "bytes list"

record LockedEnum =
  le_values :: "(int, bytes) btree_map"
  le_reserved_ranges :: "NumberRange list"
  le_reserved_names :: "bytes list"

record LockedMethod =
  lk_input :: bytes
  lk_output :: bytes
  lk_client_streaming :: bool
  lk_server_streaming :: bool
  lk_policy :: RpcPolicy

record LockedService =
  lk_methods :: "(bytes, LockedMethod) btree_map"

record SchemaLock =
  sl_format :: nat
  sl_messages :: "(bytes, LockedMessage) btree_map"
  sl_enums :: "(bytes, LockedEnum) btree_map"
  sl_services :: "(bytes, LockedService) btree_map"

definition LOCK_FORMAT :: nat where "LOCK_FORMAT = 2"

datatype compat_error =
    MessageRemoved bytes
  | FieldChanged bytes LockedField int LockedField
  | FieldRemoved bytes bytes int
  | EnumRemoved bytes
  | ValueChanged bytes bytes int bytes
  | ValueRemoved bytes bytes int
  | RangeReleased string bytes NumberRange
  | NameReleased string bytes bytes
  | ServiceRemoved bytes
  | RpcRemoved bytes bytes
  | SignatureChanged bytes bytes
  | PolicyChanged bytes bytes

datatype schema_error =
    MissingValue string
  | FieldNumberMissing
  | EnumNumberMissing
  | InvalidPolicy policy_error
  | MissingPolicy bytes
  | LockUnwritable
  | LockMissing
  | LockUnreadable
  | LockGarbled
  | UnsupportedFormat nat
  | BreakingChanges "compat_error list"

section \<open>Snapshot\<close>

definition i32_max :: int where "i32_max = 2147483647"

definition i32_saturating_add :: "int \<Rightarrow> int \<Rightarrow> int" where
  "i32_saturating_add a b = max (- i32_max - 1) (min i32_max (a + b))"

definition or_zero :: "int option \<Rightarrow> int" where
  "or_zero v = (case v of Some n \<Rightarrow> n | None \<Rightarrow> 0)"

definition required_value :: "bytes option \<Rightarrow> string \<Rightarrow> schema_error + bytes" where
  "required_value value field = ok_or (MissingValue field) value"

definition qualify :: "bytes \<Rightarrow> bytes \<Rightarrow> bytes" where
  "qualify prefix name = (if prefix = [] then name else prefix @ str ''.'' @ name)"

text \<open>\<open>collect\<close> into a \<open>BTreeMap\<close>: a later entry replaces an earlier one with its key.\<close>

definition bt_collect :: "('k::linorder \<times> 'v) list \<Rightarrow> ('k, 'v) btree_map" where
  "bt_collect ps = foldl (\<lambda>m (k, v). bt_insert k v m) [] ps"

definition snapshot_value :: "bytes option \<times> int option \<Rightarrow> schema_error + int \<times> bytes" where
  "snapshot_value value =
     rbind (ok_or EnumNumberMissing (snd value)) (\<lambda>number.
     rbind (required_value (fst value) ''enum value name'') (\<lambda>name.
     Inr (number, name)))"

definition snapshot_enum :: "bytes \<Rightarrow> EnumDescriptor \<Rightarrow> SchemaLock \<Rightarrow> schema_error + SchemaLock" where
  "snapshot_enum prefix enumeration lock =
     rbind (required_value (en_name enumeration) ''enum name'') (\<lambda>name.
     rbind (try_map snapshot_value (en_value enumeration)) (\<lambda>values.
     Inr (lock\<lparr>sl_enums := bt_insert (qualify prefix name)
       \<lparr>le_values = bt_collect values,
        le_reserved_ranges = map (\<lambda>(start, stop). \<lparr>nr_start = or_zero start,
           nr_end = i32_saturating_add (or_zero stop) 1\<rparr>) (en_reserved_range enumeration),
        le_reserved_names = en_reserved_name enumeration\<rparr> (sl_enums lock)\<rparr>)))"

definition snapshot_field :: "FieldDescriptor \<Rightarrow> schema_error + int \<times> LockedField" where
  "snapshot_field field =
     rbind (ok_or FieldNumberMissing (fl_number field)) (\<lambda>number.
     rbind (required_value (fl_name field) ''field name'') (\<lambda>name.
     Inr (number, \<lparr>lf_name = name, lf_number = number, lf_label = or_zero (fl_label field),
       lf_kind = or_zero (fl_type field),
       lf_type_name = (case fl_type_name field of Some t \<Rightarrow> t | None \<Rightarrow> []),
       lf_oneof_index = fl_oneof_index field,
       lf_proto3_optional = (case fl_proto3_optional field of Some b \<Rightarrow> b | None \<Rightarrow> False)\<rparr>)))"

definition locked_message :: "(int \<times> LockedField) list \<Rightarrow> Descriptor \<Rightarrow> LockedMessage" where
  "locked_message pairs message =
     \<lparr>lm_fields = bt_collect pairs,
      lm_reserved_ranges = map (\<lambda>(start, stop). \<lparr>nr_start = or_zero start, nr_end = or_zero stop\<rparr>)
        (ds_reserved_range message),
      lm_reserved_names = ds_reserved_name message\<rparr>"

lemma rbind_cong [fundef_cong]:
  "r = r' \<Longrightarrow> (\<And>a. r' = Inr a \<Longrightarrow> k a = k' a) \<Longrightarrow> rbind r k = rbind r' k'"
  by (cases r') simp_all

lemma try_fold_cong [fundef_cong]:
  "s = s' \<Longrightarrow> xs = ys \<Longrightarrow> (\<And>s x. x \<in> set ys \<Longrightarrow> f s x = g s x) \<Longrightarrow> try_fold f s xs = try_fold g s' ys"
proof (induction ys arbitrary: s s' xs)
  case (Cons y ys)
  then show ?case by (auto intro!: rbind_cong)
qed simp

function snapshot_message :: "bytes \<Rightarrow> Descriptor \<Rightarrow> SchemaLock \<Rightarrow> schema_error + SchemaLock" where
  "snapshot_message prefix message lock =
     rbind (required_value (ds_name message) ''message name'') (\<lambda>name.
     let full_name = qualify prefix name in
     rbind (try_map snapshot_field (ds_field message)) (\<lambda>pairs.
     rbind (try_fold (\<lambda>lock nested. snapshot_message full_name nested lock)
              (lock\<lparr>sl_messages := bt_insert full_name (locked_message pairs message) (sl_messages lock)\<rparr>)
              (ds_nested_type message)) (\<lambda>lock.
     try_fold (\<lambda>lock enumeration. snapshot_enum full_name enumeration lock) lock (ds_enum_type message))))"
  by pat_completeness auto

lemma nested_smaller: "nested \<in> set (ds_nested_type message) \<Longrightarrow> size nested < size message"
  by (cases message) (auto dest: size_list_estimation' [of _ _ _ size, OF _ order.refl])

termination snapshot_message
  by (relation "measure (\<lambda>(_, message, _). size message)") (auto dest: nested_smaller)

declare snapshot_message.simps [simp del]

definition snapshot_method ::
    "bytes \<Rightarrow> (bytes, RpcPolicy) btree_map \<Rightarrow> (bytes, LockedMethod) btree_map \<Rightarrow> MethodDescriptor
      \<Rightarrow> schema_error + (bytes, LockedMethod) btree_map" where
  "snapshot_method full_name policies methods method =
     rbind (required_value (md_name method) ''method name'') (\<lambda>method_name.
     let canonical = full_name @ str ''/'' @ method_name in
     rbind (required_value (md_input_type method) ''method input'') (\<lambda>input.
     rbind (required_value (md_output_type method) ''method output'') (\<lambda>output.
     rbind (ok_or (MissingPolicy canonical) (bt_get policies canonical)) (\<lambda>policy.
     Inr (bt_insert method_name
       \<lparr>lk_input = input, lk_output = output,
        lk_client_streaming = (case md_client_streaming method of Some b \<Rightarrow> b | None \<Rightarrow> False),
        lk_server_streaming = (case md_server_streaming method of Some b \<Rightarrow> b | None \<Rightarrow> False),
        lk_policy = policy\<rparr> methods)))))"

definition snapshot_service ::
    "bytes \<Rightarrow> (bytes, RpcPolicy) btree_map \<Rightarrow> SchemaLock \<Rightarrow> ServiceDescriptor \<Rightarrow> schema_error + SchemaLock" where
  "snapshot_service package policies lock service =
     rbind (required_value (sv_name service) ''service name'') (\<lambda>name.
     let full_name = qualify package name in
     rbind (try_fold (snapshot_method full_name policies) [] (sv_method service)) (\<lambda>methods.
     Inr (lock\<lparr>sl_services := bt_insert full_name \<lparr>lk_methods = methods\<rparr> (sl_services lock)\<rparr>)))"

definition snapshot_file ::
    "(bytes, RpcPolicy) btree_map \<Rightarrow> SchemaLock \<Rightarrow> FileDescriptor \<Rightarrow> schema_error + SchemaLock" where
  "snapshot_file policies lock file =
    (let package = (case fd_package file of Some p \<Rightarrow> p | None \<Rightarrow> []) in
     rbind (try_fold (\<lambda>lock message. snapshot_message package message lock) lock (fd_message_type file)) (\<lambda>lock.
     rbind (try_fold (\<lambda>lock enumeration. snapshot_enum package enumeration lock) lock (fd_enum_type file)) (\<lambda>lock.
     try_fold (snapshot_service package policies) lock (fd_service file))))"

text \<open>The two views prost and prost-reflect give of one descriptor set.\<close>

record descriptor_set =
  set_files :: "FileDescriptor list"
  set_extension :: bool
  set_services :: pool_services

definition skipped_files :: "bytes option set" where
  "skipped_files = {Some (str ''google/protobuf/descriptor.proto''),
     Some (str ''moonlight/bridge/options/v1/options.proto'')}"

definition snapshot :: "descriptor_set \<Rightarrow> schema_error + SchemaLock" where
  "snapshot d =
     rbind (map_err InvalidPolicy (policies_from_pool (set_extension d) (set_services d))) (\<lambda>policies.
     try_fold (\<lambda>lock file. if fd_name file \<in> skipped_files then Inr lock else snapshot_file policies lock file)
       \<lparr>sl_format = LOCK_FORMAT, sl_messages = [], sl_enums = [], sl_services = []\<rparr> (set_files d))"

section \<open>Compatibility\<close>

fun cover_loop :: "int \<Rightarrow> int \<Rightarrow> NumberRange list \<Rightarrow> bool" where
  "cover_loop cursor stop [] = (cursor \<ge> stop)"
| "cover_loop cursor stop (rg # ranges) =
    (if nr_end rg \<le> cursor then cover_loop cursor stop ranges
     else if nr_start rg > cursor then False
     else let cursor = max cursor (nr_end rg) in
       if cursor \<ge> stop then True else cover_loop cursor stop ranges)"

definition range_is_covered :: "NumberRange \<Rightarrow> NumberRange list \<Rightarrow> bool" where
  "range_is_covered needed available = cover_loop (nr_start needed) (nr_end needed) (sort_key nr_start available)"

definition is_reserved :: "int \<Rightarrow> bytes \<Rightarrow> NumberRange list \<Rightarrow> bytes list \<Rightarrow> bool" where
  "is_reserved number name ranges names =
    (list_ex (\<lambda>rg. number \<ge> nr_start rg \<and> number < nr_end rg) ranges \<and> list_ex (\<lambda>n. n = name) names)"

definition check_preserved_reservations ::
    "string \<Rightarrow> bytes \<Rightarrow> NumberRange list \<Rightarrow> bytes list \<Rightarrow> NumberRange list \<Rightarrow> bytes list \<Rightarrow> compat_error list" where
  "check_preserved_reservations what name old_ranges old_names new_ranges new_names =
     map (RangeReleased what name) (filter (\<lambda>rg. \<not> range_is_covered rg new_ranges) old_ranges)
     @ map (NameReleased what name) (filter (\<lambda>n. \<not> list_ex (\<lambda>m. m = n) new_names) old_names)"

definition field_errors :: "bytes \<Rightarrow> LockedMessage \<Rightarrow> int \<times> LockedField \<Rightarrow> compat_error list" where
  "field_errors name new_message old =
    (let (number, old_field) = old in
     case bt_get (lm_fields new_message) number of
       Some new_field \<Rightarrow> if new_field \<noteq> old_field then [FieldChanged name old_field number new_field] else []
     | None \<Rightarrow>
         if \<not> is_reserved number (lf_name old_field) (lm_reserved_ranges new_message) (lm_reserved_names new_message)
         then [FieldRemoved name (lf_name old_field) number] else [])"

definition message_errors :: "SchemaLock \<Rightarrow> bytes \<times> LockedMessage \<Rightarrow> compat_error list" where
  "message_errors new old =
    (let (name, old_message) = old in
     case bt_get (sl_messages new) name of
       None \<Rightarrow> [MessageRemoved name]
     | Some new_message \<Rightarrow>
         check_preserved_reservations ''message'' name (lm_reserved_ranges old_message) (lm_reserved_names old_message)
           (lm_reserved_ranges new_message) (lm_reserved_names new_message)
         @ concat (map (field_errors name new_message) (lm_fields old_message)))"

definition value_errors :: "bytes \<Rightarrow> LockedEnum \<Rightarrow> int \<times> bytes \<Rightarrow> compat_error list" where
  "value_errors name new_enum old =
    (let (number, old_name) = old in
     case bt_get (le_values new_enum) number of
       Some new_name \<Rightarrow> if new_name \<noteq> old_name then [ValueChanged name old_name number new_name] else []
     | None \<Rightarrow>
         if \<not> is_reserved number old_name (le_reserved_ranges new_enum) (le_reserved_names new_enum)
         then [ValueRemoved name old_name number] else [])"

definition enum_errors :: "SchemaLock \<Rightarrow> bytes \<times> LockedEnum \<Rightarrow> compat_error list" where
  "enum_errors new old =
    (let (name, old_enum) = old in
     case bt_get (sl_enums new) name of
       None \<Rightarrow> [EnumRemoved name]
     | Some new_enum \<Rightarrow>
         check_preserved_reservations ''enum'' name (le_reserved_ranges old_enum) (le_reserved_names old_enum)
           (le_reserved_ranges new_enum) (le_reserved_names new_enum)
         @ concat (map (value_errors name new_enum) (le_values old_enum)))"

definition method_errors :: "bytes \<Rightarrow> LockedService \<Rightarrow> bytes \<times> LockedMethod \<Rightarrow> compat_error list" where
  "method_errors name new_service old =
    (let (method, old_method) = old in
     case bt_get (lk_methods new_service) method of
       None \<Rightarrow> [RpcRemoved name method]
     | Some new_method \<Rightarrow>
         if lk_input new_method \<noteq> lk_input old_method \<or> lk_output new_method \<noteq> lk_output old_method
            \<or> lk_client_streaming new_method \<noteq> lk_client_streaming old_method
            \<or> lk_server_streaming new_method \<noteq> lk_server_streaming old_method
         then [SignatureChanged name method]
         else if lk_policy new_method \<noteq> lk_policy old_method then [PolicyChanged name method] else [])"

definition service_errors :: "SchemaLock \<Rightarrow> bytes \<times> LockedService \<Rightarrow> compat_error list" where
  "service_errors new old =
    (let (name, old_service) = old in
     case bt_get (sl_services new) name of
       None \<Rightarrow> [ServiceRemoved name]
     | Some new_service \<Rightarrow> concat (map (method_errors name new_service) (lk_methods old_service)))"

definition compatibility_errors :: "SchemaLock \<Rightarrow> SchemaLock \<Rightarrow> compat_error list" where
  "compatibility_errors old new =
     concat (map (message_errors new) (sl_messages old)) @ concat (map (enum_errors new) (sl_enums old))
     @ concat (map (service_errors new) (sl_services old))"

section \<open>Commands\<close>

datatype lock_read = NotFound | ReadFailed | LockBytes bytes

definition write_lock :: "(SchemaLock \<Rightarrow> bytes option) \<Rightarrow> descriptor_set \<Rightarrow> schema_error + bytes" where
  "write_lock to_json d =
     rbind (snapshot d) (\<lambda>lock. rbind (ok_or LockUnwritable (to_json lock)) (\<lambda>json. Inr (json @ [10])))"

definition check_lock :: "(bytes \<Rightarrow> SchemaLock option) \<Rightarrow> descriptor_set \<Rightarrow> lock_read \<Rightarrow> schema_error + unit" where
  "check_lock from_json d stored =
     rbind (snapshot d) (\<lambda>current.
     rbind (case stored of NotFound \<Rightarrow> Inl LockMissing | ReadFailed \<Rightarrow> Inl LockUnreadable | LockBytes bs \<Rightarrow> Inr bs) (\<lambda>lock_bytes.
     rbind (ok_or LockGarbled (from_json lock_bytes)) (\<lambda>previous.
     if sl_format previous \<noteq> LOCK_FORMAT then Inl (UnsupportedFormat (sl_format previous))
     else
       let errors = compatibility_errors previous current in
       if errors = [] then Inr () else Inl (BreakingChanges errors))))"

section \<open>Lemmas\<close>

definition numbers :: "NumberRange list \<Rightarrow> int set" where
  "numbers ranges = (\<Union>r \<in> set ranges. {nr_start r..<nr_end r})"

lemma cover_loop_iff:
  "sorted (map nr_start ranges) \<Longrightarrow> cursor < stop \<Longrightarrow>
   cover_loop cursor stop ranges \<longleftrightarrow> {cursor..<stop} \<subseteq> numbers ranges"
proof (induction cursor stop ranges rule: cover_loop.induct)
  case (1 cursor stop)
  then show ?case by (auto simp: numbers_def)
next
  case (2 cursor stop r rs)
  let ?c = "max cursor (nr_end r)"
  have split: "numbers (r # rs) = {nr_start r..<nr_end r} \<union> numbers rs" by (simp add: numbers_def)
  consider (skip) "nr_end r \<le> cursor" | (gap) "cursor < nr_end r" "cursor < nr_start r"
    | (whole) "cursor < nr_end r" "nr_start r \<le> cursor" "stop \<le> nr_end r"
    | (advance) "cursor < nr_end r" "nr_start r \<le> cursor" "nr_end r < stop" by linarith
  then show ?case
  proof cases
    case skip
    then have "{cursor..<stop} \<subseteq> numbers (r # rs) \<longleftrightarrow> {cursor..<stop} \<subseteq> numbers rs"
      unfolding split by fastforce
    then show ?thesis using 2 skip by simp
  next
    case gap
    then have "cursor \<notin> numbers (r # rs)" using 2(3) by (fastforce simp: numbers_def)
    then show ?thesis using gap 2(4) by auto
  next
    case whole
    then show ?thesis unfolding split by auto
  next
    case advance
    then have "{cursor..<stop} = {cursor..<nr_end r} \<union> {nr_end r..<stop}" by auto
    moreover have "{cursor..<nr_end r} \<subseteq> {nr_start r..<nr_end r}"
      "{nr_end r..<stop} \<inter> {nr_start r..<nr_end r} = {}" using advance by auto
    ultimately have "{cursor..<stop} \<subseteq> numbers (r # rs) \<longleftrightarrow> {nr_end r..<stop} \<subseteq> numbers rs"
      unfolding split by blast
    then show ?thesis using 2 advance by (simp add: max_def)
  qed
qed

lemma range_is_covered_iff:
  "nr_start needed < nr_end needed \<Longrightarrow>
   range_is_covered needed available \<longleftrightarrow> {nr_start needed..<nr_end needed} \<subseteq> numbers available"
  by (simp add: range_is_covered_def cover_loop_iff) (simp add: numbers_def)

lemma is_reserved_iff: "is_reserved n name ranges names \<longleftrightarrow> n \<in> numbers ranges \<and> name \<in> set names"
  by (auto simp: is_reserved_def numbers_def list_ex_iff)

text \<open>The shape of a lock: its maps are maps, and a field is filed under its number.\<close>

definition all_values :: "('v \<Rightarrow> bool) \<Rightarrow> ('k::linorder, 'v) btree_map \<Rightarrow> bool" where
  "all_values ok m = (bt_wf m \<and> (\<forall>(k, v) \<in> set m. ok v))"

definition message_shape :: "LockedMessage \<Rightarrow> bool" where
  "message_shape m = (bt_wf (lm_fields m) \<and> (\<forall>(n, f) \<in> set (lm_fields m). lf_number f = n))"

definition lock_shape :: "SchemaLock \<Rightarrow> bool" where
  "lock_shape l = (all_values message_shape (sl_messages l) \<and> all_values (\<lambda>e. bt_wf (le_values e)) (sl_enums l)
     \<and> all_values (\<lambda>s. bt_wf (lk_methods s)) (sl_services l))"

lemma all_values_Nil [simp]: "all_values ok []"
  by (simp add: all_values_def bt_wf_def)

lemma all_values_insert: "all_values ok m \<Longrightarrow> ok v \<Longrightarrow> all_values ok (bt_insert k v m)"
  using bt_insert_set [of k v m] by (fastforce simp: all_values_def bt_insert_wf)

text \<open>What protoc enforces for every schema it compiles: reserved ranges are not empty, and no number in use is
  reserved.\<close>

definition non_empty :: "NumberRange list \<Rightarrow> bool" where
  "non_empty ranges = list_all (\<lambda>r. nr_start r < nr_end r) ranges"

definition ranges_ok :: "SchemaLock \<Rightarrow> bool" where
  "ranges_ok l = ((\<forall>(name, m) \<in> set (sl_messages l). non_empty (lm_reserved_ranges m))
     \<and> (\<forall>(name, e) \<in> set (sl_enums l). non_empty (le_reserved_ranges e)))"

definition unreserved :: "SchemaLock \<Rightarrow> bool" where
  "unreserved l = ((\<forall>(name, m) \<in> set (sl_messages l). \<forall>n \<in> fst ` set (lm_fields m). n \<notin> numbers (lm_reserved_ranges m))
     \<and> (\<forall>(name, e) \<in> set (sl_enums l). \<forall>n \<in> fst ` set (le_values e). n \<notin> numbers (le_reserved_ranges e)))"

definition lock_wf :: "SchemaLock \<Rightarrow> bool" where
  "lock_wf l = (lock_shape l \<and> ranges_ok l \<and> unreserved l)"

text \<open>The contract of one numbered table, fields or values: every old number keeps its meaning or is
  retired, with its number and its name reserved; and nothing reserved is released.\<close>

definition table_compatible ::
    "('v \<Rightarrow> bytes) \<Rightarrow> (int, 'v) btree_map \<Rightarrow> NumberRange list \<Rightarrow> bytes list
      \<Rightarrow> (int, 'v) btree_map \<Rightarrow> NumberRange list \<Rightarrow> bytes list \<Rightarrow> bool" where
  "table_compatible name_of old old_ranges old_names new new_ranges new_names =
    (numbers old_ranges \<subseteq> numbers new_ranges \<and> set old_names \<subseteq> set new_names
     \<and> (\<forall>n v. bt_get old n = Some v \<longrightarrow>
          bt_get new n = Some v
        \<or> bt_get new n = None \<and> n \<in> numbers new_ranges \<and> name_of v \<in> set new_names))"

definition message_compatible :: "LockedMessage \<Rightarrow> LockedMessage \<Rightarrow> bool" where
  "message_compatible old new = table_compatible lf_name (lm_fields old) (lm_reserved_ranges old) (lm_reserved_names old)
     (lm_fields new) (lm_reserved_ranges new) (lm_reserved_names new)"

definition enum_compatible :: "LockedEnum \<Rightarrow> LockedEnum \<Rightarrow> bool" where
  "enum_compatible old new = table_compatible (\<lambda>name. name) (le_values old) (le_reserved_ranges old) (le_reserved_names old)
     (le_values new) (le_reserved_ranges new) (le_reserved_names new)"

definition kept :: "('v \<Rightarrow> 'v \<Rightarrow> bool) \<Rightarrow> ('k, 'v) btree_map \<Rightarrow> ('k, 'v) btree_map \<Rightarrow> bool" where
  "kept ok old new = (\<forall>k v. bt_get old k = Some v \<longrightarrow> (\<exists>w. bt_get new k = Some w \<and> ok v w))"

definition compatible :: "SchemaLock \<Rightarrow> SchemaLock \<Rightarrow> bool" where
  "compatible old new = (kept message_compatible (sl_messages old) (sl_messages new)
     \<and> kept enum_compatible (sl_enums old) (sl_enums new)
     \<and> kept (\<lambda>s t. kept (=) (lk_methods s) (lk_methods t)) (sl_services old) (sl_services new))"

lemma bt_get_iff: "bt_wf m \<Longrightarrow> bt_get m k = Some v \<longleftrightarrow> (k, v) \<in> set m"
  using bt.in_entries_iff [of m k v] by simp

lemma numbers_subset:
  assumes "non_empty old"
  shows "list_all (\<lambda>r. range_is_covered r new) old \<longleftrightarrow> numbers old \<subseteq> numbers new"
  using assms by (auto simp: non_empty_def list_all_iff range_is_covered_iff numbers_def [of old])

lemma reservations_Nil:
  assumes "non_empty old_ranges"
  shows "check_preserved_reservations what name old_ranges old_names new_ranges new_names = [] \<longleftrightarrow>
    numbers old_ranges \<subseteq> numbers new_ranges \<and> set old_names \<subseteq> set new_names"
  unfolding numbers_subset [OF assms, symmetric]
  by (auto simp: check_preserved_reservations_def filter_empty_conv list_all_iff list_ex_iff)

lemma message_errors_Nil:
  assumes "non_empty (lm_reserved_ranges m)" "bt_wf (lm_fields m)"
  shows "message_errors new (name, m) = [] \<longleftrightarrow>
    (\<exists>m'. bt_get (sl_messages new) name = Some m' \<and> message_compatible m m')"
proof (cases "bt_get (sl_messages new) name")
  case (Some m')
  have f: "field_errors name m' (n, f) = [] \<longleftrightarrow> bt_get (lm_fields m') n = Some f
      \<or> bt_get (lm_fields m') n = None \<and> n \<in> numbers (lm_reserved_ranges m') \<and> lf_name f \<in> set (lm_reserved_names m')"
    for n f by (auto simp: field_errors_def is_reserved_iff split: option.splits)
  show ?thesis using Some assms
    by (simp add: message_errors_def reservations_Nil message_compatible_def table_compatible_def bt_get_iff)
      (fastforce simp: f)
qed (simp add: message_errors_def)

lemma enum_errors_Nil:
  assumes "non_empty (le_reserved_ranges m)" "bt_wf (le_values m)"
  shows "enum_errors new (name, m) = [] \<longleftrightarrow>
    (\<exists>m'. bt_get (sl_enums new) name = Some m' \<and> enum_compatible m m')"
proof (cases "bt_get (sl_enums new) name")
  case (Some m')
  have f: "value_errors name m' (n, f) = [] \<longleftrightarrow> bt_get (le_values m') n = Some f
      \<or> bt_get (le_values m') n = None \<and> n \<in> numbers (le_reserved_ranges m') \<and> f \<in> set (le_reserved_names m')"
    for n f by (auto simp: value_errors_def is_reserved_iff split: option.splits)
  show ?thesis using Some assms
    by (simp add: enum_errors_def reservations_Nil enum_compatible_def table_compatible_def bt_get_iff)
      (fastforce simp: f)
qed (simp add: enum_errors_def)

lemma service_errors_Nil:
  assumes "bt_wf (lk_methods s)"
  shows "service_errors new (name, s) = [] \<longleftrightarrow>
    (\<exists>t. bt_get (sl_services new) name = Some t \<and> kept (=) (lk_methods s) (lk_methods t))"
proof (cases "bt_get (sl_services new) name")
  case (Some t)
  have f: "method_errors name t (n, f) = [] \<longleftrightarrow> bt_get (lk_methods t) n = Some f" for n f
    by (auto simp: method_errors_def split: option.splits)
  show ?thesis using Some assms
    by (simp add: service_errors_def kept_def bt_get_iff) (fastforce simp: f)
qed (simp add: service_errors_def)

lemma concat_kept:
  assumes "bt_wf old" "\<And>k v. (k, v) \<in> set old \<Longrightarrow> errs (k, v) = [] \<longleftrightarrow> (\<exists>w. bt_get new k = Some w \<and> ok v w)"
  shows "concat (map errs old) = [] \<longleftrightarrow> kept ok old new"
  using assms by (fastforce simp: kept_def bt_get_iff)

lemma compatibility_errors_Nil:
  assumes "lock_shape old" "ranges_ok old"
  shows "compatibility_errors old new = [] \<longleftrightarrow> compatible old new"
proof -
  have wf: "bt_wf (sl_messages old)" "bt_wf (sl_enums old)" "bt_wf (sl_services old)"
    "\<And>n m. (n, m) \<in> set (sl_messages old) \<Longrightarrow> non_empty (lm_reserved_ranges m) \<and> bt_wf (lm_fields m)"
    "\<And>n m. (n, m) \<in> set (sl_enums old) \<Longrightarrow> non_empty (le_reserved_ranges m) \<and> bt_wf (le_values m)"
    "\<And>n m. (n, m) \<in> set (sl_services old) \<Longrightarrow> bt_wf (lk_methods m)"
    using assms by (auto simp: lock_shape_def all_values_def message_shape_def ranges_ok_def)
  have "concat (map (message_errors new) (sl_messages old)) = [] \<longleftrightarrow>
      kept message_compatible (sl_messages old) (sl_messages new)"
    by (rule concat_kept [OF wf(1)]) (simp add: message_errors_Nil wf(4))
  moreover have "concat (map (enum_errors new) (sl_enums old)) = [] \<longleftrightarrow>
      kept enum_compatible (sl_enums old) (sl_enums new)"
    by (rule concat_kept [OF wf(2)]) (simp add: enum_errors_Nil wf(5))
  moreover have "concat (map (service_errors new) (sl_services old)) = [] \<longleftrightarrow>
      kept (\<lambda>s t. kept (=) (lk_methods s) (lk_methods t)) (sl_services old) (sl_services new)"
    by (rule concat_kept [OF wf(3)]) (simp add: service_errors_Nil wf(6))
  ultimately show ?thesis unfolding compatibility_errors_def compatible_def append_is_Nil_conv by blast
qed

lemma table_compatible_trans:
  assumes "table_compatible nm a ar an b br bn" "table_compatible nm b br bn c cr cn"
    and "\<And>n v. bt_get c n = Some v \<Longrightarrow> n \<notin> numbers cr"
  shows "table_compatible nm a ar an c cr cn"
proof -
  have s: "numbers ar \<subseteq> numbers br" "numbers br \<subseteq> numbers cr" "set an \<subseteq> set bn" "set bn \<subseteq> set cn"
    using assms(1,2) by (simp_all add: table_compatible_def)
  have "bt_get c n = Some v \<or> bt_get c n = None \<and> n \<in> numbers cr \<and> nm v \<in> set cn" if "bt_get a n = Some v" for n v
  proof (cases "bt_get b n = Some v")
    case True
    then show ?thesis using assms(2) by (auto simp: table_compatible_def)
  next
    case False
    then have "n \<in> numbers cr" "nm v \<in> set cn" using that assms(1) s unfolding table_compatible_def by blast+
    then show ?thesis using assms(3) by (cases "bt_get c n") auto
  qed
  then show ?thesis using s by (auto simp: table_compatible_def)
qed

lemma kept_trans:
  assumes "kept ok a b" "kept ok b c" "\<And>k x y z. bt_get c k = Some z \<Longrightarrow> ok x y \<Longrightarrow> ok y z \<Longrightarrow> ok x z"
  shows "kept ok a c"
  using assms unfolding kept_def by meson

lemma kept_refl: "(\<And>x. ok x x) \<Longrightarrow> kept ok a a"
  by (simp add: kept_def)

lemma compatible_refl: "compatible l l"
  unfolding compatible_def message_compatible_def enum_compatible_def
  by (intro conjI kept_refl) (simp_all add: table_compatible_def)

lemma compatible_trans:
  assumes "compatible a b" "compatible b c" "lock_wf c"
  shows "compatible a c"
proof -
  have m: "n \<notin> numbers (lm_reserved_ranges m)" if "bt_get (sl_messages c) k = Some m" "bt_get (lm_fields m) n = Some f" for k m n f
    using assms(3) that [THEN bt_get_Some_in] by (fastforce simp: lock_wf_def unreserved_def)
  have e: "n \<notin> numbers (le_reserved_ranges m)" if "bt_get (sl_enums c) k = Some m" "bt_get (le_values m) n = Some f" for k m n f
    using assms(3) that [THEN bt_get_Some_in] by (fastforce simp: lock_wf_def unreserved_def)
  have "kept message_compatible (sl_messages a) (sl_messages c)"
    using assms(1,2) m unfolding compatible_def message_compatible_def by (blast intro: kept_trans table_compatible_trans)
  moreover have "kept enum_compatible (sl_enums a) (sl_enums c)"
    using assms(1,2) e unfolding compatible_def enum_compatible_def by (blast intro: kept_trans table_compatible_trans)
  moreover have "kept (\<lambda>s t. kept (=) (lk_methods s) (lk_methods t)) (sl_services a) (sl_services c)"
    using assms(1,2) unfolding compatible_def by (blast intro: kept_trans)
  ultimately show ?thesis by (simp add: compatible_def)
qed

definition accepts :: "SchemaLock \<Rightarrow> SchemaLock \<Rightarrow> bool" where
  "accepts old new = (lock_wf new \<and> compatibility_errors old new = [])"

lemma history_compatible: "accepts\<^sup>*\<^sup>* l0 l \<Longrightarrow> lock_wf l0 \<Longrightarrow> lock_wf l \<and> compatible l0 l"
proof (induction rule: rtranclp_induct)
  case base
  then show ?case by (simp add: compatible_refl)
next
  case (step b c)
  then show ?case using compatibility_errors_Nil [of b c] compatible_trans [of l0 b c] by (auto simp: accepts_def lock_wf_def)
qed

text \<open>Claim C36. The lock check is exact: against a well-formed stored lock, a schema is accepted exactly when
  every message, enum and service is still there, every field number and enum value keeps its exact meaning or
  is retired with its number and name reserved, no reserved number or name is released, and every RPC keeps
  its signature and policy.\<close>

theorem check_lock_exact:
  assumes "from_json bs = Some previous" and "lock_shape previous" and "ranges_ok previous"
  shows "check_lock from_json d (LockBytes bs) = Inr () \<longleftrightarrow>
    (\<exists>current. snapshot d = Inr current \<and> sl_format previous = LOCK_FORMAT \<and> compatible previous current)"
  using assms compatibility_errors_Nil [OF assms(2,3)] by (auto simp: check_lock_def Let_def split: if_splits)

text \<open>Claim C35. A number never changes its meaning: along any history of schemas each accepted against its
  predecessor's lock, and whatever was added and removed in between, a field number of the first schema is in
  the last one the same field, or unused with its number and name reserved.\<close>

theorem history_keeps_numbers:
  assumes "lock_wf l0" and "accepts\<^sup>*\<^sup>* l0 l"
    and "bt_get (sl_messages l0) name = Some m" and "bt_get (lm_fields m) n = Some f"
  shows "\<exists>m'. bt_get (sl_messages l) name = Some m' \<and> (bt_get (lm_fields m') n = Some f
    \<or> bt_get (lm_fields m') n = None \<and> is_reserved n (lf_name f) (lm_reserved_ranges m') (lm_reserved_names m'))"
proof -
  obtain m' where "bt_get (sl_messages l) name = Some m'" "message_compatible m m'"
    using history_compatible [OF assms(2,1)] assms(3) unfolding compatible_def kept_def by blast
  then show ?thesis using assms(4) unfolding message_compatible_def table_compatible_def is_reserved_iff by blast
qed

section \<open>The snapshot\<close>

lemma foldl_bt_collect: "bt_wf m \<Longrightarrow> bt_wf (foldl (\<lambda>m (k, v). bt_insert k v m) m ps)"
  by (rule bt.wf_fold)

lemma bt_collect_wf: "bt_wf (bt_collect ps)"
  unfolding bt_collect_def by (rule foldl_bt_collect) (simp add: bt_wf_def)

lemma foldl_bt_set: "set (foldl (\<lambda>m (k, v). bt_insert k v m) m ps) \<subseteq> set m \<union> set ps"
proof (induction ps arbitrary: m)
  case (Cons p ps)
  then show ?case using bt_insert_set [of "fst p" "snd p" m] by (fastforce split: prod.splits)
qed simp

lemma bt_collect_set: "set (bt_collect ps) \<subseteq> set ps"
  using foldl_bt_set [of "[]" ps] by (simp add: bt_collect_def)

lemma try_map_in: "try_map f xs = Inr ys \<Longrightarrow> y \<in> set ys \<Longrightarrow> \<exists>x \<in> set xs. f x = Inr y"
  by (induction xs arbitrary: ys) auto

lemma snapshot_field_number: "try_map snapshot_field fs = Inr ps \<Longrightarrow> (n, f) \<in> set ps \<Longrightarrow> lf_number f = n"
  by (auto dest!: try_map_in simp: snapshot_field_def)

definition lock_typed :: "SchemaLock \<Rightarrow> bool" where
  "lock_typed l = (lock_shape l \<and> sl_format l = LOCK_FORMAT)"

lemma snapshot_enum_typed: "lock_typed l \<Longrightarrow> snapshot_enum prefix e l = Inr l' \<Longrightarrow> lock_typed l'"
  by (auto simp: snapshot_enum_def lock_typed_def lock_shape_def bt_collect_wf intro!: all_values_insert)

lemma locked_message_typed:
  assumes "try_map snapshot_field fs = Inr pairs"
  shows "message_shape (locked_message pairs m)"
  using snapshot_field_number [OF assms] bt_collect_set [of pairs]
  by (auto simp: message_shape_def locked_message_def bt_collect_wf)

lemma snapshot_message_typed: "snapshot_message prefix m l = Inr l' \<Longrightarrow> lock_typed l \<Longrightarrow> lock_typed l'"
proof (induction prefix m l arbitrary: l' rule: snapshot_message.induct)
  case (1 prefix m l)
  obtain name pairs l2 where s: "ds_name m = Some name" "try_map snapshot_field (ds_field m) = Inr pairs"
    "try_fold (\<lambda>l nested. snapshot_message (qualify prefix name) nested l)
       (l\<lparr>sl_messages := bt_insert (qualify prefix name) (locked_message pairs m) (sl_messages l)\<rparr>)
       (ds_nested_type m) = Inr l2"
    "try_fold (\<lambda>l e. snapshot_enum (qualify prefix name) e l) l2 (ds_enum_type m) = Inr l'"
    using 1(2) by (subst (asm) snapshot_message.simps) (auto simp: required_value_def Let_def)
  have "lock_typed (l\<lparr>sl_messages := bt_insert (qualify prefix name) (locked_message pairs m) (sl_messages l)\<rparr>)"
    using 1(3) locked_message_typed [OF s(2), of m] by (simp add: lock_typed_def lock_shape_def all_values_insert)
  then have "lock_typed l2"
    by (rule try_fold_invariant [OF s(3)]) (rule 1(1) [OF _ refl s(2)], auto simp: required_value_def s(1))
  then show ?case by (rule try_fold_invariant [OF s(4)]) (auto intro: snapshot_enum_typed)
qed

lemma snapshot_method_wf: "bt_wf ms \<Longrightarrow> snapshot_method full policies ms m = Inr ms' \<Longrightarrow> bt_wf ms'"
  by (auto simp: snapshot_method_def Let_def bt_insert_wf)

lemma snapshot_service_typed:
  assumes "lock_typed l" "snapshot_service package policies l s = Inr l'"
  shows "lock_typed l'"
proof -
  obtain name methods where s: "try_fold (snapshot_method (qualify package name) policies) [] (sv_method s) = Inr methods"
    "l' = l\<lparr>sl_services := bt_insert (qualify package name) \<lparr>lk_methods = methods\<rparr> (sl_services l)\<rparr>"
    using assms(2) by (auto simp: snapshot_service_def Let_def)
  have "bt_wf methods" by (rule try_fold_invariant [OF s(1)]) (auto simp: bt_wf_def [of "[]"] intro: snapshot_method_wf)
  then show ?thesis using assms(1) s(2) by (simp add: lock_typed_def lock_shape_def all_values_insert)
qed

lemma snapshot_file_typed:
  assumes "lock_typed l" "snapshot_file policies l file = Inr l'"
  shows "lock_typed l'"
proof -
  let ?p = "case fd_package file of Some p \<Rightarrow> p | None \<Rightarrow> []"
  obtain l1 l2 where s: "try_fold (\<lambda>l m. snapshot_message ?p m l) l (fd_message_type file) = Inr l1"
    "try_fold (\<lambda>l e. snapshot_enum ?p e l) l1 (fd_enum_type file) = Inr l2"
    "try_fold (snapshot_service ?p policies) l2 (fd_service file) = Inr l'"
    using assms(2) by (auto simp: snapshot_file_def Let_def)
  from assms(1) have "lock_typed l1" by (rule try_fold_invariant [OF s(1)]) (auto intro: snapshot_message_typed)
  then have "lock_typed l2" by (rule try_fold_invariant [OF s(2)]) (auto intro: snapshot_enum_typed)
  then show ?thesis by (rule try_fold_invariant [OF s(3)]) (auto intro: snapshot_service_typed)
qed

lemma snapshot_typed: "snapshot d = Inr l \<Longrightarrow> lock_typed l"
proof -
  assume "snapshot d = Inr l"
  then obtain policies where "try_fold (\<lambda>lock file. if fd_name file \<in> skipped_files then Inr lock else snapshot_file policies lock file)
       \<lparr>sl_format = LOCK_FORMAT, sl_messages = [], sl_enums = [], sl_services = []\<rparr> (set_files d) = Inr l"
    by (auto simp: snapshot_def)
  moreover have "lock_typed \<lparr>sl_format = LOCK_FORMAT, sl_messages = [], sl_enums = [], sl_services = []\<rparr>"
    by (simp add: lock_typed_def lock_shape_def)
  ultimately show ?thesis by (rule try_fold_invariant) (auto intro: snapshot_file_typed split: if_splits)
qed

text \<open>A fresh lock accepts its own schema: what \<open>write_lock\<close> writes for a schema with non-empty
  reserved ranges, \<open>check_lock\<close> accepts for the same schema, given that the JSON codec reads back what it
  wrote, with the newline the file ends in.\<close>

theorem written_lock_accepts_schema:
  assumes "\<forall>l j. to_json l = Some j \<longrightarrow> from_json (j @ [10]) = Some l"
    and "snapshot d = Inr l" and "ranges_ok l" and "write_lock to_json d = Inr bs"
  shows "check_lock from_json d (LockBytes bs) = Inr ()"
proof -
  obtain j where "to_json l = Some j" "bs = j @ [10]" using assms(2,4) by (auto simp: write_lock_def)
  then have "from_json bs = Some l" using assms(1) by simp
  moreover have "sl_format l = LOCK_FORMAT" "compatibility_errors l l = []"
    using snapshot_typed [OF assms(2)] compatibility_errors_Nil [of l l] compatible_refl assms(3)
    by (simp_all add: lock_typed_def)
  ultimately show ?thesis using assms(2) by (simp add: check_lock_def del: rbind_eq_Inr)
qed


text \<open>The largest number of an enum can never be retired: its reserved range is inclusive in the descriptor
  and saturates when it is made exclusive, so the range is empty in the lock.\<close>

lemma enum_range_below_max:
  assumes "snapshot_enum prefix e l = Inr l'" "en_name e = Some name"
    and "bt_wf (sl_enums l)" "bt_get (sl_enums l') (qualify prefix name) = Some new"
  shows "i32_max \<notin> numbers (le_reserved_ranges new)"
  using assms
  by (auto simp: snapshot_enum_def required_value_def bt_get_insert numbers_def i32_saturating_add_def i32_max_def min_def max_def split: if_splits)

text \<open>An enum value numbered 2147483647 cannot be removed compatibly: the report says it was removed
  without a reservation whatever the new descriptor reserves.\<close>

theorem enum_max_never_retired:
  assumes "snapshot_enum prefix e l = Inr l'" and "en_name e = Some name" and "bt_wf (sl_enums l)"
    and "bt_get (sl_enums l') (qualify prefix name) = Some new" and "bt_get (le_values new) i32_max = None"
  shows "value_errors full new (i32_max, old_name) = [ValueRemoved full old_name i32_max]"
  using enum_range_below_max [OF assms(1-4)] assms(5) by (simp add: value_errors_def is_reserved_iff)

section \<open>Samples\<close>

definition sample_field :: LockedField where
  "sample_field = \<lparr>lf_name = str ''id'', lf_number = 1, lf_label = 1, lf_kind = 5, lf_type_name = [],
     lf_oneof_index = None, lf_proto3_optional = False\<rparr>"

definition one_message :: "LockedMessage \<Rightarrow> SchemaLock" where
  "one_message m = \<lparr>sl_format = LOCK_FORMAT, sl_messages = [(str ''a.M'', m)], sl_enums = [], sl_services = []\<rparr>"

definition first_lock :: SchemaLock where
  "first_lock = one_message \<lparr>lm_fields = [(1, sample_field)], lm_reserved_ranges = [], lm_reserved_names = []\<rparr>"

definition second_lock :: SchemaLock where
  "second_lock = one_message \<lparr>lm_fields = [], lm_reserved_ranges = [\<lparr>nr_start = 1, nr_end = 2\<rparr>],
     lm_reserved_names = [str ''id'']\<rparr>"

definition empty_set :: descriptor_set where
  "empty_set = \<lparr>set_files = [], set_extension = False, set_services = []\<rparr>"

lemmas lock_samples = first_lock_def second_lock_def one_message_def sample_field_def

lemma samples_wf: "lock_wf first_lock" "lock_wf second_lock"
  by (simp_all add: lock_samples lock_wf_def lock_shape_def all_values_def message_shape_def ranges_ok_def
      non_empty_def unreserved_def numbers_def bt_wf_def)

lemma sample_accepted: "accepts first_lock second_lock"
proof -
  have "compatible first_lock second_lock"
    by (simp add: lock_samples compatible_def kept_def message_compatible_def table_compatible_def bt_get_def numbers_def)
  then show ?thesis using samples_wf compatibility_errors_Nil [of first_lock second_lock]
    by (simp add: accepts_def lock_wf_def)
qed

lemma empty_snapshot:
  "snapshot empty_set = Inr \<lparr>sl_format = LOCK_FORMAT, sl_messages = [], sl_enums = [], sl_services = []\<rparr>"
  by (simp add: snapshot_def empty_set_def policies_from_pool_def del: rbind_eq_Inr)

theorem check_lock_exact_witness:
  "check_lock (\<lambda>bs. Some first_lock) empty_set (LockBytes []) \<noteq> Inr ()"
  using check_lock_exact [of "\<lambda>bs. Some first_lock" "[]" first_lock empty_set] samples_wf(1)
  by (auto simp: lock_wf_def empty_snapshot compatible_def kept_def lock_samples bt_get_def)

theorem history_keeps_numbers_witness:
  "\<exists>m'. bt_get (sl_messages second_lock) (str ''a.M'') = Some m'
     \<and> bt_get (lm_fields m') 1 = None \<and> is_reserved 1 (str ''id'') (lm_reserved_ranges m') (lm_reserved_names m')"
proof -
  have "bt_get (sl_messages first_lock) (str ''a.M'') =
      Some \<lparr>lm_fields = [(1, sample_field)], lm_reserved_ranges = [], lm_reserved_names = []\<rparr>"
    by (simp add: first_lock_def one_message_def bt_get_def)
  from history_keeps_numbers [OF samples_wf(1) r_into_rtranclp [of accepts, OF sample_accepted] this, of 1 sample_field]
  show ?thesis by (auto simp: bt_get_def second_lock_def one_message_def sample_field_def)
qed

theorem written_lock_accepts_schema_witness:
  "\<exists>bs. write_lock (\<lambda>l. if l = \<lparr>sl_format = LOCK_FORMAT, sl_messages = [], sl_enums = [], sl_services = []\<rparr>
            then Some [] else None) empty_set = Inr bs
     \<and> check_lock (\<lambda>bs. if bs = [10] then Some \<lparr>sl_format = LOCK_FORMAT, sl_messages = [], sl_enums = [],
            sl_services = []\<rparr> else None) empty_set (LockBytes bs) = Inr ()"
proof -
  let ?l = "\<lparr>sl_format = LOCK_FORMAT, sl_messages = [], sl_enums = [], sl_services = []\<rparr>"
  let ?to = "\<lambda>l. if l = ?l then Some [] else None" and ?from = "\<lambda>bs. if bs = [10] then Some ?l else None"
  have w: "write_lock ?to empty_set = Inr [10]" by (simp add: write_lock_def empty_snapshot)
  have "check_lock ?from empty_set (LockBytes [10]) = Inr ()"
    by (rule written_lock_accepts_schema [of ?to ?from, OF _ empty_snapshot _ w]) (simp_all add: ranges_ok_def)
  with w show ?thesis by blast
qed


definition max_enum :: EnumDescriptor where
  "max_enum = \<lparr>en_name = Some (str ''E''), en_value = [], en_reserved_range = [(Some i32_max, Some i32_max)],
     en_reserved_name = [str ''LAST'']\<rparr>"

theorem enum_max_never_retired_witness:
  "\<exists>l' new. snapshot_enum [] max_enum second_lock = Inr l' \<and> bt_get (sl_enums l') (str ''E'') = Some new
     \<and> value_errors (str ''E'') new (i32_max, str ''LAST'') = [ValueRemoved (str ''E'') (str ''LAST'') i32_max]"
proof -
  define new where "new = \<lparr>le_values = [], le_reserved_ranges = [\<lparr>nr_start = i32_max, nr_end = i32_max\<rparr>],
     le_reserved_names = [str ''LAST'']\<rparr>"
  define l' where "l' = second_lock\<lparr>sl_enums := [(str ''E'', new)]\<rparr>"
  have s: "snapshot_enum [] max_enum second_lock = Inr l'"
    by (simp add: snapshot_enum_def max_enum_def required_value_def l'_def new_def bt_collect_def qualify_def
        i32_saturating_add_def i32_max_def or_zero_def second_lock_def one_message_def del: rbind_eq_Inr)
  have g: "bt_get (sl_enums l') (qualify [] (str ''E'')) = Some new" by (simp add: l'_def bt_get_def qualify_def)
  have "value_errors (str ''E'') new (i32_max, str ''LAST'') = [ValueRemoved (str ''E'') (str ''LAST'') i32_max]"
    by (rule enum_max_never_retired [OF s _ _ g])
      (simp_all add: max_enum_def second_lock_def one_message_def bt_wf_def new_def bt_get_def)
  with s g show ?thesis by (auto simp: qualify_def)
qed

end
