(* ===== verification/Source_Schema.thy ===== *)
theory Source_Schema
  imports Schema_Lock
begin

text \<open>
  Code-first schemas of the generator, crates/moonlight-bridge-codegen/src/source.rs: field and enum numbers
  assigned against a lock, the Protobuf declarations of a message, an enum and a service, and reading
  the lock.

  The syntax trees are data of the syn crate and JSON values data of serde_json; the datatypes keep what the
  generator reads.  Rust identifiers are ASCII text.  A line written to the schema is a constructor of
  \<open>proto_line\<close> with the values its text is made of, and an \<open>io::Error\<close> a constructor of \<open>source_error\<close>.  A
  \<open>BTreeSet\<close> is a strictly sorted list.
\<close>

section \<open>Locked schemas and output\<close>

record SourceMessage =
  sm_fields :: "(int, bytes) btree_map"
  sm_reserved_numbers :: "int list"
  sm_reserved_names :: "bytes list"

record SourceEnum =
  sn_values :: "(int, bytes) btree_map"
  sn_reserved_numbers :: "int list"
  sn_reserved_names :: "bytes list"

record LockedSchema =
  ls_messages :: "(bytes, SourceMessage) btree_map"
  ls_enums :: "(bytes, SourceEnum) btree_map"

datatype proto_line =
    MessageOpen bytes
  | EnumOpen bytes
  | ServiceOpen bytes
  | ReservedNumber int
  | ReservedName bytes
  | FieldLine string bytes bytes int
  | ValueLine bytes int
  | RpcLine bytes bytes bool bytes bool
  | PolicyOpen
  | PolicyValue bytes bytes
  | RetryOpen
  | RetryValue bytes bytes
  | RetryClose
  | ScopeLine bytes
  | PolicyClose
  | BlockClose

datatype source_error =
    NotPathType
  | EmptyTypePath
  | NeedsTypeArgument bytes
  | QualifiedType bytes
  | UnnamedFields bytes
  | UnsupportedType bytes bytes source_error
  | VariantWithFields bytes
  | NoZeroVariant bytes
  | NeedsRequestType bytes bytes
  | NeedsResponseType bytes bytes
  | UnknownPolicyOption bytes
  | ExpectedOptionName
  | ExpectedOptionValue
  | InvalidFieldNumber bytes
  | InvalidValueNumber bytes

section \<open>Numbers\<close>

text \<open>\<open>BTreeSet::extend\<close> and \<open>insert\<close>.\<close>

definition set_extend :: "'a::linorder list \<Rightarrow> 'a list \<Rightarrow> 'a list" where
  "set_extend s xs = fold insort_insert xs s"

function first_free :: "int list \<Rightarrow> int \<Rightarrow> int" where
  "first_free taken candidate =
    (if candidate \<in> set taken \<or> 19000 \<le> candidate \<and> candidate \<le> 19999
     then first_free taken (candidate + 1) else candidate)"
  by pat_completeness auto

lemma first_free_measure:
  assumes "c \<in> set taken \<or> 19000 \<le> c \<and> c \<le> 19999"
  shows "c \<le> Max (insert 19999 (set taken))"
proof -
  from assms have "c \<le> 19999 \<or> c \<in> insert 19999 (set taken)" by auto
  moreover have "19999 \<le> Max (insert 19999 (set taken))" by (rule Max_ge) simp_all
  ultimately show ?thesis by (metis List.finite_set Max_ge finite_insert order_trans)
qed

termination first_free
  by (relation "measure (\<lambda>(taken, c). nat (Max (insert 19999 (set taken)) + 1 - c))")
    (simp, use first_free_measure in \<open>fastforce\<close>)

declare first_free.simps [simp del]

definition next_number :: "int list \<Rightarrow> int" where
  "next_number taken = first_free taken 1"

definition next_enum_number :: "int list \<Rightarrow> int" where
  "next_enum_number taken = first_free taken 0"

text \<open>One declared name: the locked number under that name, or the next free one; either is taken from then on.\<close>

definition locked_number :: "(int, bytes) btree_map \<Rightarrow> bytes \<Rightarrow> int option" where
  "locked_number table name = map_option fst (find (\<lambda>(number, old_name). old_name = name) table)"

fun assign_numbers :: "(int list \<Rightarrow> int) \<Rightarrow> (int, bytes) btree_map \<Rightarrow> int list \<Rightarrow> bytes list \<Rightarrow> (int \<times> bytes) list" where
  "assign_numbers pick table taken [] = []"
| "assign_numbers pick table taken (name # names) =
    (let number = (case locked_number table name of Some n \<Rightarrow> n | None \<Rightarrow> pick taken) in
     (number, name) # assign_numbers pick table (insort_insert number taken) names)"

section \<open>Messages and enums\<close>

definition reserved_lines ::
    "(int, bytes) btree_map \<Rightarrow> int list \<Rightarrow> bytes list \<Rightarrow> bytes list \<Rightarrow> proto_line list" where
  "reserved_lines table reserved names current_names =
     concat (map (\<lambda>(number, old_name). [ReservedNumber number, ReservedName old_name])
       (filter (\<lambda>(number, old_name). old_name \<notin> set current_names) table))
     @ map ReservedNumber reserved @ map ReservedName names"

definition first_taken :: "(int, bytes) btree_map \<Rightarrow> int list \<Rightarrow> int list" where
  "first_taken table reserved = set_extend (map fst table) reserved"

subsection \<open>Field types\<close>

datatype rust_type = TPath "rust_segment list" | TOther
  and rust_segment = Segment (seg_ident: bytes) (seg_args: "rust_arg list option")
  and rust_arg = AType rust_type | AOther

text \<open>\<open>find_map\<close> for the first type argument.\<close>

fun first_type :: "rust_arg list \<Rightarrow> rust_type option" where
  "first_type [] = None"
| "first_type (AType ty # _) = Some ty"
| "first_type (AOther # args) = first_type args"

definition simple_type_name :: "rust_type \<Rightarrow> bytes option" where
  "simple_type_name ty = (case ty of TPath [segment] \<Rightarrow> Some (seg_ident segment) | _ \<Rightarrow> None)"

definition scalar_type :: "bytes \<Rightarrow> bytes option" where
  "scalar_type name = map_of
     [(str ''String'', str ''string''), (str ''str'', str ''string''), (str ''bool'', str ''bool''),
      (str ''i32'', str ''int32''), (str ''i64'', str ''int64''), (str ''u32'', str ''uint32''),
      (str ''u64'', str ''uint64''), (str ''f32'', str ''float''), (str ''f64'', str ''double'')] name"

lemma first_type_size: "first_type args = Some ty \<Longrightarrow> size ty < size_list size args"
  by (induction args rule: first_type.induct) auto

lemma last_arg_size:
  assumes "segments \<noteq> []" "seg_args (last segments) = Some args" "first_type args = Some ty"
  shows "size ty < size (TPath segments)"
proof -
  obtain n where l: "last segments = Segment n (Some args)" using assms(2) by (cases "last segments") auto
  have "size (last segments) \<le> size_list size segments"
    using assms(1) by (intro size_list_estimation' [OF last_in_set order.refl])
  then show ?thesis using l first_type_size [OF assms(3)] by simp
qed

function proto_type :: "rust_type \<Rightarrow> source_error + string \<times> bytes" where
  "proto_type TOther = Inl NotPathType"
| "proto_type (TPath segments) =
    (if segments = [] then Inl EmptyTypePath
     else
       let name = seg_ident (last segments) in
       if name = str ''Vec'' \<or> name = str ''Option'' then
         (case seg_args (last segments) of
            None \<Rightarrow> Inl (NeedsTypeArgument name)
          | Some args \<Rightarrow>
            (case first_type args of
               None \<Rightarrow> Inl (NeedsTypeArgument name)
             | Some inner \<Rightarrow>
                 if name = str ''Vec'' \<and> simple_type_name inner = Some (str ''u8'') then Inr ([], str ''bytes'')
                 else rbind (proto_type inner) (\<lambda>(_, inner).
                   Inr (if name = str ''Vec'' then ''repeated '' else ''optional '', inner))))
       else
         (case scalar_type name of
            Some mapped \<Rightarrow> Inr ([], mapped)
          | None \<Rightarrow> if length segments = 1 then Inr ([], name) else Inl (QualifiedType name)))"
  by pat_completeness auto

termination proto_type
  by (relation "measure size") (auto dest: last_arg_size)

declare proto_type.simps(2) [simp del]

subsection \<open>Declarations\<close>

record ItemStruct =
  st_name :: bytes
  st_fields :: "(bytes \<times> rust_type) list option"

definition field_line :: "bytes \<Rightarrow> (int \<times> bytes) \<times> rust_type \<Rightarrow> source_error + proto_line" where
  "field_line name field =
    (case field of ((number, field_name), ty) \<Rightarrow>
       rbind (map_err (UnsupportedType name field_name) (proto_type ty)) (\<lambda>(label, field_type).
       Inr (FieldLine label field_type field_name number)))"

definition source_message_new :: SourceMessage where
  "source_message_new = \<lparr>sm_fields = [], sm_reserved_numbers = [], sm_reserved_names = []\<rparr>"

text \<open>Without a previous message nothing is locked and nothing reserved, as for an empty one.\<close>

definition generate_message :: "bytes \<Rightarrow> ItemStruct \<Rightarrow> LockedSchema \<Rightarrow> source_error + proto_line list" where
  "generate_message package message locked =
    (let name = st_name message;
         previous = (case bt_get (ls_messages locked) (package @ str ''.'' @ name) of
                       Some m \<Rightarrow> m | None \<Rightarrow> source_message_new) in
     case st_fields message of
       None \<Rightarrow> Inl (UnnamedFields name)
     | Some declared \<Rightarrow>
         let names = map fst declared;
             taken = first_taken (sm_fields previous) (sm_reserved_numbers previous) in
         rbind (try_map (field_line name)
                  (zip (assign_numbers next_number (sm_fields previous) taken names) (map snd declared))) (\<lambda>field_lines.
         Inr (MessageOpen name
           # reserved_lines (sm_fields previous) (sm_reserved_numbers previous) (sm_reserved_names previous) names
           @ field_lines @ [BlockClose])))"

record ItemEnum =
  ie_name :: bytes
  ie_variants :: "(string \<times> bool) list"

text \<open>\<open>upper_snake\<close> of this file, on ASCII identifiers.\<close>

fun shout_tail :: "string \<Rightarrow> string" where
  "shout_tail [] = []"
| "shout_tail (c # cs) = (if is_upper c then CHR ''_'' # to_upper c # shout_tail cs else to_upper c # shout_tail cs)"

definition shout_snake :: "string \<Rightarrow> string" where
  "shout_snake value = (case value of [] \<Rightarrow> [] | c # cs \<Rightarrow> to_upper c # shout_tail cs)"

definition source_enum_new :: SourceEnum where
  "source_enum_new = \<lparr>sn_values = [], sn_reserved_numbers = [], sn_reserved_names = []\<rparr>"

definition generate_enum :: "bytes \<Rightarrow> ItemEnum \<Rightarrow> LockedSchema \<Rightarrow> source_error + proto_line list" where
  "generate_enum package enumeration locked =
    (let name = ie_name enumeration;
         previous = (case bt_get (ls_enums locked) (package @ str ''.'' @ name) of
                       Some e \<Rightarrow> e | None \<Rightarrow> source_enum_new);
         names = map (str \<circ> shout_snake \<circ> fst) (ie_variants enumeration);
         taken = first_taken (sn_values previous) (sn_reserved_numbers previous) in
     if \<not> list_all snd (ie_variants enumeration) then Inl (VariantWithFields name)
     else
       let values = sort_key fst (assign_numbers next_enum_number (sn_values previous) taken names) in
       if values \<noteq> [] \<and> fst (hd values) \<noteq> 0 then Inl (NoZeroVariant name)
       else Inr (EnumOpen name
         # reserved_lines (sn_values previous) (sn_reserved_numbers previous) (sn_reserved_names previous) names
         @ map (\<lambda>(number, variant_name). ValueLine variant_name number) values @ [BlockClose]))"

subsection \<open>Services\<close>

datatype meta_value = MStr string | MInt string | MOther | MNone

record RpcOptions =
  ro_server_streaming :: bool
  ro_values :: "(bytes, string) btree_map"
  ro_scopes :: "string list"

definition rpc_options_new :: RpcOptions where
  "rpc_options_new = \<lparr>ro_server_streaming = False, ro_values = [], ro_scopes = []\<rparr>"

text \<open>The closure given to \<open>parse_nested_meta\<close>; a value after \<open>server_streaming\<close> is refused by the parser, which
  expects a comma there.\<close>

definition rpc_option :: "RpcOptions \<Rightarrow> bytes option \<times> meta_value \<Rightarrow> source_error + RpcOptions" where
  "rpc_option options meta =
     rbind (ok_or ExpectedOptionName (fst meta)) (\<lambda>key.
     if key = str ''server_streaming'' then
       (if snd meta = MNone then Inr (options\<lparr>ro_server_streaming := True\<rparr>) else Inl ExpectedOptionValue)
     else
       rbind (case snd meta of MStr value \<Rightarrow> Inr value | MInt digits \<Rightarrow> Inr digits | _ \<Rightarrow> Inl ExpectedOptionValue) (\<lambda>value.
       Inr (if key = str ''required_scope'' then options\<lparr>ro_scopes := ro_scopes options @ [value]\<rparr>
            else options\<lparr>ro_values := bt_insert key value (ro_values options)\<rparr>)))"

definition rpc_options :: "(bytes option \<times> meta_value) list option \<Rightarrow> source_error + RpcOptions" where
  "rpc_options attr = (case attr of None \<Rightarrow> Inr rpc_options_new | Some metas \<Rightarrow> try_fold rpc_option rpc_options_new metas)"

definition render_policy_value :: "bytes \<Rightarrow> string \<Rightarrow> source_error + string" where
  "render_policy_value key value =
    (if key = str ''idempotency'' then Inr (''IDEMPOTENCY_'' @ shout_snake value)
     else if key = str ''compression'' then Inr (''COMPRESSION_MODE_'' @ shout_snake value)
     else if key \<in> {str ''timeout_ms'', str ''idle_timeout_ms'', str ''max_request_bytes'', str ''max_response_bytes'',
                    str ''trace_sample_per_million''} then Inr value
     else Inl (UnknownPolicyOption key))"

definition is_retry_key :: "bytes \<Rightarrow> bool" where
  "is_retry_key key = (key \<in> {str ''max_attempts'', str ''initial_backoff_ms'', str ''max_backoff_ms'', str ''multiplier_milli''})"

definition upper_camel :: "string \<Rightarrow> string" where
  "upper_camel value = concat (map capitalise (filter (\<lambda>w. w \<noteq> []) (split_parts (\<lambda>c. c = CHR ''_'') value)))"

record TraitFn =
  tf_ident :: string
  tf_inputs :: "rust_type option list"
  tf_output :: "rust_type option"
  tf_rpc :: "(bytes option \<times> meta_value) list option"

fun first_simple :: "rust_type option list \<Rightarrow> bytes option" where
  "first_simple [] = None"
| "first_simple (None # args) = first_simple args"
| "first_simple (Some ty # args) = (case simple_type_name ty of Some n \<Rightarrow> Some n | None \<Rightarrow> first_simple args)"

definition policy_lines :: "RpcOptions \<Rightarrow> source_error + proto_line list" where
  "policy_lines options =
    (let retry_values = filter (\<lambda>(key, _). is_retry_key key) (ro_values options) in
     rbind (try_map (\<lambda>(key, value). rbind (render_policy_value key value) (\<lambda>r. Inr (PolicyValue key (str r))))
              (filter (\<lambda>(key, _). \<not> is_retry_key key) (ro_values options))) (\<lambda>values.
     Inr (PolicyOpen # values
       @ (if retry_values \<noteq> [] then RetryOpen # map (\<lambda>(key, value). RetryValue key (str value)) retry_values @ [RetryClose] else [])
       @ map (\<lambda>scope. ScopeLine (str scope)) (ro_scopes options) @ [PolicyClose])))"

definition service_method :: "bytes \<Rightarrow> TraitFn \<Rightarrow> source_error + proto_line list" where
  "service_method service f =
    (let method_name = str (upper_camel (tf_ident f)) in
     rbind (ok_or (NeedsRequestType service method_name) (first_simple (tf_inputs f))) (\<lambda>input.
     rbind (ok_or (NeedsResponseType service method_name) (Option.bind (tf_output f) simple_type_name)) (\<lambda>output.
     rbind (rpc_options (tf_rpc f)) (\<lambda>options.
     let plain = (ro_values options = [] \<and> ro_scopes options = []);
         head = RpcLine method_name input (ro_server_streaming options) output plain in
     if plain then Inr [head] else rbind (policy_lines options) (\<lambda>ls. Inr (head # ls))))))"

definition generate_service :: "bytes \<Rightarrow> TraitFn option list \<Rightarrow> source_error + proto_line list" where
  "generate_service name items =
     rbind (try_map (service_method name) (List.map_filter id items)) (\<lambda>methods.
     Inr (ServiceOpen name # concat methods @ [BlockClose]))"

section \<open>Reading the lock\<close>

datatype jvalue =
    JObj "(bytes \<times> jvalue) list"
  | JArr "jvalue list"
  | JStr bytes
  | JInt int
  | JOther

definition jget :: "jvalue \<Rightarrow> string \<Rightarrow> jvalue option" where
  "jget v key = (case v of JObj es \<Rightarrow> map_of es (str key) | _ \<Rightarrow> None)"

definition as_object :: "jvalue \<Rightarrow> (bytes \<times> jvalue) list option" where
  "as_object v = (case v of JObj es \<Rightarrow> Some es | _ \<Rightarrow> None)"

definition as_array :: "jvalue \<Rightarrow> jvalue list option" where
  "as_array v = (case v of JArr vs \<Rightarrow> Some vs | _ \<Rightarrow> None)"

definition as_str :: "jvalue \<Rightarrow> bytes option" where
  "as_str v = (case v of JStr s \<Rightarrow> Some s | _ \<Rightarrow> None)"

definition as_i64 :: "jvalue \<Rightarrow> int option" where
  "as_i64 v = (case v of JInt n \<Rightarrow> if - (2 ^ 63) \<le> n \<and> n < 2 ^ 63 then Some n else None | _ \<Rightarrow> None)"

text \<open>\<open>as i32\<close> wraps; \<open>str::parse::<i32>\<close> accepts a sign and decimal digits in range.\<close>

definition as_i32 :: "int \<Rightarrow> int" where
  "as_i32 n = sint (word_of_int n :: u32)"

definition parse_digits :: "bytes \<Rightarrow> int option" where
  "parse_digits bs = (if bs = [] \<or> \<not> list_all is_ascii_digit bs then None
     else Some (foldl (\<lambda>n b. n * 10 + (int (unat b) - 48)) 0 bs))"

definition parse_i32 :: "bytes \<Rightarrow> int option" where
  "parse_i32 bs =
     Option.bind
       (case bs of
          [] \<Rightarrow> None
        | b # rest \<Rightarrow> if b = 43 then parse_digits rest else if b = 45 then map_option uminus (parse_digits rest)
            else parse_digits bs)
       (\<lambda>n. if - i32_max - 1 \<le> n \<and> n \<le> i32_max then Some n else None)"

definition json_i32 :: "jvalue \<Rightarrow> string \<Rightarrow> int" where
  "json_i32 v key = as_i32 (case Option.bind (jget v key) as_i64 of Some n \<Rightarrow> n | None \<Rightarrow> 0)"

definition or_empty :: "'a list option \<Rightarrow> 'a list" where
  "or_empty xs = (case xs of Some ys \<Rightarrow> ys | None \<Rightarrow> [])"

definition load_reservations :: "jvalue \<Rightarrow> int list \<times> bytes list" where
  "load_reservations v =
    (fold (\<lambda>rg numbers. set_extend numbers [json_i32 rg ''start''..json_i32 rg ''end'' - 1])
       (or_empty (Option.bind (jget v ''reserved_ranges'') as_array)) [],
     set_extend [] (List.map_filter as_str (or_empty (Option.bind (jget v ''reserved_names'') as_array))))"

definition load_entry ::
    "(bytes \<Rightarrow> source_error) \<Rightarrow> (jvalue \<Rightarrow> bytes option) \<Rightarrow> (int, bytes) btree_map \<Rightarrow> bytes \<times> jvalue
      \<Rightarrow> source_error + (int, bytes) btree_map" where
  "load_entry err name_of table entry =
     rbind (ok_or (err (fst entry)) (parse_i32 (fst entry))) (\<lambda>number.
     Inr (case name_of (snd entry) of Some name \<Rightarrow> bt_insert number name table | None \<Rightarrow> table))"

definition load_message ::
    "(bytes, SourceMessage) btree_map \<Rightarrow> bytes \<times> jvalue \<Rightarrow> source_error + (bytes, SourceMessage) btree_map" where
  "load_message messages entry =
     rbind (try_fold (load_entry InvalidFieldNumber (\<lambda>field. Option.bind (jget field ''name'') as_str)) []
              (or_empty (Option.bind (jget (snd entry) ''fields'') as_object))) (\<lambda>table.
     let (reserved, names) = load_reservations (snd entry) in
     Inr (bt_insert (fst entry) \<lparr>sm_fields = table, sm_reserved_numbers = reserved, sm_reserved_names = names\<rparr> messages))"

definition load_enum ::
    "(bytes, SourceEnum) btree_map \<Rightarrow> bytes \<times> jvalue \<Rightarrow> source_error + (bytes, SourceEnum) btree_map" where
  "load_enum enums entry =
     rbind (try_fold (load_entry InvalidValueNumber as_str) []
              (or_empty (Option.bind (jget (snd entry) ''values'') as_object))) (\<lambda>table.
     let (reserved, names) = load_reservations (snd entry) in
     Inr (bt_insert (fst entry) \<lparr>sn_values = table, sn_reserved_numbers = reserved, sn_reserved_names = names\<rparr> enums))"

definition load_lock :: "jvalue \<Rightarrow> source_error + LockedSchema" where
  "load_lock v =
     rbind (try_fold load_message [] (or_empty (Option.bind (jget v ''messages'') as_object))) (\<lambda>messages.
     rbind (try_fold load_enum [] (or_empty (Option.bind (jget v ''enums'') as_object))) (\<lambda>enums.
     Inr \<lparr>ls_messages = messages, ls_enums = enums\<rparr>))"

section \<open>Lemmas on numbers\<close>

lemma first_free_unfold:
  "c \<in> set taken \<or> 19000 \<le> c \<and> c \<le> 19999 \<Longrightarrow> first_free taken c = first_free taken (c + 1)"
  "\<not> (c \<in> set taken \<or> 19000 \<le> c \<and> c \<le> 19999) \<Longrightarrow> first_free taken c = c"
  by (auto simp: first_free.simps [of taken c])

lemma first_free_ge: "c \<le> first_free taken c"
proof (induction taken c rule: first_free.induct)
  case (1 taken c)
  show ?case
  proof (cases "c \<in> set taken \<or> 19000 \<le> c \<and> c \<le> 19999")
    case True
    then show ?thesis using 1 [OF True] first_free_unfold(1) [OF True] by simp
  next
    case False
    then show ?thesis using first_free_unfold(2) [OF False] by simp
  qed
qed

lemma first_free_fresh:
  "first_free taken c \<notin> set taken \<and> \<not> (19000 \<le> first_free taken c \<and> first_free taken c \<le> 19999)"
proof (induction taken c rule: first_free.induct)
  case (1 taken c)
  then show ?case
    by (cases "c \<in> set taken \<or> 19000 \<le> c \<and> c \<le> 19999") (simp_all add: first_free_unfold)
qed

lemma first_free_least: "c \<le> k \<Longrightarrow> k < first_free taken c \<Longrightarrow> k \<in> set taken \<or> 19000 \<le> k \<and> k \<le> 19999"
proof (induction taken c rule: first_free.induct)
  case (1 taken c)
  show ?case
  proof (cases "c \<in> set taken \<or> 19000 \<le> c \<and> c \<le> 19999")
    case True
    then have "first_free taken c = first_free taken (c + 1)" by (rule first_free_unfold)
    then show ?thesis using 1 True by (cases "k = c") auto
  next
    case False
    then have "first_free taken c = c" by (rule first_free_unfold)
    then show ?thesis using 1(2,3) by simp
  qed
qed

lemma first_free_bound: "first_free taken c \<le> c + int (length taken) + 1000"
proof -
  have "{c..<first_free taken c} \<subseteq> set taken \<union> {19000..19999}" using first_free_least by force
  then have "card {c..<first_free taken c} \<le> card (set taken \<union> {19000..19999})" by (rule card_mono [rotated]) simp
  also have "\<dots> \<le> card (set taken) + card {19000..19999 :: int}" by (rule card_Un_le)
  also have "\<dots> \<le> length taken + 1000" using card_length [of taken] by simp
  finally show ?thesis using first_free_ge [of c taken] by simp
qed

lemma set_insort_insert_list [simp]: "set (insort_insert x xs) = insert x (set xs)"
  by (simp add: set_insort_insert)

lemma set_extend_set [simp]: "set (set_extend s xs) = set s \<union> set xs"
  unfolding set_extend_def by (induction xs arbitrary: s) auto

lemma first_taken_set: "set (first_taken table reserved) = fst ` set table \<union> set reserved"
  by (simp add: first_taken_def)

lemma locked_number_Some: "locked_number table name = Some n \<Longrightarrow> (n, name) \<in> set table"
  by (auto simp: locked_number_def find_Some_iff in_set_conv_nth)

lemma locked_number_None: "locked_number table name = None \<longleftrightarrow> name \<notin> snd ` set table"
  by (force simp: locked_number_def find_None_iff)

lemma assign_names [simp]: "map snd (assign_numbers pick table taken names) = names"
  by (induction names arbitrary: taken) (simp_all add: Let_def)

lemma assign_length [simp]: "length (assign_numbers pick table taken names) = length names"
  by (induction names arbitrary: taken) (simp_all add: Let_def)

text \<open>Where an assigned number comes from: the lock, or a choice among the numbers not taken.\<close>

definition fresh_pick :: "(int list \<Rightarrow> int) \<Rightarrow> bool" where
  "fresh_pick pick = (\<forall>taken. pick taken \<notin> set taken)"

lemma assign_origin:
  assumes "fresh_pick pick"
  shows "(n, name) \<in> set (assign_numbers pick table taken names) \<Longrightarrow>
    locked_number table name = Some n
    \<or> locked_number table name = None \<and> n \<notin> set taken \<and> (\<exists>taken'. n = pick taken')"
proof (induction names arbitrary: taken)
  case (Cons m names)
  let ?k = "case locked_number table m of Some n \<Rightarrow> n | None \<Rightarrow> pick taken"
  from Cons.prems consider "n = ?k" "name = m" | "(n, name) \<in> set (assign_numbers pick table (insort_insert ?k taken) names)"
    by (auto simp: Let_def)
  then show ?case
  proof cases
    case 1
    then show ?thesis using assms by (cases "locked_number table m") (auto simp: fresh_pick_def)
  next
    case 2
    from Cons.IH [OF this] show ?thesis by auto
  qed
qed simp

lemma assign_distinct:
  assumes "fresh_pick pick" "distinct (map fst table)"
  shows "distinct names \<Longrightarrow> fst ` set table \<subseteq> set taken \<Longrightarrow> distinct (map fst (assign_numbers pick table taken names))"
proof (induction names arbitrary: taken)
  case (Cons m names)
  let ?k = "case locked_number table m of Some n \<Rightarrow> n | None \<Rightarrow> pick taken"
  let ?rest = "assign_numbers pick table (insort_insert ?k taken) names"
  have "?k \<notin> fst ` set ?rest"
  proof
    assume "?k \<in> fst ` set ?rest"
    then obtain w where w: "(?k, w) \<in> set ?rest" by force
    then have "w \<in> set names" using assign_names [of pick table "insort_insert ?k taken" names] by (metis in_set_zipE image_eqI list.set_map snd_conv)
    then have ne: "w \<noteq> m" using Cons.prems(1) by auto
    from assign_origin [OF assms(1) w] have l: "locked_number table w = Some ?k" by auto
    then have t: "(?k, w) \<in> set table" by (rule locked_number_Some)
    show False
    proof (cases "locked_number table m")
      case None
      then show ?thesis using t assms(1) Cons.prems(2) by (force simp: fresh_pick_def)
    next
      case (Some n)
      then have "(n, m) \<in> set table" "?k = n" using locked_number_Some by auto
      then show ?thesis using t ne assms(2) by (metis eq_key_imp_eq_value)
    qed
  qed
  moreover have "distinct (map fst ?rest)" using Cons by (intro Cons.IH) auto
  ultimately show ?case by (simp add: Let_def)
qed simp

lemma assign_keeps:
  assumes "distinct (map fst table)" "distinct (map snd table)" "(n, name) \<in> set table"
  shows "name \<in> set names \<Longrightarrow> (n, name) \<in> set (assign_numbers pick table taken names)"
proof (induction names arbitrary: taken)
  case (Cons m names)
  have "locked_number table name = Some n"
  proof (cases "locked_number table name")
    case None
    then show ?thesis using assms(3) by (force simp: locked_number_None)
  next
    case (Some k)
    then have "(k, name) \<in> set table" by (rule locked_number_Some)
    then show ?thesis using Some assms(2,3) by (metis distinct_map inj_onD prod.inject snd_conv)
  qed
  then show ?case using Cons by (cases "m = name") (auto simp: Let_def)
qed simp

section \<open>Compatibility of the output\<close>

definition singles :: "int list \<Rightarrow> NumberRange list" where
  "singles ns = map (\<lambda>n. \<lparr>nr_start = n, nr_end = n + 1\<rparr>) ns"

lemma numbers_singles [simp]: "numbers (singles ns) = set ns"
  by (auto simp: numbers_def singles_def)

fun declared :: "proto_line \<Rightarrow> (int \<times> bytes) list" where
  "declared (FieldLine _ _ name n) = [(n, name)]"
| "declared (ValueLine name n) = [(n, name)]"
| "declared _ = []"

fun retired :: "proto_line \<Rightarrow> int list" where
  "retired (ReservedNumber n) = [n]"
| "retired _ = []"

fun retired_name :: "proto_line \<Rightarrow> bytes list" where
  "retired_name (ReservedName name) = [name]"
| "retired_name _ = []"

definition line_table :: "proto_line list \<Rightarrow> (int, bytes) btree_map" where
  "line_table ls = bt_collect (concat (map declared ls))"

definition line_numbers :: "proto_line list \<Rightarrow> int list" where
  "line_numbers ls = concat (map retired ls)"

definition line_names :: "proto_line list \<Rightarrow> bytes list" where
  "line_names ls = concat (map retired_name ls)"

lemma bt_collect_get: "distinct (map fst ps) \<Longrightarrow> bt_get (bt_collect ps) n = map_of ps n"
  using bt.lookup_fold [OF bt.wf_empty, of ps] by (simp add: bt_collect_def bt.lookup_empty map_add_def fun_eq_iff split: option.splits)

lemma reserved_lines_sel:
  "concat (map declared (reserved_lines table reserved names current)) = []"
  "set (line_numbers (reserved_lines table reserved names current)) =
     set reserved \<union> {n. \<exists>m. (n, m) \<in> set table \<and> m \<notin> set current}"
  "set (line_names (reserved_lines table reserved names current)) =
     set names \<union> {m. \<exists>n. (n, m) \<in> set table \<and> m \<notin> set current}"
  by (force simp: reserved_lines_def line_numbers_def line_names_def)+

lemma assigned_compatible:
  assumes "fresh_pick pick" "distinct (map fst table)" "distinct (map snd table)" "distinct names"
    and ps: "set ps = set (assign_numbers pick table (first_taken table reserved) names)" "distinct (map fst ps)"
  shows "table_compatible (\<lambda>name. name) table (singles reserved) rnames
     (bt_collect ps) (singles (line_numbers (reserved_lines table reserved rnames names)))
     (line_names (reserved_lines table reserved rnames names))"
proof -
  let ?new = "assign_numbers pick table (first_taken table reserved) names"
  have get: "bt_get (bt_collect ps) n = Some v \<longleftrightarrow> (n, v) \<in> set ?new" for n v
    using ps by (simp add: bt_collect_get)
  have "bt_get (bt_collect ps) n = Some v \<or> bt_get (bt_collect ps) n = None
      \<and> n \<in> set (line_numbers (reserved_lines table reserved rnames names))
      \<and> v \<in> set (line_names (reserved_lines table reserved rnames names))"
    if "(n, v) \<in> set table" for n v
  proof (cases "v \<in> set names")
    case True
    then show ?thesis using assign_keeps [OF assms(2,3) that] get by blast
  next
    case False
    have "(n, w) \<notin> set ?new" for w
    proof
      assume w: "(n, w) \<in> set ?new"
      then have "w \<in> set names" by (metis assign_names image_eqI list.set_map snd_conv)
      moreover have "locked_number table w = Some n"
        using assign_origin [OF assms(1) w] that by (force simp: first_taken_set)
      then have "w = v" using locked_number_Some that assms(2) by (metis eq_key_imp_eq_value)
      ultimately show False using False by simp
    qed
    then have "bt_get (bt_collect ps) n = None" using get by (cases "bt_get (bt_collect ps) n") auto
    then show ?thesis using that False by (auto simp: reserved_lines_sel)
  qed
  then show ?thesis
    by (auto simp: table_compatible_def reserved_lines_sel dest: bt_get_Some_in)
qed

lemma next_number_fresh: "fresh_pick next_number" "fresh_pick next_enum_number"
  using first_free_fresh by (simp_all add: fresh_pick_def next_number_def next_enum_number_def)

lemma field_lines_declared:
  "try_map (field_line name) (zip ps tys) = Inr ls \<Longrightarrow> length tys = length ps \<Longrightarrow>
   concat (map declared ls) = ps \<and> line_numbers ls = [] \<and> line_names ls = []"
proof (induction ps arbitrary: tys ls)
  case (Cons p ps)
  obtain ty tys' where t: "tys = ty # tys'" using Cons.prems(2) by (cases tys) auto
  with Cons.prems obtain l ls' where l: "field_line name (p, ty) = Inr l" "ls = l # ls'"
    "try_map (field_line name) (zip ps tys') = Inr ls'" by auto
  from Cons.IH [OF l(3)] Cons.prems(2) t have ih: "concat (map declared ls') = ps \<and> line_numbers ls' = [] \<and> line_names ls' = []" by simp
  from l(1) have "declared l = [p]" "retired l = []" "retired_name l = []"
    by (auto simp: field_line_def split: prod.splits)
  with ih l(2) show ?case by (simp add: line_numbers_def line_names_def)
qed (auto simp: line_numbers_def line_names_def)

lemma generated_message_lines:
  assumes "generate_message package message locked = Inr ls"
    and "bt_get (ls_messages locked) (package @ str ''.'' @ st_name message) = Some previous"
  obtains decls where "st_fields message = Some decls"
    "concat (map declared ls) = assign_numbers next_number (sm_fields previous)
       (first_taken (sm_fields previous) (sm_reserved_numbers previous)) (map fst decls)"
    "line_numbers ls = line_numbers (reserved_lines (sm_fields previous) (sm_reserved_numbers previous)
       (sm_reserved_names previous) (map fst decls))"
    "line_names ls = line_names (reserved_lines (sm_fields previous) (sm_reserved_numbers previous)
       (sm_reserved_names previous) (map fst decls))"
proof -
  obtain decls fls where d: "st_fields message = Some decls"
    "try_map (field_line (st_name message)) (zip (assign_numbers next_number (sm_fields previous)
       (first_taken (sm_fields previous) (sm_reserved_numbers previous)) (map fst decls)) (map snd decls)) = Inr fls"
    "ls = MessageOpen (st_name message) # reserved_lines (sm_fields previous) (sm_reserved_numbers previous)
       (sm_reserved_names previous) (map fst decls) @ fls @ [BlockClose]"
    using assms by (auto simp: generate_message_def Let_def split: option.splits)
  from field_lines_declared [OF d(2)] have f: "concat (map declared fls) = assign_numbers next_number (sm_fields previous)
       (first_taken (sm_fields previous) (sm_reserved_numbers previous)) (map fst decls)"
    "line_numbers fls = []" "line_names fls = []" by simp_all
  show ?thesis
    by (rule that [OF d(1)]) (use f d(3) in \<open>simp_all add: reserved_lines_sel(1) line_numbers_def line_names_def\<close>)
qed

lemma generated_enum_lines:
  assumes "generate_enum package enumeration locked = Inr ls"
    and "bt_get (ls_enums locked) (package @ str ''.'' @ ie_name enumeration) = Some previous"
    and "names = map (str \<circ> shout_snake \<circ> fst) (ie_variants enumeration)"
  shows "concat (map declared ls) = sort_key fst (assign_numbers next_enum_number (sn_values previous)
       (first_taken (sn_values previous) (sn_reserved_numbers previous)) names)"
    "line_numbers ls = line_numbers (reserved_lines (sn_values previous) (sn_reserved_numbers previous)
       (sn_reserved_names previous) names)"
    "line_names ls = line_names (reserved_lines (sn_values previous) (sn_reserved_numbers previous)
       (sn_reserved_names previous) names)"
    "concat (map declared ls) = [] \<or> fst (hd (concat (map declared ls))) = 0"
proof -
  let ?assigned = "sort_key fst (assign_numbers next_enum_number (sn_values previous)
       (first_taken (sn_values previous) (sn_reserved_numbers previous)) names)"
  let ?vl = "map (\<lambda>(number, variant_name). ValueLine variant_name number) ?assigned"
  have ls: "ls = EnumOpen (ie_name enumeration) # reserved_lines (sn_values previous) (sn_reserved_numbers previous)
       (sn_reserved_names previous) names @ ?vl @ [BlockClose]" "?assigned = [] \<or> fst (hd ?assigned) = 0"
    using assms by (auto simp: generate_enum_def Let_def split: if_splits)
  have v: "concat (map declared (map (\<lambda>(number, variant_name). ValueLine variant_name number) vs)) = vs"
    "concat (map retired (map (\<lambda>(number, variant_name). ValueLine variant_name number) vs)) = []"
    "concat (map retired_name (map (\<lambda>(number, variant_name). ValueLine variant_name number) vs)) = []" for vs
    by (induction vs) auto
  show "concat (map declared ls) = ?assigned" using ls(1) by (simp add: reserved_lines_sel(1) v del: map_map)
  then show "concat (map declared ls) = [] \<or> fst (hd (concat (map declared ls))) = 0" using ls(2) by simp
  show "line_numbers ls = line_numbers (reserved_lines (sn_values previous) (sn_reserved_numbers previous)
       (sn_reserved_names previous) names)"
    "line_names ls = line_names (reserved_lines (sn_values previous) (sn_reserved_numbers previous)
       (sn_reserved_names previous) names)"
    using ls(1) by (simp_all add: line_numbers_def line_names_def v del: map_map)
qed

section \<open>Properties\<close>

text \<open>Claim C39. Assigned numbers are the smallest free ones: a new field gets the least positive number that is neither
  taken nor in the range Protobuf reserves for its implementation, the search ends after at most as many
  steps as there are such numbers, and so cannot overflow for a lock with fewer than two billion numbers.\<close>

theorem next_number_least:
  "next_number taken \<ge> 1 \<and> next_number taken \<notin> set taken \<and> next_number taken \<notin> {19000..19999}
   \<and> (\<forall>k. 1 \<le> k \<and> k < next_number taken \<longrightarrow> k \<in> set taken \<union> {19000..19999})
   \<and> next_number taken \<le> int (length taken) + 1001"
  using first_free_ge [of 1 taken] first_free_fresh [of taken 1] first_free_least [of 1 _ taken] first_free_bound [of taken 1]
  by (auto simp: next_number_def)

text \<open>Code-first generation respects the lock: the message generated against a locked one declares
  distinct numbers; every locked field still declared keeps its number; every other gets its number and name
  reserved; everything reserved stays reserved; and a new field never gets a number that was used or reserved.
  This is exactly the compatibility the lock check asks of the message.\<close>

theorem generated_message_compatible:
  assumes "generate_message package message locked = Inr ls"
    and "bt_get (ls_messages locked) (package @ str ''.'' @ st_name message) = Some previous"
    and "bt_wf (sm_fields previous)" and "distinct (map snd (sm_fields previous))"
    and "distinct (map fst (the (st_fields message)))"
  shows "distinct (map fst (concat (map declared ls)))
    \<and> map snd (concat (map declared ls)) = map fst (the (st_fields message))
    \<and> table_compatible (\<lambda>name. name) (sm_fields previous) (singles (sm_reserved_numbers previous)) (sm_reserved_names previous)
        (line_table ls) (singles (line_numbers ls)) (line_names ls)
    \<and> list_all (\<lambda>(n, name). (n, name) \<in> set (sm_fields previous)
        \<or> name \<notin> snd ` set (sm_fields previous) \<and> 1 \<le> n \<and> n \<notin> {19000..19999}
          \<and> n \<notin> fst ` set (sm_fields previous) \<and> n \<notin> set (sm_reserved_numbers previous)) (concat (map declared ls))"
proof -
  obtain decls where d: "st_fields message = Some decls"
    "concat (map declared ls) = assign_numbers next_number (sm_fields previous)
       (first_taken (sm_fields previous) (sm_reserved_numbers previous)) (map fst decls)"
    "line_numbers ls = line_numbers (reserved_lines (sm_fields previous) (sm_reserved_numbers previous)
       (sm_reserved_names previous) (map fst decls))"
    "line_names ls = line_names (reserved_lines (sm_fields previous) (sm_reserved_numbers previous)
       (sm_reserved_names previous) (map fst decls))"
    using generated_message_lines [OF assms(1,2)] .
  have k: "distinct (map fst (sm_fields previous))" using bt.distinct_keys [OF assms(3)] by simp
  have n: "distinct (map fst decls)" using assms(5) d(1) by simp
  have dist: "distinct (map fst (concat (map declared ls)))"
    unfolding d(2) by (rule assign_distinct [OF next_number_fresh(1) k n]) (simp add: first_taken_set)
  have "(m, name) \<in> set (sm_fields previous) \<or> name \<notin> snd ` set (sm_fields previous) \<and> 1 \<le> m \<and> m \<notin> {19000..19999}
          \<and> m \<notin> fst ` set (sm_fields previous) \<and> m \<notin> set (sm_reserved_numbers previous)"
    if "(m, name) \<in> set (concat (map declared ls))" for m name
    using assign_origin [OF next_number_fresh(1) that [unfolded d(2)]] locked_number_Some
      first_free_ge [of 1] first_free_fresh [of _ 1]
    by (auto simp: locked_number_None first_taken_set next_number_def)
  then show ?thesis
    using dist d(1,2) assigned_compatible [OF next_number_fresh(1) k assms(4) n, of "concat (map declared ls)"
        "sm_reserved_numbers previous" "sm_reserved_names previous"] d(3,4)
    by (auto simp: list_all_iff line_table_def)
qed

text \<open>The same for enums, whose zero value stays in use.\<close>

theorem generated_enum_compatible:
  assumes "generate_enum package enumeration locked = Inr ls"
    and "bt_get (ls_enums locked) (package @ str ''.'' @ ie_name enumeration) = Some previous"
    and "bt_wf (sn_values previous)" and "distinct (map snd (sn_values previous))"
    and "distinct (map (str \<circ> shout_snake \<circ> fst) (ie_variants enumeration))"
  shows "distinct (map fst (concat (map declared ls)))
    \<and> (concat (map declared ls) = [] \<or> fst (hd (concat (map declared ls))) = 0)
    \<and> table_compatible (\<lambda>name. name) (sn_values previous) (singles (sn_reserved_numbers previous)) (sn_reserved_names previous)
        (line_table ls) (singles (line_numbers ls)) (line_names ls)"
proof -
  note l = generated_enum_lines [OF assms(1,2) refl]
  have k: "distinct (map fst (sn_values previous))" using bt.distinct_keys [OF assms(3)] by simp
  have "distinct (map fst (assign_numbers next_enum_number (sn_values previous)
       (first_taken (sn_values previous) (sn_reserved_numbers previous)) (map (str \<circ> shout_snake \<circ> fst) (ie_variants enumeration))))"
    by (rule assign_distinct [OF next_number_fresh(2) k assms(5)]) (simp add: first_taken_set)
  then have dist: "distinct (map fst (concat (map declared ls)))"
    unfolding l(1) by (simp add: distinct_map inj_on_def distinct_sort)
  then show ?thesis
    using l(4) assigned_compatible [OF next_number_fresh(2) k assms(4,5), of "concat (map declared ls)"
        "sn_reserved_numbers previous" "sn_reserved_names previous"] unfolding l(2,3) line_table_def
    by (simp add: l(1))
qed

text \<open>A reserved name can come back: declaring a field under a name the lock has retired is accepted,
  and the generated message both reserves the name and declares a field with it.\<close>

theorem reintroduced_name_conflicts:
  assumes "generate_message package message locked = Inr ls"
    and "bt_get (ls_messages locked) (package @ str ''.'' @ st_name message) = Some previous"
    and "name \<in> set (sm_reserved_names previous)" and "name \<in> fst ` set (the (st_fields message))"
  shows "name \<in> set (line_names ls) \<and> (\<exists>n. (n, name) \<in> set (concat (map declared ls)))"
proof -
  obtain decls where d: "st_fields message = Some decls"
    "concat (map declared ls) = assign_numbers next_number (sm_fields previous)
       (first_taken (sm_fields previous) (sm_reserved_numbers previous)) (map fst decls)"
    "line_names ls = line_names (reserved_lines (sm_fields previous) (sm_reserved_numbers previous)
       (sm_reserved_names previous) (map fst decls))"
    using generated_message_lines [OF assms(1,2)] .
  have "name \<in> snd ` set (concat (map declared ls))"
    using assms(4) d(1) unfolding d(2) by (simp flip: set_map)
  then show ?thesis using assms(3) d(3) by (fastforce simp: reserved_lines_sel)
qed

section \<open>From the written lock to the generated schema\<close>

text \<open>How serde writes a lock: structs as objects, maps as objects with the keys as text, vectors as arrays.\<close>

definition represents_message :: "jvalue \<Rightarrow> LockedMessage \<Rightarrow> bool" where
  "represents_message v m = (\<exists>fs rs. jget v ''fields'' = Some (JObj fs)
     \<and> (\<lambda>(k, f). (parse_i32 k, Option.bind (jget f ''name'') as_str)) ` set fs
        = (\<lambda>(n, f). (Some n, Some (lf_name f))) ` set (lm_fields m)
     \<and> jget v ''reserved_ranges'' = Some (JArr rs)
     \<and> map (\<lambda>r. (jget r ''start'', jget r ''end'')) rs
        = map (\<lambda>r. (Some (JInt (nr_start r)), Some (JInt (nr_end r)))) (lm_reserved_ranges m)
     \<and> jget v ''reserved_names'' = Some (JArr (map JStr (lm_reserved_names m))))"

definition represents :: "jvalue \<Rightarrow> SchemaLock \<Rightarrow> bool" where
  "represents v l = (\<exists>ms. jget v ''messages'' = Some (JObj ms) \<and> distinct (map fst ms)
     \<and> fst ` set ms = fst ` set (sl_messages l)
     \<and> (\<forall>(name, j) \<in> set ms. \<forall>m. bt_get (sl_messages l) name = Some m \<longrightarrow> represents_message j m))"

definition i32_ranges :: "NumberRange list \<Rightarrow> bool" where
  "i32_ranges rs = list_all (\<lambda>r. - i32_max - 1 \<le> nr_start r \<and> nr_start r \<le> i32_max
     \<and> - i32_max - 1 \<le> nr_end r \<and> nr_end r \<le> i32_max) rs"

lemma as_i32_id: "- i32_max - 1 \<le> n \<Longrightarrow> n \<le> i32_max \<Longrightarrow> as_i32 n = n"
  by (simp add: as_i32_def i32_max_def int_word_sint)

lemma json_i32_read:
  "jget v key = Some (JInt n) \<Longrightarrow> - i32_max - 1 \<le> n \<Longrightarrow> n \<le> i32_max \<Longrightarrow> json_i32 v key = n"
  by (simp add: json_i32_def as_i64_def as_i32_id) (simp add: i32_max_def)

lemma load_ranges:
  assumes "map (\<lambda>r. (jget r ''start'', jget r ''end'')) rs
      = map (\<lambda>r. (Some (JInt (nr_start r)), Some (JInt (nr_end r)))) ranges" "i32_ranges ranges"
  shows "set (fold (\<lambda>rg numbers. set_extend numbers [json_i32 rg ''start''..json_i32 rg ''end'' - 1]) rs acc)
    = set acc \<union> numbers ranges"
  using assms
proof (induction rs arbitrary: ranges acc)
  case Nil
  then show ?case by (simp add: numbers_def)
next
  case (Cons j rs)
  obtain r ranges' where r: "ranges = r # ranges'" using Cons.prems(1) by (cases ranges) auto
  have "json_i32 j ''start'' = nr_start r" "json_i32 j ''end'' = nr_end r"
    using Cons.prems r by (auto simp: i32_ranges_def intro!: json_i32_read)
  moreover have "set (fold (\<lambda>rg numbers. set_extend numbers [json_i32 rg ''start''..json_i32 rg ''end'' - 1]) rs acc')
      = set acc' \<union> numbers ranges'" for acc'
    by (rule Cons.IH) (use Cons.prems r in \<open>auto simp: i32_ranges_def\<close>)
  ultimately show ?case by (auto simp: r numbers_def)
qed

definition loads :: "(jvalue \<Rightarrow> bytes option) \<Rightarrow> (bytes \<times> jvalue) list \<Rightarrow> (int \<times> bytes) set" where
  "loads name_of es = {(n, m). \<exists>(k, v) \<in> set es. parse_i32 k = Some n \<and> name_of v = Some m}"

lemma loads_simps:
  "loads name_of [] = {}"
  "name_of (snd e) = None \<Longrightarrow> loads name_of (e # es) = loads name_of es"
  "parse_i32 (fst e) = Some n \<Longrightarrow> name_of (snd e) = Some m \<Longrightarrow> loads name_of (e # es) = insert (n, m) (loads name_of es)"
  by (auto simp: loads_def)

lemma load_entries_get:
  "try_fold (load_entry err name_of) t es = Inr table \<Longrightarrow> bt_wf t \<Longrightarrow>
   bt_wf table \<and> set table \<subseteq> set t \<union> loads name_of es \<and> fst ` set table = fst ` set t \<union> fst ` loads name_of es"
proof (induction es arbitrary: t)
  case (Cons e es)
  obtain n where n: "parse_i32 (fst e) = Some n"
    "try_fold (load_entry err name_of) (case name_of (snd e) of Some m \<Rightarrow> bt_insert n m t | None \<Rightarrow> t) es = Inr table"
    using Cons.prems(1) by (auto simp: load_entry_def [of err name_of t])
  show ?case
  proof (cases "name_of (snd e)")
    case None
    then have "try_fold (load_entry err name_of) t es = Inr table" using n(2) by simp
    from Cons.IH [OF this Cons.prems(2)] show ?thesis unfolding loads_simps(2) [of name_of e, OF None] .
  next
    case (Some m)
    then have "try_fold (load_entry err name_of) (bt_insert n m t) es = Inr table" using n(2) by simp
    from Cons.IH [OF this bt_insert_wf [OF Cons.prems(2)]] bt_insert_set [of n m t]
    show ?thesis unfolding loads_simps(3) [of e n name_of m es, OF n(1) Some] bt_insert_fst by auto
  qed
qed (simp add: loads_simps)

text \<open>The loaded view of one locked message.\<close>

definition views :: "SourceMessage \<Rightarrow> LockedMessage \<Rightarrow> bool" where
  "views p m = (bt_wf (sm_fields p) \<and> set (sm_fields p) = (\<lambda>(n, f). (n, lf_name f)) ` set (lm_fields m)
     \<and> set (sm_reserved_numbers p) = numbers (lm_reserved_ranges m)
     \<and> set (sm_reserved_names p) = set (lm_reserved_names m))"

lemma load_message_views:
  assumes "load_message ms (name, v) = Inr ms'" "represents_message v m" "bt_wf (lm_fields m)"
    and "i32_ranges (lm_reserved_ranges m)"
  obtains p where "ms' = bt_insert name p ms" "views p m"
proof -
  let ?f = "\<lambda>field. Option.bind (jget field ''name'') as_str"
  obtain fs rs where r: "jget v ''fields'' = Some (JObj fs)"
    "(\<lambda>(k, f). (parse_i32 k, ?f f)) ` set fs = (\<lambda>(n, f). (Some n, Some (lf_name f))) ` set (lm_fields m)"
    "jget v ''reserved_ranges'' = Some (JArr rs)"
    "map (\<lambda>r. (jget r ''start'', jget r ''end'')) rs
        = map (\<lambda>r. (Some (JInt (nr_start r)), Some (JInt (nr_end r)))) (lm_reserved_ranges m)"
    "jget v ''reserved_names'' = Some (JArr (map JStr (lm_reserved_names m)))"
    using assms(2) by (auto simp: represents_message_def)
  obtain table where t: "try_fold (load_entry InvalidFieldNumber ?f) [] fs = Inr table"
    "ms' = bt_insert name \<lparr>sm_fields = table, sm_reserved_numbers = fst (load_reservations v),
       sm_reserved_names = snd (load_reservations v)\<rparr> ms"
    using assms(1) r(1) by (auto simp: load_message_def as_object_def or_empty_def split_beta)
  have entries: "(n, w) \<in> loads ?f fs \<longleftrightarrow> (n, w) \<in> (\<lambda>(n, f). (n, lf_name f)) ` set (lm_fields m)" for n w
  proof -
    have "(n, w) \<in> loads ?f fs \<longleftrightarrow> (Some n, Some w) \<in> (\<lambda>(k, f). (parse_i32 k, ?f f)) ` set fs"
      by (force simp: loads_def)
    also have "\<dots> \<longleftrightarrow> (n, w) \<in> (\<lambda>(n, f). (n, lf_name f)) ` set (lm_fields m)" unfolding r(2) by force
    finally show ?thesis .
  qed
  have l: "bt_wf table" "set table \<subseteq> loads ?f fs" "fst ` set table = fst ` loads ?f fs"
    using load_entries_get [OF t(1)] by (auto simp: bt_wf_def [of "[]"])
  have sub: "set table \<subseteq> (\<lambda>(n, f). (n, lf_name f)) ` set (lm_fields m)" using l(2) entries by auto
  moreover have "(n, lf_name f) \<in> set table" if "(n, f) \<in> set (lm_fields m)" for n f
  proof -
    have "(n, lf_name f) \<in> loads ?f fs" unfolding entries using that by force
    then have "n \<in> fst ` set table" unfolding l(3) by force
    then obtain w where w: "(n, w) \<in> set table" by force
    then obtain f' where "(n, f') \<in> set (lm_fields m)" "w = lf_name f'" using sub by auto
    moreover from this have "f' = f" using that bt.distinct_keys [OF assms(3)] by (meson eq_key_imp_eq_value)
    ultimately show ?thesis using w by simp
  qed
  ultimately have "set table = (\<lambda>(n, f). (n, lf_name f)) ` set (lm_fields m)" by auto
  moreover have "set (fst (load_reservations v)) = numbers (lm_reserved_ranges m)"
    using load_ranges [OF r(4) assms(4), of "[]"] r(3) by (simp add: load_reservations_def as_array_def or_empty_def)
  moreover have "set (snd (load_reservations v)) = set (lm_reserved_names m)"
    using r(5) by (auto simp: load_reservations_def as_array_def or_empty_def as_str_def List.map_filter_def)
  ultimately show ?thesis using that [OF t(2)] l by (simp add: views_def)
qed

lemma load_messages_views:
  assumes "try_fold load_message acc es = Inr ms" "bt_wf acc" "distinct (map fst es)"
    and "\<forall>(name, j) \<in> set es. \<forall>m. locks name = Some m \<longrightarrow>
      represents_message j m \<and> bt_wf (lm_fields m) \<and> i32_ranges (lm_reserved_ranges m)"
    and "name \<in> fst ` set es" "locks name = Some m"
  shows "\<exists>p. bt_get ms name = Some p \<and> views p m"
  using assms
proof (induction es arbitrary: acc)
  case (Cons e es)
  obtain acc' where a: "load_message acc e = Inr acc'" "try_fold load_message acc' es = Inr ms"
    using Cons.prems(1) by auto
  have wf: "bt_wf acc'" using a(1) Cons.prems(2) by (auto simp: load_message_def Let_def bt_insert_wf split_beta)
  show ?case
  proof (cases "name = fst e")
    case False
    then show ?thesis using Cons.IH [OF a(2) wf] Cons.prems(3-6) by auto
  next
    case True
    then obtain p where p: "acc' = bt_insert name p acc" "views p m"
      using load_message_views [of acc name "snd e" acc' m] a(1) Cons.prems(4,6) by (cases e) auto
    have "bt_get ms name = Some p"
    proof (rule try_fold_invariant [where P = "\<lambda>ms. bt_wf ms \<and> bt_get ms name = Some p", OF a(2), THEN conjunct2])
      show "bt_wf acc' \<and> bt_get acc' name = Some p" using p(1) Cons.prems(2) wf by (simp add: bt_get_insert)
      show "bt_wf t \<and> bt_get t name = Some p"
        if "x \<in> set es" "bt_wf s \<and> bt_get s name = Some p" "load_message s x = Inr t" for s x t
      proof -
        have "fst x \<noteq> name" using that(1) Cons.prems(3) True by (metis distinct.simps(2) image_eqI list.set_map list.simps(9))
        then show ?thesis using that(2,3) by (auto simp: load_message_def Let_def bt_insert_wf bt_get_insert split_beta)
      qed
    qed
    then show ?thesis using p(2) by blast
  qed
qed simp

lemma loaded_views:
  assumes "represents v l" "lock_shape l" "load_lock v = Inr s" "bt_get (sl_messages l) name = Some m"
    and "\<forall>(name, m) \<in> set (sl_messages l). i32_ranges (lm_reserved_ranges m)"
  shows "\<exists>p. bt_get (ls_messages s) name = Some p \<and> views p m"
proof -
  obtain ms where ms: "jget v ''messages'' = Some (JObj ms)" "distinct (map fst ms)"
    "fst ` set ms = fst ` set (sl_messages l)"
    "\<forall>(name, j) \<in> set ms. \<forall>m. bt_get (sl_messages l) name = Some m \<longrightarrow> represents_message j m"
    using assms(1) by (auto simp: represents_def)
  have "try_fold load_message [] ms = Inr (ls_messages s)"
    using assms(3) ms(1) by (auto simp: load_lock_def as_object_def or_empty_def)
  moreover have "bt_wf ([] :: (bytes, SourceMessage) btree_map)" by (simp add: bt_wf_def)
  moreover have "\<forall>(name, j) \<in> set ms. \<forall>m. bt_get (sl_messages l) name = Some m \<longrightarrow>
      represents_message j m \<and> bt_wf (lm_fields m) \<and> i32_ranges (lm_reserved_ranges m)"
    using ms(4) assms(2,5) by (fastforce simp: lock_shape_def all_values_def message_shape_def dest: bt_get_Some_in)
  moreover have "name \<in> fst ` set ms" unfolding ms(3) using assms(4) by (force dest: bt_get_Some_in)
  ultimately show ?thesis using ms(2) assms(4) by (intro load_messages_views)
qed

lemma bt_set_eq: "bt_wf a \<Longrightarrow> bt_wf b \<Longrightarrow> set a = set b \<Longrightarrow> a = b"
proof -
  assume a: "bt_wf a" "bt_wf b" "set a = set b"
  then have "bt_get a k = bt_get b k" for k using bt_get_iff by (metis not_None_eq)
  then show "a = b" using bt.entries_extensional [of a b] a by auto
qed

lemma generated_message_tracks:
  assumes "generate_message package message locked = Inr ls"
    and "bt_get (ls_messages locked) (package @ str ''.'' @ st_name message) = Some p"
    and "bt_wf (sm_fields p)" and "distinct (map snd (sm_fields p))"
    and "distinct (map fst (the (st_fields message)))" and "(n, w) \<in> set (sm_fields p)"
  shows "if w \<in> fst ` set (the (st_fields message)) then bt_get (line_table ls) n = Some w
      else bt_get (line_table ls) n = None \<and> n \<in> set (line_numbers ls) \<and> w \<in> set (line_names ls)"
proof -
  let ?ds = "concat (map declared ls)"
  note g = generated_message_compatible [OF assms(1-5)]
  have get: "bt_get (line_table ls) k = Some x \<longleftrightarrow> (k, x) \<in> set ?ds" for k x
    using g unfolding line_table_def by (simp add: bt_collect_get)
  have declared_iff: "w \<in> fst ` set (the (st_fields message)) \<longleftrightarrow> (\<exists>k. (k, w) \<in> set ?ds)"
  proof -
    have "fst ` set (the (st_fields message)) = snd ` set ?ds"
      using arg_cong [OF conjunct1 [OF conjunct2 [OF g]], of set] by (simp del: set_concat map_concat)
    then show ?thesis by (force simp del: set_concat)
  qed
  have kept: "(n, w) \<in> set ?ds" if "(k, w) \<in> set ?ds" for k
  proof -
    have "(k, w) \<in> set (sm_fields p)" using g that assms(6) by (force simp: list_all_iff simp del: set_concat)
    with assms(4,6) have "k = n" by (metis distinct_map inj_onD prod.inject snd_conv)
    with that show ?thesis by simp
  qed
  have "bt_get (sm_fields p) n = Some w" using assms(6) by (simp add: bt_get_iff [OF assms(3)])
  then have "bt_get (line_table ls) n = Some w
      \<or> bt_get (line_table ls) n = None \<and> n \<in> set (line_numbers ls) \<and> w \<in> set (line_names ls)"
    using g by (simp add: table_compatible_def)
  then show ?thesis using kept get declared_iff by auto
qed

text \<open>Claim C38. Code-first generation keeps faith with the written lock: reading the JSON that serde writes for a
  lock and generating a message that the lock knows, the declared numbers are distinct; every locked
  field that is still declared under its name keeps its number and is the only one there; the number and name of
  every other locked field are reserved; every reserved number and name of the lock stays reserved; and no
  number the lock knows, used or reserved, is given to a field under another name.\<close>

theorem code_first_keeps_lock:
  assumes "represents v l" and "lock_shape l" and "load_lock v = Inr s"
    and "\<forall>(name, m) \<in> set (sl_messages l). i32_ranges (lm_reserved_ranges m)"
    and "bt_get (sl_messages l) (package @ str ''.'' @ st_name message) = Some m"
    and "distinct (map (\<lambda>(n, f). lf_name f) (lm_fields m))"
    and "distinct (map fst (the (st_fields message)))"
    and "generate_message package message s = Inr ls"
  shows "distinct (map fst (concat (map declared ls)))
    \<and> numbers (lm_reserved_ranges m) \<subseteq> set (line_numbers ls) \<and> set (lm_reserved_names m) \<subseteq> set (line_names ls)
    \<and> list_all (\<lambda>(n, f). if lf_name f \<in> fst ` set (the (st_fields message))
        then bt_get (line_table ls) n = Some (lf_name f)
        else bt_get (line_table ls) n = None \<and> n \<in> set (line_numbers ls) \<and> lf_name f \<in> set (line_names ls)) (lm_fields m)
    \<and> list_all (\<lambda>(n, name). (\<exists>f. (n, f) \<in> set (lm_fields m) \<and> lf_name f = name)
        \<or> n \<notin> fst ` set (lm_fields m) \<union> numbers (lm_reserved_ranges m)) (concat (map declared ls))"
proof -
  obtain p where p: "bt_get (ls_messages s) (package @ str ''.'' @ st_name message) = Some p" "views p m"
    using loaded_views [OF assms(1,2,3,5,4)] by blast
  then have v: "bt_wf (sm_fields p)" "set (sm_fields p) = (\<lambda>(n, f). (n, lf_name f)) ` set (lm_fields m)"
    "set (sm_reserved_numbers p) = numbers (lm_reserved_ranges m)" "set (sm_reserved_names p) = set (lm_reserved_names m)"
    by (simp_all add: views_def)
  have "message_shape m"
    using assms(2,5) by (fastforce simp: lock_shape_def all_values_def dest: bt_get_Some_in)
  then have wf: "bt_wf (lm_fields m)" by (simp add: message_shape_def)
  let ?view = "map (\<lambda>(n, f). (n, lf_name f)) (lm_fields m)" and ?ds = "concat (map declared ls)"
  have keys: "map fst ?view = map fst (lm_fields m)" "map snd ?view = map (\<lambda>(n, f). lf_name f) (lm_fields m)"
    by (auto simp: split_beta)
  have view_wf: "bt_wf ?view" unfolding bt_wf_def keys(1) using wf [unfolded bt_wf_def] .
  have fields: "sm_fields p = ?view" by (rule bt_set_eq [OF v(1) view_wf]) (simp add: v(2))
  have names: "distinct (map snd (sm_fields p))" using assms(6) unfolding fields keys(2) .
  note g = generated_message_compatible [OF assms(8) p(1) v(1) names assms(7)]
  have "if lf_name f \<in> fst ` set (the (st_fields message)) then bt_get (line_table ls) n = Some (lf_name f)
      else bt_get (line_table ls) n = None \<and> n \<in> set (line_numbers ls) \<and> lf_name f \<in> set (line_names ls)"
    if "(n, f) \<in> set (lm_fields m)" for n f
    by (rule generated_message_tracks [OF assms(8) p(1) v(1) names assms(7)]) (use that v(2) in force)
  moreover have "(\<exists>f. (n, f) \<in> set (lm_fields m) \<and> lf_name f = name)
        \<or> n \<notin> fst ` set (lm_fields m) \<union> numbers (lm_reserved_ranges m)" if "(n, name) \<in> set ?ds" for n name
  proof -
    have "list_all (\<lambda>(n, name). (n, name) \<in> set (sm_fields p) \<or> n \<notin> fst ` set (sm_fields p) \<and> n \<notin> set (sm_reserved_numbers p)) ?ds"
      by (rule list.pred_mono_strong [OF conjunct2 [OF conjunct2 [OF conjunct2 [OF g]]]]) auto
    then have "(n, name) \<in> set (sm_fields p) \<or> n \<notin> fst ` set (sm_fields p) \<and> n \<notin> set (sm_reserved_numbers p)"
      using that unfolding list_all_iff by blast
    moreover have "fst ` set (sm_fields p) = fst ` set (lm_fields m)" unfolding v(2) by force
    ultimately show ?thesis using v(2,3) by auto
  qed
  moreover have "numbers (lm_reserved_ranges m) \<subseteq> set (line_numbers ls)" "set (lm_reserved_names m) \<subseteq> set (line_names ls)"
    using g v(3,4) by (simp_all add: table_compatible_def)
  moreover note conjunct1 [OF g]
  ultimately show ?thesis unfolding list_all_iff by blast
qed

section \<open>Spellings and types\<close>

lemma case_shift: "is_upper c \<Longrightarrow> is_lower (to_lower c) \<and> to_upper (to_lower c) = c"
  by (simp add: is_upper_def is_lower_def to_lower_def to_upper_def)

lemma upper_lower: "to_upper (to_lower c) = to_upper c"
proof (cases "is_upper c")
  case True
  then have "\<not> is_lower c" by (simp add: is_upper_def is_lower_def)
  then show ?thesis using case_shift [OF True] by (simp add: to_upper_def [of c])
qed (simp add: to_lower_def)

lemma upper_underscore: "to_upper CHR ''_'' = CHR ''_''"
  by (simp add: to_upper_def is_lower_def)

text \<open>The two spellings of constant names in the generator agree: the one of the code-first schema and the one
  of the generated bindings.\<close>

theorem upper_snake_agree: "shout_snake s = upper_snake s"
proof -
  have "shout_tail cs = map to_upper (snake_tail cs)" for cs
    by (induction cs) (simp_all add: upper_lower upper_underscore)
  then show ?thesis by (cases s) (simp_all add: shout_snake_def upper_snake_def snake_case_def upper_lower)
qed

text \<open>A nested label is lost: an optional list is declared as one optional value.\<close>

theorem optional_list_loses_label:
  assumes "proto_type inner = Inr (label, ty)" and "simple_type_name inner \<noteq> Some (str ''u8'')"
  shows "proto_type (TPath [Segment (str ''Option'') (Some [AType (TPath [Segment (str ''Vec'') (Some [AType inner])])])])
    = Inr (''optional '', ty)"
  using assms by (simp add: proto_type.simps(2) str_def Let_def simple_type_name_def del: rbind_eq_Inr)

section \<open>Samples\<close>

definition sample_previous :: SourceMessage where
  "sample_previous = \<lparr>sm_fields = [(1, str ''id'')], sm_reserved_numbers = [2], sm_reserved_names = [str ''old'']\<rparr>"

definition locked_json :: jvalue where
  "locked_json = JObj [(str ''messages'', JObj [(str ''a.M'', JObj
     [(str ''fields'', JObj [(str ''1'', JObj [(str ''name'', JStr (str ''id''))])]),
      (str ''reserved_ranges'', JArr [JObj [(str ''start'', JInt 2), (str ''end'', JInt 3)]]),
      (str ''reserved_names'', JArr [JStr (str ''old'')])])])]"

definition locked_sample :: SchemaLock where
  "locked_sample = one_message \<lparr>lm_fields = [(1, sample_field)], lm_reserved_ranges = [\<lparr>nr_start = 2, nr_end = 3\<rparr>],
     lm_reserved_names = [str ''old'']\<rparr>"

definition sample_struct :: ItemStruct where
  "sample_struct = \<lparr>st_name = str ''M'', st_fields = Some [(str ''level'', TPath [Segment (str ''u32'') None])]\<rparr>"

lemma parse_one: "parse_i32 (str ''1'') = Some 1"
  by (simp add: parse_i32_def parse_digits_def str_def is_ascii_digit_def in_range_def i32_max_def)

lemma sample_represents: "represents locked_json locked_sample"
  by (simp add: represents_def represents_message_def locked_json_def locked_sample_def one_message_def jget_def
      bt_get_def sample_field_def parse_one as_str_def) (simp_all add: str_def)

lemma sample_loads:
  "load_lock locked_json = Inr \<lparr>ls_messages = [(str ''a.M'', sample_previous)], ls_enums = []\<rparr>"
  by (simp add: load_lock_def locked_json_def load_message_def load_entry_def load_reservations_def jget_def
      or_empty_def as_object_def as_array_def as_str_def json_i32_def as_i64_def as_i32_id i32_max_def parse_one
      List.map_filter_def set_extend_def insort_insert_key_def sample_previous_def upto.simps del: rbind_eq_Inr)
   (simp_all add: str_def)

lemma try_map_ok: "try_map f xs = Inr ys \<Longrightarrow> x \<in> set xs \<Longrightarrow> \<exists>y. f x = Inr y"
  by (induction xs arbitrary: ys) auto

lemma generates_one:
  "bt_get (ls_messages locked) (package @ str ''.'' @ n) = Some p \<Longrightarrow>
   \<exists>ls. generate_message package \<lparr>st_name = n, st_fields = Some [(f, TPath [Segment (str ''u32'') None])]\<rparr> locked = Inr ls"
  by (simp add: generate_message_def Let_def field_line_def proto_type.simps(2) scalar_type_def str_def del: rbind_eq_Inr)

text \<open>A service is generated only from known policy options: every key is a retry setting or one of the seven others.\<close>

definition policy_keys :: "bytes set" where
  "policy_keys = {str ''idempotency'', str ''compression'', str ''timeout_ms'', str ''idle_timeout_ms'',
     str ''max_request_bytes'', str ''max_response_bytes'', str ''trace_sample_per_million''}"

theorem service_options_known:
  assumes "service_method service f = Inr ls" and "rpc_options (tf_rpc f) = Inr options"
    and "(key, value) \<in> set (ro_values options)"
  shows "is_retry_key key \<or> key \<in> policy_keys"
proof (rule ccontr)
  assume unknown: "\<not> (is_retry_key key \<or> key \<in> policy_keys)"
  have "ro_values options \<noteq> []" using assms(3) by auto
  then obtain ls' where "policy_lines options = Inr ls'" using assms(1,2) by (auto simp: service_method_def Let_def split: if_splits)
  then obtain vs where "try_map (\<lambda>(key, value). rbind (render_policy_value key value) (\<lambda>r. Inr (PolicyValue key (str r))))
      (filter (\<lambda>(key, _). \<not> is_retry_key key) (ro_values options)) = Inr vs" by (auto simp: policy_lines_def Let_def)
  moreover have "(key, value) \<in> set (filter (\<lambda>(key, _). \<not> is_retry_key key) (ro_values options))"
    using assms(3) unknown by simp
  ultimately obtain r where "render_policy_value key value = Inr r" by (fastforce dest: try_map_ok)
  then show False using unknown by (auto simp: render_policy_value_def policy_keys_def split: if_splits)
qed

theorem next_number_least_witness: "next_number [1, 2] = 3"
  using next_number_least [of "[1, 2]"] by (auto dest: spec [of _ 3])

theorem code_first_keeps_lock_witness:
  "\<exists>s ls. load_lock locked_json = Inr s \<and> generate_message (str ''a'') sample_struct s = Inr ls
     \<and> bt_get (line_table ls) 1 = None \<and> 1 \<in> set (line_numbers ls) \<and> str ''id'' \<in> set (line_names ls)"
proof -
  define s where "s = \<lparr>ls_messages = [(str ''a.M'', sample_previous)], ls_enums = []\<rparr>"
  have l: "load_lock locked_json = Inr s" by (simp add: sample_loads s_def)
  have "bt_get (ls_messages s) (str ''a'' @ str ''.'' @ str ''M'') = Some sample_previous"
    by (simp add: s_def bt_get_def str_def)
  then obtain ls where g: "generate_message (str ''a'') sample_struct s = Inr ls"
    unfolding sample_struct_def using generates_one by blast
  have shape: "lock_shape locked_sample"
    by (simp add: locked_sample_def one_message_def lock_shape_def all_values_def message_shape_def bt_wf_def sample_field_def)
  have m: "bt_get (sl_messages locked_sample) (str ''a'' @ str ''.'' @ st_name sample_struct) =
      Some \<lparr>lm_fields = [(1, sample_field)], lm_reserved_ranges = [\<lparr>nr_start = 2, nr_end = 3\<rparr>],
        lm_reserved_names = [str ''old'']\<rparr>"
    by (simp add: locked_sample_def one_message_def bt_get_def sample_struct_def str_def)
  have "list_all (\<lambda>(n, f). if lf_name f \<in> fst ` set (the (st_fields sample_struct))
        then bt_get (line_table ls) n = Some (lf_name f)
        else bt_get (line_table ls) n = None \<and> n \<in> set (line_numbers ls) \<and> lf_name f \<in> set (line_names ls))
      [(1, sample_field)]"
    using code_first_keeps_lock [OF sample_represents shape l _ m _ _ g]
    by (simp add: locked_sample_def one_message_def i32_ranges_def i32_max_def sample_struct_def)
  then have "bt_get (line_table ls) 1 = None \<and> 1 \<in> set (line_numbers ls) \<and> str ''id'' \<in> set (line_names ls)"
    by (simp add: sample_field_def sample_struct_def str_def)
  with l g show ?thesis by blast
qed

theorem reintroduced_name_conflicts_witness:
  "\<exists>ls n. generate_message (str ''a'')
       \<lparr>st_name = str ''M'', st_fields = Some [(str ''old'', TPath [Segment (str ''u32'') None])]\<rparr>
       \<lparr>ls_messages = [(str ''a.M'', sample_previous)], ls_enums = []\<rparr> = Inr ls
     \<and> str ''old'' \<in> set (line_names ls) \<and> (n, str ''old'') \<in> set (concat (map declared ls))"
proof -
  let ?s = "\<lparr>ls_messages = [(str ''a.M'', sample_previous)], ls_enums = []\<rparr>"
  let ?m = "\<lparr>st_name = str ''M'', st_fields = Some [(str ''old'', TPath [Segment (str ''u32'') None])]\<rparr>"
  have p: "bt_get (ls_messages ?s) (str ''a'' @ str ''.'' @ st_name ?m) = Some sample_previous"
    by (simp add: bt_get_def str_def)
  then obtain ls where g: "generate_message (str ''a'') ?m ?s = Inr ls" using generates_one [of ?s "str ''a''" "str ''M''" sample_previous "str ''old''"] by auto
  from reintroduced_name_conflicts [OF g p, of "str ''old''"] g show ?thesis by (auto simp: sample_previous_def)
qed

end
