(* ===== verification/Exporters.thy ===== *)
theory Exporters
  imports Telemetry
begin

text \<open>
  The telemetry back ends: the Prometheus snapshot exporter and the OpenTelemetry adapter of
  crates/moonlight-bridge-observability (prometheus.rs, otel.rs), and the Sentry adapter of
  crates/moonlight-bridge-sentry/src/lib.rs.

  Counters, gauges, spans and transactions are objects of client libraries.  A Prometheus counter is its 64-bit
  value; a span or transaction is what the adapter asks the library for: the fields of the span builder, and
  the list of calls on a transaction.  The overflow of a system time, which panics, is not modelled.  Clock readings are parameters in nanoseconds.
\<close>

section \<open>Prometheus\<close>

record MetricsSnapshot =
  ms_started :: u64
  ms_succeeded :: u64
  ms_failed :: u64
  ms_request_bytes :: u64
  ms_response_bytes :: u64
  ms_total_latency_nanos :: u64
  ms_max_latency_nanos :: u64

definition metrics_snapshot :: "MetricsInner \<Rightarrow> MetricsSnapshot" where
  "metrics_snapshot m =
    \<lparr>ms_started = mi_started m, ms_succeeded = mi_succeeded m, ms_failed = mi_failed m,
     ms_request_bytes = mi_request_bytes m, ms_response_bytes = mi_response_bytes m,
     ms_total_latency_nanos = mi_total_latency_nanos m, ms_max_latency_nanos = mi_max_latency_nanos m\<rparr>"

record PrometheusSnapshotExporter =
  pe_started :: u64
  pe_succeeded :: u64
  pe_failed :: u64
  pe_request_bytes :: u64
  pe_response_bytes :: u64
  pe_latency_nanos :: u64
  pe_max_latency_nanos :: int
  pe_exporter_drops :: u64
  pe_previous :: MetricsSnapshot

definition no_requests :: MetricsSnapshot where
  "no_requests = \<lparr>ms_started = 0, ms_succeeded = 0, ms_failed = 0, ms_request_bytes = 0, ms_response_bytes = 0,
     ms_total_latency_nanos = 0, ms_max_latency_nanos = 0\<rparr>"

definition exporter_new :: PrometheusSnapshotExporter where
  "exporter_new = \<lparr>pe_started = 0, pe_succeeded = 0, pe_failed = 0, pe_request_bytes = 0, pe_response_bytes = 0,
     pe_latency_nanos = 0, pe_max_latency_nanos = 0, pe_exporter_drops = 0, pe_previous = no_requests\<rparr>"

definition u64_saturating_sub :: "u64 \<Rightarrow> u64 \<Rightarrow> u64" where
  "u64_saturating_sub a b = (if b \<le> a then a - b else 0)"

definition i64_max :: nat where "i64_max = 9223372036854775807"

text \<open>\<open>busy\<close>: another caller holds the lock, so \<open>try_lock\<close> fails.\<close>

definition try_update :: "bool \<Rightarrow> MetricsSnapshot \<Rightarrow> PrometheusSnapshotExporter \<Rightarrow> bool \<times> PrometheusSnapshotExporter" where
  "try_update busy current e =
    (if busy then (False, e\<lparr>pe_exporter_drops := pe_exporter_drops e + 1\<rparr>)
     else
       let previous = pe_previous e in
       (True, e\<lparr>pe_started := pe_started e + u64_saturating_sub (ms_started current) (ms_started previous),
          pe_succeeded := pe_succeeded e + u64_saturating_sub (ms_succeeded current) (ms_succeeded previous),
          pe_failed := pe_failed e + u64_saturating_sub (ms_failed current) (ms_failed previous),
          pe_request_bytes := pe_request_bytes e
            + u64_saturating_sub (ms_request_bytes current) (ms_request_bytes previous),
          pe_response_bytes := pe_response_bytes e
            + u64_saturating_sub (ms_response_bytes current) (ms_response_bytes previous),
          pe_latency_nanos := pe_latency_nanos e
            + u64_saturating_sub (ms_total_latency_nanos current) (ms_total_latency_nanos previous),
          pe_max_latency_nanos := int (min (unat (ms_max_latency_nanos current)) i64_max),
          pe_previous := current\<rparr>))"

fun run_updates :: "(bool \<times> MetricsSnapshot) list \<Rightarrow> PrometheusSnapshotExporter \<Rightarrow> PrometheusSnapshotExporter" where
  "run_updates [] e = e"
| "run_updates ((busy, current) # us) e = run_updates us (snd (try_update busy current e))"

section \<open>OpenTelemetry\<close>

record Clock =
  ck_instant :: nat
  ck_system :: int

text \<open>The earliest system time, \<open>i64::MIN\<close> seconds.\<close>

definition system_time_min :: int where "system_time_min = - 9223372036854775808 * 1000000000"

definition system_time :: "Clock \<Rightarrow> nat \<Rightarrow> int" where
  "system_time clock at =
    (if at \<ge> ck_instant clock then ck_system clock + int (at - ck_instant clock)
     else
       let earlier = ck_system clock - int (ck_instant clock - at) in
       if earlier \<ge> system_time_min then earlier else ck_system clock)"

datatype attribute = AStr bytes | AInt int

datatype span_status = StatusUnset | StatusOk | StatusError ErrorCode

record span =
  sp_name :: bytes
  sp_server :: bool
  sp_start :: int
  sp_remote :: "TraceContext option"
  sp_attributes :: "(string \<times> attribute) list"

definition hex_digit :: "nat \<Rightarrow> u8" where
  "hex_digit n = str ''0123456789abcdef'' ! n"

definition hex :: "bytes \<Rightarrow> bytes" where
  "hex bs = concat (map (\<lambda>b. [hex_digit (unat (drop_bit 4 b)), hex_digit (unat (b AND 15))]) bs)"

text \<open>The decimal text of the request id is kept as its number.\<close>

definition otel_start_request :: "RequestInfo \<Rightarrow> Clock \<Rightarrow> span" where
  "otel_start_request info clock =
    \<lparr>sp_name = (case ri_method_name info of
        Some name \<Rightarrow> name | None \<Rightarrow> str ''moonlight.rpc.'' @ hex (u32_to_be_bytes (ri_method_id info))),
     sp_server = True, sp_start = system_time clock (ri_received_at info),
     sp_remote = ri_trace_context info,
     sp_attributes = [(''rpc.system'', AStr (str ''moonlight_bridge'')), (''rpc.method_id'', AInt (uint (ri_method_id info))),
       (''rpc.request_id'', AInt (uint (ri_request_id info))),
       (''rpc.request.size'', AInt (sint (word_of_nat (ri_request_bytes info) :: u64)))]\<rparr>"

definition stage_nanos :: "nat \<Rightarrow> int" where
  "stage_nanos duration = int (min duration i64_max)"

text \<open>The stage span, when it ends, and the event added to the request span.  \<open>request_context\<close> is the context
  the tracer gave the request span.\<close>

definition otel_record_stage_at :: "TraceContext \<Rightarrow> Clock \<Rightarrow> stage \<Rightarrow> span \<times> int \<times> (string \<times> attribute) list" where
  "otel_record_stage_at request_context clock stage =
    (let (name, started, duration) = stage; started_at = system_time clock started in
     (\<lparr>sp_name = str name, sp_server = False, sp_start = started_at, sp_remote = Some request_context,
       sp_attributes = [(''stage.duration_ns'', AInt (stage_nanos duration))]\<rparr>,
      started_at + int duration,
      [(''stage.name'', AStr (str name)), (''stage.duration_ns'', AInt (stage_nanos duration))]))"

definition otel_record_stage :: "TraceContext \<Rightarrow> Clock \<Rightarrow> nat \<Rightarrow> string \<Rightarrow> nat \<Rightarrow> span \<times> int \<times> (string \<times> attribute) list" where
  "otel_record_stage request_context clock now name duration =
     otel_record_stage_at request_context clock (name, if duration \<le> now then now - duration else now, duration)"

datatype otel_end = SizeAttribute int | ErrorAttribute ErrorCode | SetStatus span_status | EndSpan

definition otel_finish :: "RequestOutcome \<Rightarrow> otel_end list" where
  "otel_finish outcome =
    (case outcome of
       Success response_bytes \<Rightarrow> [SizeAttribute (sint (word_of_nat response_bytes :: u64)), SetStatus StatusOk, EndSpan]
     | Failure code \<Rightarrow> [ErrorAttribute code, SetStatus (StatusError code), EndSpan])"

section \<open>Sentry\<close>

datatype SpanStatus =
    SentryOk | SentryDeadlineExceeded | SentryCancelled | SentryUnimplemented | SentryInvalidArgument
  | SentryResourceExhausted | SentryInternalError | SentryUnauthenticated | SentryPermissionDenied
  | SentryUnavailable | SentryDataLoss | SentryOutOfRange | SentryFailedPrecondition

fun sentry_status :: "ErrorCode \<Rightarrow> SpanStatus" where
  "sentry_status DeadlineExceeded = SentryDeadlineExceeded"
| "sentry_status Cancelled = SentryCancelled"
| "sentry_status UnknownMethod = SentryUnimplemented"
| "sentry_status InvalidRequest = SentryInvalidArgument"
| "sentry_status ResourceExhausted = SentryResourceExhausted"
| "sentry_status Internal = SentryInternalError"
| "sentry_status Unauthenticated = SentryUnauthenticated"
| "sentry_status PermissionDenied = SentryPermissionDenied"
| "sentry_status Unavailable = SentryUnavailable"
| "sentry_status CompressionFailure = SentryDataLoss"
| "sentry_status ReplayGap = SentryOutOfRange"
| "sentry_status FailedPrecondition = SentryFailedPrecondition"
| "sentry_status UnsupportedProtocol = SentryUnimplemented"

text \<open>The calls on the Sentry client.  The transaction name is the method's name, or \<open>MoonLightBridge method\<close>
  and the number; an error code stands for its \<open>Debug\<close> text.\<close>

datatype sentry_call =
    StartTransaction "bytes + u32" string bytes
  | SetData string attribute
  | StageData "(string \<times> u64) list"
  | ErrorData ErrorCode
  | TransactionStatus SpanStatus
  | FinishTransaction
  | LogCompleted RequestInfo nat u64
  | CaptureFailure RequestInfo ErrorCode u64

record SentryObservation =
  so_transaction :: bool
  so_info :: RequestInfo
  so_started :: nat
  so_stages :: "(string \<times> u64) list"
  so_finished :: bool

definition sentry_start_request :: "RequestInfo \<Rightarrow> nat \<Rightarrow> sentry_call list \<times> SentryObservation" where
  "sentry_start_request info now =
    ((case ri_trace_context info of
        None \<Rightarrow> []
      | Some trace \<Rightarrow> [StartTransaction (case ri_method_name info of Some name \<Rightarrow> Inl name | None \<Rightarrow> Inr (ri_method_id info))
          ''rpc.server'' (hex (trace_id trace) @ str ''-'' @ hex (parent_span_id trace) @ str ''-''
           @ str (if sampled trace then ''1'' else ''0'')),
          SetData ''rpc.system'' (AStr (str ''moonlight-bridge'')),
          SetData ''rpc.method_id'' (AInt (uint (ri_method_id info))),
          SetData ''moonlight_bridge.request_id'' (AInt (uint (ri_request_id info))),
          SetData ''moonlight_bridge.request_bytes'' (AInt (uint (word_of_nat (ri_request_bytes info) :: u64)))]),
     \<lparr>so_transaction = (ri_trace_context info \<noteq> None), so_info = info, so_started = now, so_stages = [], so_finished = False\<rparr>)"

definition sentry_record_stage :: "string \<Rightarrow> nat \<Rightarrow> SentryObservation \<Rightarrow> SentryObservation" where
  "sentry_record_stage name duration ob =
     ob\<lparr>so_stages := so_stages ob @ [(name, word_of_nat (min (duration div 1000) (2 ^ 64 - 1)))]\<rparr>"

definition sentry_record :: "bool \<Rightarrow> nat \<Rightarrow> RequestOutcome \<Rightarrow> SentryObservation \<Rightarrow> sentry_call list \<times> SentryObservation" where
  "sentry_record success_logs now outcome ob =
    (let transaction = so_transaction ob;
         duration = (word_of_nat ((now - so_started ob) div 1000) :: u64);
         stages = (if transaction \<and> so_stages ob \<noteq> [] then [StageData (so_stages ob)] else []) in
     (stages @
      (case outcome of
         Success response_bytes \<Rightarrow>
           (if transaction then [SetData ''moonlight_bridge.response_bytes'' (AInt (uint (word_of_nat response_bytes :: u64))), TransactionStatus SentryOk, FinishTransaction] else [])
           @ (if success_logs then [LogCompleted (so_info ob) response_bytes duration] else [])
       | Failure code \<Rightarrow>
           (if transaction then [ErrorData code, TransactionStatus (sentry_status code), FinishTransaction] else [])
           @ [CaptureFailure (so_info ob) code duration]),
      ob\<lparr>so_transaction := False\<rparr>))"

definition sentry_drop :: "bool \<Rightarrow> nat \<Rightarrow> SentryObservation \<Rightarrow> sentry_call list" where
  "sentry_drop success_logs now ob =
    (if so_finished ob then [] else fst (sentry_record success_logs now (Failure Cancelled) ob))"

text \<open>\<open>finish\<close> consumes the observation, so its \<open>Drop\<close> runs at the end.\<close>

definition sentry_finish :: "bool \<Rightarrow> nat \<Rightarrow> RequestOutcome \<Rightarrow> SentryObservation \<Rightarrow> sentry_call list" where
  "sentry_finish success_logs now outcome ob =
    (let (calls, ob') = sentry_record success_logs now outcome (ob\<lparr>so_finished := True\<rparr>) in
     calls @ sentry_drop success_logs now ob')"

datatype event_level = LevelError | LevelWarn | LevelOther

datatype event_filter = FilterIgnore | FilterLog

definition framework_event_filter :: "bytes \<Rightarrow> event_level \<Rightarrow> event_filter" where
  "framework_event_filter target level =
    (if take (length (str ''moonlight_bridge'')) target \<noteq> str ''moonlight_bridge'' then FilterIgnore
     else if level = LevelError \<or> level = LevelWarn then FilterLog else FilterIgnore)"

section \<open>Lemmas\<close>

definition snapshot_le :: "MetricsSnapshot \<Rightarrow> MetricsSnapshot \<Rightarrow> bool" where
  "snapshot_le a b = (ms_started a \<le> ms_started b \<and> ms_succeeded a \<le> ms_succeeded b \<and> ms_failed a \<le> ms_failed b
     \<and> ms_request_bytes a \<le> ms_request_bytes b \<and> ms_response_bytes a \<le> ms_response_bytes b
     \<and> ms_total_latency_nanos a \<le> ms_total_latency_nanos b)"

definition shows_snapshot :: "PrometheusSnapshotExporter \<Rightarrow> MetricsSnapshot \<Rightarrow> bool" where
  "shows_snapshot e s = (pe_started e = ms_started s \<and> pe_succeeded e = ms_succeeded s \<and> pe_failed e = ms_failed s
     \<and> pe_request_bytes e = ms_request_bytes s \<and> pe_response_bytes e = ms_response_bytes s
     \<and> pe_latency_nanos e = ms_total_latency_nanos s
     \<and> pe_max_latency_nanos e = int (min (unat (ms_max_latency_nanos s)) i64_max) \<and> pe_previous e = s)"

lemma catch_up: "b \<le> a \<Longrightarrow> (b :: u64) + u64_saturating_sub a b = a"
  by (simp add: u64_saturating_sub_def)

lemma try_update_shows:
  "shows_snapshot e s \<Longrightarrow> snapshot_le s t \<Longrightarrow> shows_snapshot (snd (try_update False t e)) t"
  by (simp add: shows_snapshot_def snapshot_le_def try_update_def Let_def catch_up)

lemma try_update_busy:
  "shows_snapshot e s \<Longrightarrow> shows_snapshot (snd (try_update True t e)) s"
  by (simp add: shows_snapshot_def try_update_def)

lemma run_updates_shows:
  "shows_snapshot e s \<Longrightarrow> sorted_wrt snapshot_le (s # map snd (filter (\<lambda>u. \<not> fst u) us)) \<Longrightarrow>
   shows_snapshot (run_updates us e) (last (s # map snd (filter (\<lambda>u. \<not> fst u) us)))"
proof (induction us arbitrary: e s)
  case (Cons u us)
  obtain busy t where u: "u = (busy, t)" by (cases u)
  show ?case
  proof (cases busy)
    case True
    then show ?thesis using Cons.IH [OF try_update_busy [OF Cons.prems(1)]] Cons.prems(2) u by simp
  next
    case False
    have "snapshot_le s t" using Cons.prems(2) u False by simp
    then show ?thesis using Cons.IH [OF try_update_shows [OF Cons.prems(1)]] Cons.prems(2) u False by simp
  qed
qed simp

lemma run_updates_drops:
  "pe_exporter_drops (run_updates us e) = pe_exporter_drops e + word_of_nat (length (filter fst us))"
  by (induction us arbitrary: e) (auto simp: try_update_def Let_def)

section \<open>Properties\<close>

text \<open>The exporter tracks the newest snapshot: when the snapshots it applies only grow, its counters
  show exactly the last one applied, however many calls were dropped in between because the lock was held, and
  the dropped calls are counted.\<close>

theorem prometheus_tracks_snapshots:
  assumes "sorted_wrt snapshot_le (map snd (filter (\<lambda>u. \<not> fst u) us))"
  shows "shows_snapshot (run_updates us exporter_new) (last (no_requests # map snd (filter (\<lambda>u. \<not> fst u) us)))
    \<and> pe_exporter_drops (run_updates us exporter_new) = word_of_nat (length (filter fst us))"
proof -
  have "shows_snapshot exporter_new no_requests" by (simp add: shows_snapshot_def exporter_new_def no_requests_def)
  moreover have "sorted_wrt snapshot_le (no_requests # map snd (filter (\<lambda>u. \<not> fst u) us))"
    using assms by (simp add: snapshot_le_def no_requests_def)
  ultimately show ?thesis
    using run_updates_shows [of exporter_new no_requests us] by (simp add: run_updates_drops exporter_new_def)
qed

text \<open>Claim C40. A stale snapshot makes a counter run ahead: applying a newer, an older and again the newer snapshot,
  which concurrent collectors can do one after the other, adds their difference a second time.\<close>

theorem stale_snapshot_overcounts:
  assumes "ms_started old \<le> ms_started new"
  shows "pe_started (run_updates [(False, new), (False, old), (False, new)] exporter_new)
    = ms_started new + (ms_started new - ms_started old)"
  using assms by (auto simp: try_update_def exporter_new_def no_requests_def u64_saturating_sub_def Let_def)

text \<open>Stages are exported at their real offset: on one clock, a stage span starts after the request span
  by exactly the time between reading the frame and the start of the stage, lasts as long as the stage, and is
  a child of the request span.\<close>

theorem stage_offset_exact:
  assumes "system_time_min + int (ck_instant clock) \<le> ck_system clock"
    and "otel_record_stage_at request_context clock (name, started, duration) = (stage_span, ended, event)"
  shows "sp_start stage_span - sp_start (otel_start_request info clock) = int started - int (ri_received_at info)
    \<and> ended - sp_start stage_span = int duration \<and> sp_remote stage_span = Some request_context"
  using assms by (auto simp: otel_record_stage_at_def otel_start_request_def system_time_def Let_def of_nat_diff)

fun captured :: "sentry_call \<Rightarrow> ErrorCode list" where
  "captured (CaptureFailure _ code _) = [code]"
| "captured _ = []"

lemma sentry_stages_keep:
  "so_transaction (fold (\<lambda>(name, d). sentry_record_stage name d) stages ob) = so_transaction ob"
  "so_finished (fold (\<lambda>(name, d). sentry_record_stage name d) stages ob) = so_finished ob"
  by (induction stages arbitrary: ob) (simp_all add: sentry_record_stage_def split_beta)

lemma sentry_record_calls:
  assumes "fst (sentry_record logs t outcome ob) = calls"
  shows "count_list calls FinishTransaction = (if so_transaction ob then 1 else 0)"
    and "concat (map captured calls) = (case outcome of Success n \<Rightarrow> [] | Failure c \<Rightarrow> [c])"
  using assms by (auto simp: sentry_record_def Let_def split: RequestOutcome.splits)

text \<open>Every observed request is reported once: whether the observation is finished or dropped, its
  transaction, if it has one, is finished exactly once, and a failure is captured exactly once for an error or a
  dropped request and never for a success.\<close>

theorem sentry_reports_once:
  assumes "ob = fold (\<lambda>(name, d). sentry_record_stage name d) stages (snd (sentry_start_request info now))"
  shows "count_list (sentry_finish logs t outcome ob) FinishTransaction = (if ri_trace_context info = None then 0 else 1)
    \<and> count_list (sentry_drop logs t ob) FinishTransaction = (if ri_trace_context info = None then 0 else 1)
    \<and> concat (map captured (sentry_finish logs t outcome ob)) = (case outcome of Success n \<Rightarrow> [] | Failure c \<Rightarrow> [c])
    \<and> concat (map captured (sentry_drop logs t ob)) = [Cancelled]"
proof -
  have ob: "so_transaction ob = (ri_trace_context info \<noteq> None)" "\<not> so_finished ob"
    unfolding assms by (simp_all add: sentry_stages_keep sentry_start_request_def)
  have drop: "sentry_drop logs t ob = fst (sentry_record logs t (Failure Cancelled) ob)"
    using ob by (simp add: sentry_drop_def)
  have fin: "sentry_finish logs t outcome ob = fst (sentry_record logs t outcome (ob\<lparr>so_finished := True\<rparr>))"
    by (simp add: sentry_finish_def sentry_drop_def sentry_record_def Let_def)
  show ?thesis unfolding drop fin using ob by (simp add: sentry_record_calls [OF refl])
qed

definition sample_context :: TraceContext where
  "sample_context = \<lparr>trace_id = [1], parent_span_id = [2], sampled = True\<rparr>"

definition sample_info :: RequestInfo where
  "sample_info = \<lparr>ri_method_id = 7, ri_method_name = None, ri_request_id = 1, ri_request_bytes = 5,
     ri_trace_context = Some sample_context, ri_received_at = 10\<rparr>"

theorem prometheus_tracks_snapshots_witness:
  "pe_started (run_updates [(False, no_requests\<lparr>ms_started := 3\<rparr>), (True, no_requests), (False, no_requests\<lparr>ms_started := 5\<rparr>)]
     exporter_new) = 5"
  using prometheus_tracks_snapshots [of "[(False, no_requests\<lparr>ms_started := 3\<rparr>), (True, no_requests),
      (False, no_requests\<lparr>ms_started := 5\<rparr>)]"]
  by (simp add: snapshot_le_def no_requests_def shows_snapshot_def)

theorem stale_snapshot_overcounts_witness:
  "pe_started (run_updates [(False, no_requests\<lparr>ms_started := 5\<rparr>), (False, no_requests\<lparr>ms_started := 3\<rparr>),
     (False, no_requests\<lparr>ms_started := 5\<rparr>)] exporter_new) = 7"
  using stale_snapshot_overcounts [of "no_requests\<lparr>ms_started := 3\<rparr>" "no_requests\<lparr>ms_started := 5\<rparr>"] by simp

theorem stage_offset_exact_witness:
  "\<exists>stage_span ended event. otel_record_stage_at sample_context \<lparr>ck_instant = 100, ck_system = 5000\<rparr> (''handler'', 40, 20) = (stage_span, ended, event)
     \<and> sp_start stage_span - sp_start (otel_start_request sample_info \<lparr>ck_instant = 100, ck_system = 5000\<rparr>) = 30"
proof -
  obtain stage_span ended event where
    s: "otel_record_stage_at sample_context \<lparr>ck_instant = 100, ck_system = 5000\<rparr> (''handler'', 40, 20) = (stage_span, ended, event)"
    by (metis prod_cases3)
  from stage_offset_exact [OF _ s, of sample_info] s show ?thesis
    by (auto simp: system_time_min_def sample_info_def)
qed

theorem sentry_reports_once_witness:
  "\<exists>ob. ob = fold (\<lambda>(name, d). sentry_record_stage name d) [(''handler'', 20)] (snd (sentry_start_request sample_info 0))
     \<and> count_list (sentry_drop False 9 ob) FinishTransaction = 1 \<and> concat (map captured (sentry_drop False 9 ob)) = [Cancelled]"
  using sentry_reports_once [OF refl, of False 9 "Success 0" "[(''handler'', 20)]" sample_info 0]
  by (simp add: sample_info_def)

end
