(* ===== verification/Java_Metadata.thy ===== *)
theory Java_Metadata
  imports Wire_Metadata Compression
begin

text \<open>
  Request metadata of the Java client, java/moonlight-bridge-client, MoonLightMetadata.java (in the package
  ru.moonlightproject.bridge.client): the builder, the general encoder, the encoder for requests that merges the
  runtime's entries into the caller's without building a map, and the bounded decoder.

  A \<open>WireKey\<close> has a reserved key and an empty name or no reserved key and a name, which is \<open>MetadataKey\<close>; a
  \<open>TreeMap\<close> is a key-sorted association list, in the order of \<open>compareTo\<close> (lemma \<open>compareTo_less\<close>;
  only the sign of its result is kept).  The
  enumeration of reserved keys has the names of the Rust one; its numbers are translated separately.  An \<open>int\<close> is an
  integer, with \<open>Math.addExact\<close> and the narrowing casts written out; a name is its ASCII bytes.  Every exception is an
  error value.
\<close>

section \<open>Java arithmetic and buffers\<close>

datatype java_error = IllegalArgument string | ArithmeticError | IOError string | BufferOverflow | NullPointer

definition int_max :: int where "int_max = 2147483647"

definition addExact :: "int \<Rightarrow> int \<Rightarrow> java_error + int" where
  "addExact a b = (if - int_max - 1 \<le> a + b \<and> a + b \<le> int_max then Inr (a + b) else Inl ArithmeticError)"

text \<open>\<open>ByteBuffer.put((byte) v)\<close>, \<open>putShort((short) v)\<close> and \<open>putInt(v)\<close>.\<close>

definition put_byte :: "int \<Rightarrow> bytes" where "put_byte v = [word_of_int v]"
definition putShort :: "int \<Rightarrow> bytes" where "putShort v = u16_to_be_bytes (word_of_int v)"
definition putInt :: "int \<Rightarrow> bytes" where "putInt v = u32_to_be_bytes (word_of_int v)"

section \<open>Keys\<close>

definition java_critical_bit :: int where "java_critical_bit = push_bit 15 1"
definition java_key_mask :: int where "java_key_mask = java_critical_bit - 1"
definition java_user_key_id :: int where "java_user_key_id = 0x7fff"
definition entry_header_length :: int where "entry_header_length = 7"

fun wireId :: "ReservedMetadataKey \<Rightarrow> int" where
  "wireId DeadlineMillis = 1"
| "wireId TraceContextKey = 2"
| "wireId IdempotencyKey = 3"
| "wireId Authorization = 4"
| "wireId RequiredScopes = 5"
| "wireId CompressionCodecKey = 6"
| "wireId OriginalLength = 7"
| "wireId LogicalCallId = 8"
| "wireId RetryAttempt = 9"
| "wireId EventCursor = 10"
| "wireId EventSequence = 11"
| "wireId ContentType = 12"
| "wireId DiagnosticCorrelation = 13"

definition reserved_keys :: "ReservedMetadataKey list" where
  "reserved_keys = [DeadlineMillis, TraceContextKey, IdempotencyKey, Authorization, RequiredScopes,
     CompressionCodecKey, OriginalLength, LogicalCallId, RetryAttempt, EventCursor, EventSequence, ContentType,
     DiagnosticCorrelation]"

definition fromWire :: "int \<Rightarrow> ReservedMetadataKey option" where
  "fromWire value = find (\<lambda>key. wireId key = value) reserved_keys"

fun compareTo :: "MetadataKey \<Rightarrow> MetadataKey \<Rightarrow> int" where
  "compareTo (Reserved a) (User _) = - 1"
| "compareTo (User _) (Reserved b) = 1"
| "compareTo (Reserved a) (Reserved b) = sgn (wireId a - wireId b)"
| "compareTo (User a) (User b) = (if a < b then - 1 else if a = b then 0 else 1)"

definition REQUEST_KEYS :: "ReservedMetadataKey list" where
  "REQUEST_KEYS = [DeadlineMillis, TraceContextKey, CompressionCodecKey, OriginalLength]"

definition validateUserKey :: "bytes \<Rightarrow> java_error + unit" where
  "validateUserKey name =
    (if name = [] \<or> length name > 255 \<or> take 10 name = str ''moonlight-''
     then Inl (IllegalArgument ''invalid or reserved metadata key'')
     else if \<not> list_all (\<lambda>value. in_range 0x61 0x7A value \<or> in_range 0x30 0x39 value
               \<or> value = 0x2D \<or> value = 0x5F \<or> value = 0x2E) name
     then Inl (IllegalArgument ''metadata key must be lowercase ASCII'')
     else Inr ())"

section \<open>Builder\<close>

text \<open>The builder's \<open>LinkedHashMap\<close> in insertion order.\<close>

type_synonym Builder = "(MetadataKey \<times> bytes) list"

definition put_key :: "MetadataKey \<Rightarrow> bytes \<Rightarrow> Builder \<Rightarrow> java_error + Builder" where
  "put_key key value b =
    (if map_of b key \<noteq> None then Inl (IllegalArgument ''duplicate singleton metadata key'') else Inr (b @ [(key, value)]))"

definition builder_put :: "bytes \<Rightarrow> bytes \<Rightarrow> Builder \<Rightarrow> java_error + Builder" where
  "builder_put name value b = rbind (validateUserKey name) (\<lambda>_. put_key (User name) value b)"

definition putReserved :: "ReservedMetadataKey \<Rightarrow> bytes \<Rightarrow> Builder \<Rightarrow> java_error + Builder" where
  "putReserved key value b = put_key (Reserved key) value b"

definition metadata_build :: "Builder \<Rightarrow> Metadata" where
  "metadata_build b = foldl (\<lambda>m (key, value). bt_insert key value m) [] b"

section \<open>Encoding\<close>

fun codec_wireValue :: "CompressionCodec \<Rightarrow> int" where
  "codec_wireValue CodecNone = 0"
| "codec_wireValue Zstd = 1"

definition WIRE_LENGTH :: int where "WIRE_LENGTH = 25"

definition trace_writeTo :: "TraceContext \<Rightarrow> bytes" where
  "trace_writeTo t = trace_id t @ parent_span_id t @ put_byte (if sampled t then 1 else 0)"

definition writeEntryHeader :: "int \<Rightarrow> int \<Rightarrow> int \<Rightarrow> bytes" where
  "writeEntryHeader taggedId nameLength valueLength = putShort taggedId @ put_byte nameLength @ putInt valueLength"

fun java_tagged_id :: "MetadataKey \<Rightarrow> int" where
  "java_tagged_id (User _) = java_user_key_id"
| "java_tagged_id (Reserved r) = java_critical_bit OR wireId r"

definition writeEntry :: "MetadataKey \<Rightarrow> bytes \<Rightarrow> bytes" where
  "writeEntry key value =
     writeEntryHeader (java_tagged_id key) (int (length (key_name key))) (int (length value)) @ key_name key @ value"

text \<open>The summation loop of \<open>encodePrefix\<close> and \<open>requestPrefixLength\<close>.\<close>

definition add_entry_length :: "int \<Rightarrow> MetadataKey \<times> bytes \<Rightarrow> java_error + int" where
  "add_entry_length n kv =
     rbind (addExact n entry_header_length) (\<lambda>n.
     rbind (addExact n (int (length (key_name (fst kv))))) (\<lambda>n.
     addExact n (int (length (snd kv)))))"

definition java_encodePrefix :: "Metadata \<Rightarrow> java_error + bytes" where
  "java_encodePrefix entries =
     rbind (try_fold add_entry_length 0 entries) (\<lambda>encodedLength.
     rbind (addExact 4 encodedLength) (\<lambda>_.
     Inr (putInt encodedLength @ concat (map (\<lambda>(key, value). writeEntry key value) entries))))"

definition requestValueLength :: "TraceContext option \<Rightarrow> CompressionCodec \<Rightarrow> ReservedMetadataKey \<Rightarrow> int" where
  "requestValueLength trace codec key =
    (case key of
       DeadlineMillis \<Rightarrow> 4
     | OriginalLength \<Rightarrow> if codec = Zstd then 4 else 0
     | TraceContextKey \<Rightarrow> if trace = None then 0 else WIRE_LENGTH
     | CompressionCodecKey \<Rightarrow> if codec = Zstd then 1 else 0
     | _ \<Rightarrow> 0)"

definition writeRequestValue ::
    "int \<Rightarrow> TraceContext option \<Rightarrow> CompressionCodec \<Rightarrow> int \<Rightarrow> ReservedMetadataKey \<Rightarrow> java_error + bytes" where
  "writeRequestValue timeoutMillis trace codec originalLength key =
    (case key of
       DeadlineMillis \<Rightarrow> Inr (putInt timeoutMillis)
     | TraceContextKey \<Rightarrow> (case trace of None \<Rightarrow> Inl NullPointer | Some t \<Rightarrow> Inr (trace_writeTo t))
     | CompressionCodecKey \<Rightarrow> Inr (put_byte (codec_wireValue codec))
     | OriginalLength \<Rightarrow> Inr (putInt originalLength)
     | _ \<Rightarrow> Inl (IllegalArgument ''unsupported request metadata key''))"

definition add_request_length ::
    "Metadata \<Rightarrow> TraceContext option \<Rightarrow> CompressionCodec \<Rightarrow> int \<Rightarrow> ReservedMetadataKey \<Rightarrow> java_error + int" where
  "add_request_length entries trace codec n key =
    (let valueLength = requestValueLength trace codec key in
     if valueLength = 0 then Inr n
     else if list_ex (\<lambda>(entry, _). entry = Reserved key) entries
     then Inl (IllegalArgument ''duplicate singleton metadata key'')
     else addExact n (entry_header_length + valueLength))"

definition requestPrefixLength :: "Metadata \<Rightarrow> TraceContext option \<Rightarrow> CompressionCodec \<Rightarrow> java_error + int" where
  "requestPrefixLength entries trace codec =
    (if entries = [] then
       Inr (4 + entry_header_length + 4
         + (if trace \<noteq> None then entry_header_length + WIRE_LENGTH else 0)
         + (if codec = Zstd then (entry_header_length + 1) + (entry_header_length + 4) else 0))
     else
       rbind (try_fold (add_request_length entries trace codec) 0 REQUEST_KEYS) (\<lambda>n.
       rbind (try_fold add_entry_length n entries) (\<lambda>encodedLength.
       addExact 4 encodedLength)))"

definition writeRequestKey ::
    "int \<Rightarrow> TraceContext option \<Rightarrow> CompressionCodec \<Rightarrow> int \<Rightarrow> ReservedMetadataKey \<Rightarrow> java_error + bytes" where
  "writeRequestKey timeoutMillis trace codec originalLength key =
     rbind (writeRequestValue timeoutMillis trace codec originalLength key) (\<lambda>value.
     Inr (writeEntryHeader (java_critical_bit OR wireId key) 0 (requestValueLength trace codec key) @ value))"

fun entryId :: "MetadataKey \<Rightarrow> int" where
  "entryId (User _) = java_user_key_id"
| "entryId (Reserved r) = wireId r"

lemma dropWhile_suffix_length: "y # ys = dropWhile P xs \<Longrightarrow> length ys < length xs"
  by (metis Suc_le_lessD length_Cons length_dropWhile_le)

text \<open>The merge loop: \<open>es\<close> is the current entry and the rest of the iterator, \<open>keys\<close> the request keys from the
  current index on.\<close>

function write_merged ::
    "int \<Rightarrow> TraceContext option \<Rightarrow> CompressionCodec \<Rightarrow> int \<Rightarrow> Metadata \<Rightarrow> ReservedMetadataKey list \<Rightarrow> bytes
      \<Rightarrow> java_error + bytes" where
  "write_merged timeoutMillis trace codec originalLength es keys out =
    (case (es, dropWhile (\<lambda>key. requestValueLength trace codec key = 0) keys) of
       ([], []) \<Rightarrow> Inr out
     | ([], key # rest) \<Rightarrow>
         rbind (writeRequestKey timeoutMillis trace codec originalLength key) (\<lambda>bs.
         write_merged timeoutMillis trace codec originalLength [] rest (out @ bs))
     | ((entry, value) # es', []) \<Rightarrow>
         write_merged timeoutMillis trace codec originalLength es' [] (out @ writeEntry entry value)
     | ((entry, value) # es', key # rest) \<Rightarrow>
         if wireId key \<ge> entryId entry
         then write_merged timeoutMillis trace codec originalLength es' (key # rest) (out @ writeEntry entry value)
         else rbind (writeRequestKey timeoutMillis trace codec originalLength key) (\<lambda>bs.
           write_merged timeoutMillis trace codec originalLength es rest (out @ bs)))"
  by pat_completeness auto
termination
  by (relation "measure (\<lambda>(_, _, _, _, es, keys, _). length es + length keys)")
    (auto dest: dropWhile_suffix_length intro: le_imp_less_Suc [OF length_dropWhile_le])

declare write_merged.simps [simp del]

definition writeRequestPrefix ::
    "Metadata \<Rightarrow> int \<Rightarrow> int \<Rightarrow> TraceContext option \<Rightarrow> CompressionCodec \<Rightarrow> int \<Rightarrow> java_error + bytes" where
  "writeRequestPrefix entries prefixLength timeoutMillis trace codec originalLength =
    (let out = putInt (prefixLength - 4) in
     if entries = [] then
       Inr (out
         @ writeEntryHeader (java_critical_bit OR wireId DeadlineMillis) 0 4 @ putInt timeoutMillis
         @ (case trace of
              None \<Rightarrow> []
            | Some t \<Rightarrow> writeEntryHeader (java_critical_bit OR wireId TraceContextKey) 0 WIRE_LENGTH @ trace_writeTo t)
         @ (if codec = Zstd then
              writeEntryHeader (java_critical_bit OR wireId CompressionCodecKey) 0 1 @ put_byte (codec_wireValue codec)
              @ writeEntryHeader (java_critical_bit OR wireId OriginalLength) 0 4 @ putInt originalLength
            else []))
     else write_merged timeoutMillis trace codec originalLength entries REQUEST_KEYS out)"

text \<open>The buffer has exactly the computed length: writing past it throws, and what is not written stays zero.\<close>

definition into_buffer :: "int \<Rightarrow> bytes \<Rightarrow> java_error + bytes" where
  "into_buffer n bs = (if int (length bs) > n then Inl BufferOverflow else Inr (bs @ replicate (nat n - length bs) 0))"

definition encodeRequestPrefix ::
    "Metadata \<Rightarrow> int \<Rightarrow> TraceContext option \<Rightarrow> CompressionCodec \<Rightarrow> int \<Rightarrow> java_error + bytes" where
  "encodeRequestPrefix entries timeoutMillis trace codec originalLength =
     rbind (requestPrefixLength entries trace codec) (\<lambda>prefixLength.
     rbind (writeRequestPrefix entries prefixLength timeoutMillis trace codec originalLength) (into_buffer prefixLength))"

section \<open>Keys agree with the server's\<close>

lemma wireId_uint: "wireId k = uint (reserved_as_u16 k)"
  by (cases k) simp_all

lemma wireId_inj: "wireId a = wireId b \<longleftrightarrow> a = b"
  by (cases a; cases b) simp_all

lemma compareTo_less: "compareTo a b < 0 \<longleftrightarrow> a < b"
  by (cases a; cases b) (auto simp: wireId_uint word_less_def sgn_if)

lemma compareTo_eq: "compareTo a b = 0 \<longleftrightarrow> a = b"
  by (cases a; cases b) (auto simp: sgn_if wireId_inj)

lemma fromWire_reserved: "fromWire (uint v) = reserved_try_from v"
proof (cases "reserved_try_from v")
  case (Some k)
  then have "v = reserved_as_u16 k" by (simp add: reserved_try_from_Some)
  then show ?thesis using Some by (cases k) (simp_all add: fromWire_def reserved_keys_def)
next
  case None
  then have "\<forall>k. wireId k \<noteq> uint v" by (metis reserved_try_from_Some option.distinct(1) wireId_uint word_uint_eq_iff)
  then show ?thesis using None by (simp add: fromWire_def find_None_iff)
qed

lemma java_tagged_id_word: "word_of_int (java_tagged_id k) = tagged_id k"
proof (cases k)
  case (Reserved r)
  then show ?thesis
    by (cases r) (simp_all add: java_critical_bit_def CRITICAL_BIT_def)
qed (simp add: java_user_key_id_def USER_KEY_ID_def)

lemma writeEntry_bytes: "writeEntry k v = entry_bytes (k, v)"
  by (simp add: writeEntry_def writeEntryHeader_def entry_bytes_def putShort_def put_byte_def putInt_def
      java_tagged_id_word)

lemma entryId_mono: "wireId r \<ge> entryId k \<longleftrightarrow> \<not> Reserved r < k"
proof (cases k)
  case (User n)
  have "wireId r < java_user_key_id" by (cases r) (simp_all add: java_user_key_id_def)
  then show ?thesis using User by simp
qed (auto simp: wireId_uint word_less_def)

section \<open>The request encoder\<close>

text \<open>The entries the runtime adds to a request.\<close>

definition request_entries :: "int \<Rightarrow> TraceContext option \<Rightarrow> CompressionCodec \<Rightarrow> int \<Rightarrow> Metadata" where
  "request_entries timeoutMillis trace codec originalLength =
     (Reserved DeadlineMillis, putInt timeoutMillis)
     # (case trace of None \<Rightarrow> [] | Some t \<Rightarrow> [(Reserved TraceContextKey, trace_writeTo t)])
     @ (if codec = Zstd then [(Reserved CompressionCodecKey, [1]), (Reserved OriginalLength, putInt originalLength)] else [])"

definition keyed_entries ::
    "int \<Rightarrow> TraceContext option \<Rightarrow> CompressionCodec \<Rightarrow> int \<Rightarrow> ReservedMetadataKey list \<Rightarrow> Metadata" where
  "keyed_entries timeoutMillis trace codec originalLength keys =
     map (\<lambda>key. (Reserved key, projr (writeRequestValue timeoutMillis trace codec originalLength key)))
       (filter (\<lambda>key. requestValueLength trace codec key \<noteq> 0) keys)"

fun merge_entries :: "Metadata \<Rightarrow> Metadata \<Rightarrow> Metadata" where
  "merge_entries [] rs = rs"
| "merge_entries es [] = es"
| "merge_entries (e # es) (r # rs) =
    (if fst r < fst e then r # merge_entries (e # es) rs else e # merge_entries es (r # rs))"

lemma merge_entries_Nil [simp]: "merge_entries es [] = es"
  by (cases es) simp_all

lemma merge_entries_set: "set (merge_entries es rs) = set es \<union> set rs"
  by (induction es rs rule: merge_entries.induct) auto

lemma merge_entries_length: "length (block_bytes (merge_entries es rs)) = length (block_bytes es) + length (block_bytes rs)"
  by (induction es rs rule: merge_entries.induct) auto

lemma merge_entries_wf:
  "bt_wf es \<Longrightarrow> bt_wf rs \<Longrightarrow> fst ` set es \<inter> fst ` set rs = {} \<Longrightarrow> bt_wf (merge_entries es rs)"
proof (induction es rs rule: merge_entries.induct)
  case (3 e es r rs)
  show ?case
  proof (cases "fst r < fst e")
    case True
    have "fst r < k" if "k \<in> fst ` set (merge_entries (e # es) rs)" for k
      using that True 3 by (auto simp: merge_entries_set bt_wf_Cons)
    with 3 True show ?thesis by (auto simp: bt_wf_Cons [of r])
  next
    case False
    then have "fst e < fst r" using "3.prems"(3) by auto
    then have "fst e < k" if "k \<in> fst ` set (merge_entries es (r # rs))" for k
      using that 3 by (auto simp: merge_entries_set bt_wf_Cons)
    with 3 False show ?thesis by (auto simp: bt_wf_Cons [of e])
  qed
qed simp_all

lemma length_putInt [simp]: "length (putInt v) = 4"
  by (simp add: putInt_def)

lemma length_trace_writeTo: "trace_context_wf t \<Longrightarrow> length (trace_writeTo t) = 25"
  by (simp add: trace_writeTo_def trace_context_wf_def put_byte_def)

lemma request_entries_keyed:
  "keyed_entries timeoutMillis trace codec originalLength REQUEST_KEYS
     = request_entries timeoutMillis trace codec originalLength"
  by (cases trace; cases codec)
    (simp_all add: keyed_entries_def request_entries_def REQUEST_KEYS_def requestValueLength_def writeRequestValue_def
      WIRE_LENGTH_def put_byte_def)

lemma request_value_ok:
  assumes "key \<in> set REQUEST_KEYS" "requestValueLength trace codec key \<noteq> 0"
    and "\<And>t. trace = Some t \<Longrightarrow> trace_context_wf t"
  obtains v where "writeRequestValue timeoutMillis trace codec originalLength key = Inr v"
    "int (length v) = requestValueLength trace codec key"
  using assms by (cases trace; cases codec)
    (auto simp: REQUEST_KEYS_def requestValueLength_def writeRequestValue_def WIRE_LENGTH_def put_byte_def
      length_trace_writeTo)

lemma writeRequestKey_bytes:
  assumes "key \<in> set REQUEST_KEYS" "requestValueLength trace codec key \<noteq> 0"
    and "\<And>t. trace = Some t \<Longrightarrow> trace_context_wf t"
  shows "writeRequestKey timeoutMillis trace codec originalLength key
    = Inr (entry_bytes (Reserved key, projr (writeRequestValue timeoutMillis trace codec originalLength key)))"
proof -
  obtain v where v: "writeRequestValue timeoutMillis trace codec originalLength key = Inr v"
    "int (length v) = requestValueLength trace codec key"
    using request_value_ok [OF assms] by blast
  then show ?thesis
    using java_tagged_id_word [of "Reserved key"]
    by (simp add: writeRequestKey_def writeEntryHeader_def entry_bytes_def putShort_def put_byte_def putInt_def
        flip: v(2) del: rbind_eq_Inr)
qed

lemma keyed_entries_dropWhile:
  "keyed_entries timeoutMillis trace codec originalLength (dropWhile (\<lambda>key. requestValueLength trace codec key = 0) keys)
     = keyed_entries timeoutMillis trace codec originalLength keys"
  by (induction keys) (simp_all add: keyed_entries_def)

lemma write_merged_bytes:
  assumes t: "\<And>t. trace = Some t \<Longrightarrow> trace_context_wf t" and "set keys \<subseteq> set REQUEST_KEYS"
  shows "write_merged timeoutMillis trace codec originalLength es keys out
    = Inr (out @ block_bytes (merge_entries es (keyed_entries timeoutMillis trace codec originalLength keys)))"
  using assms(2)
proof (induction "length es + length keys" arbitrary: es keys out rule: less_induct)
  case less
  let ?P = "\<lambda>key. requestValueLength trace codec key = 0"
  let ?K = "keyed_entries timeoutMillis trace codec originalLength"
  note unfold = write_merged.simps [of timeoutMillis trace codec originalLength es keys out]
  have K: "?K keys = ?K (dropWhile ?P keys)" by (simp add: keyed_entries_dropWhile)
  have len: "length (dropWhile ?P keys) \<le> length keys" by (rule length_dropWhile_le)
  have sub: "set (dropWhile ?P keys) \<subseteq> set REQUEST_KEYS" using less.prems set_dropWhileD by fast
  show ?case
  proof (cases "dropWhile ?P keys")
    case Nil
    then have k: "?K keys = []" using K by (simp add: keyed_entries_def)
    show ?thesis
    proof (cases es)
      case Nil
      then show ?thesis unfolding unfold \<open>dropWhile ?P keys = []\<close> by (simp add: k)
    next
      case (Cons e es')
      with less.hyps [of es' "[]"] k show ?thesis
        unfolding unfold Nil by (cases e) (simp add: writeEntry_bytes keyed_entries_def)
    qed
  next
    case (Cons key rest)
    have key: "key \<in> set REQUEST_KEYS" "\<not> ?P key" "set rest \<subseteq> set REQUEST_KEYS"
      using Cons sub hd_dropWhile [of ?P keys] by auto
    have k: "?K keys = (Reserved key, projr (writeRequestValue timeoutMillis trace codec originalLength key)) # ?K rest"
      using K Cons key(2) by (simp add: keyed_entries_def)
    have k': "?K (key # rest) = ?K keys" using K Cons by simp
    note w = writeRequestKey_bytes [OF key(1,2) t, of timeoutMillis originalLength]
    show ?thesis
    proof (cases es)
      case Nil
      with less.hyps [of "[]" rest] key(3) k w len show ?thesis
        unfolding unfold Cons by (simp del: rbind_eq_Inr)
    next
      case (Cons e es')
      have "write_merged timeoutMillis trace codec originalLength es' (key # rest) out'
          = Inr (out' @ block_bytes (merge_entries es' (?K keys)))" for out'
        using less.hyps [of es' "key # rest" out'] key k' len Cons \<open>dropWhile ?P keys = key # rest\<close> by simp
      moreover have "write_merged timeoutMillis trace codec originalLength es rest out'
          = Inr (out' @ block_bytes (merge_entries es (?K rest)))" for out'
        using less.hyps [of es rest out'] key len \<open>dropWhile ?P keys = key # rest\<close> by simp
      ultimately show ?thesis
        using Cons k w unfolding unfold \<open>dropWhile ?P keys = key # rest\<close>
        by (cases e) (simp add: writeEntry_bytes entryId_mono del: rbind_eq_Inr)
    qed
  qed
qed

lemma addExact_Inr: "addExact a b = Inr c \<longleftrightarrow> c = a + b \<and> - int_max - 1 \<le> c \<and> c \<le> int_max"
  by (auto simp: addExact_def)

lemma add_entries_Inr:
  "try_fold add_entry_length n es = Inr v \<Longrightarrow> v = n + int (length (block_bytes es)) \<and> (n \<le> int_max \<longrightarrow> v \<le> int_max)"
proof (induction es arbitrary: n)
  case (Cons e es)
  have l: "int (length (entry_bytes e)) = 7 + int (length (key_name (fst e))) + int (length (snd e))"
    by (cases e) (simp add: length_entry_bytes ENTRY_HEADER_LEN_def)
  obtain n' where n': "add_entry_length n e = Inr n'" "try_fold add_entry_length n' es = Inr v"
    using Cons.prems by auto
  then have "n' = n + int (length (entry_bytes e))" "n' \<le> int_max"
    using l by (auto simp: add_entry_length_def addExact_Inr entry_header_length_def)
  then show ?case using Cons.IH [OF n'(2)] by simp
qed simp

lemma add_entries_length:
  assumes "0 \<le> n" "n + int (length (block_bytes es)) \<le> int_max"
  shows "try_fold add_entry_length n es = Inr (n + int (length (block_bytes es)))"
  using assms
proof (induction es arbitrary: n)
  case (Cons e es)
  have l: "int (length (entry_bytes e)) = 7 + int (length (key_name (fst e))) + int (length (snd e))"
    by (cases e) (simp add: length_entry_bytes ENTRY_HEADER_LEN_def)
  then have "add_entry_length n e = Inr (n + int (length (entry_bytes e)))"
    using Cons.prems by (simp add: add_entry_length_def addExact_def entry_header_length_def int_max_def del: rbind_eq_Inr)
  with Cons l show ?case by (simp add: algebra_simps del: rbind_eq_Inr)
qed simp

lemma request_entries_bytes:
  assumes "\<And>t. trace = Some t \<Longrightarrow> trace_context_wf t"
  shows "int (length (block_bytes (request_entries timeoutMillis trace codec originalLength)))
    = 11 + (if trace \<noteq> None then 32 else 0) + (if codec = Zstd then 19 else 0)"
  using assms by (cases trace) (simp_all add: request_entries_def length_entry_bytes ENTRY_HEADER_LEN_def length_trace_writeTo)

lemma request_keys_length:
  assumes "\<And>t. trace = Some t \<Longrightarrow> trace_context_wf t"
    and "fst ` set entries \<inter> fst ` set (request_entries timeoutMillis trace codec originalLength) = {}"
  shows "try_fold (add_request_length entries trace codec) 0 REQUEST_KEYS =
    Inr (int (length (block_bytes (request_entries timeoutMillis trace codec originalLength))))"
proof -
  have free: "\<not> list_ex (\<lambda>(entry, _). entry = Reserved key) entries"
    if "Reserved key \<in> fst ` set (request_entries timeoutMillis trace codec originalLength)" for key
    using assms(2) that by (force simp: list_ex_iff)
  show ?thesis
    using free request_entries_bytes [of trace timeoutMillis codec originalLength, OF assms(1)]
    by (cases trace; cases codec)
      (simp_all add: REQUEST_KEYS_def add_request_length_def requestValueLength_def request_entries_def Let_def
        addExact_def int_max_def entry_header_length_def WIRE_LENGTH_def del: rbind_eq_Inr)
qed

lemma request_prefix_length:
  assumes "\<And>t. trace = Some t \<Longrightarrow> trace_context_wf t"
    and "fst ` set entries \<inter> fst ` set (request_entries timeoutMillis trace codec originalLength) = {}"
    and "4 + int (length (block_bytes entries))
       + int (length (block_bytes (request_entries timeoutMillis trace codec originalLength))) \<le> int_max"
  shows "requestPrefixLength entries trace codec = Inr (4 + int (length (block_bytes entries))
       + int (length (block_bytes (request_entries timeoutMillis trace codec originalLength))))"
proof (cases "entries = []")
  case True
  then show ?thesis
    using request_entries_bytes [OF assms(1)]
    by (simp add: requestPrefixLength_def entry_header_length_def WIRE_LENGTH_def)
next
  case False
  let ?n = "int (length (block_bytes (request_entries timeoutMillis trace codec originalLength)))"
  have "try_fold (add_request_length entries trace codec) 0 REQUEST_KEYS = Inr ?n" by (rule request_keys_length [OF assms(1,2)])
  moreover have "try_fold add_entry_length ?n entries = Inr (?n + int (length (block_bytes entries)))"
    using assms(3) by (intro add_entries_length) simp_all
  ultimately show ?thesis
    using False assms(3) by (simp add: requestPrefixLength_def addExact_def int_max_def del: rbind_eq_Inr)
qed

lemma request_prefix_Inr:
  assumes "\<And>t. trace = Some t \<Longrightarrow> trace_context_wf t"
    and "fst ` set entries \<inter> fst ` set (request_entries timeoutMillis trace codec originalLength) = {}"
    and "requestPrefixLength entries trace codec = Inr v"
  shows "v = 4 + int (length (block_bytes (merge_entries entries (request_entries timeoutMillis trace codec originalLength))))"
    and "v \<le> int_max"
proof -
  let ?n = "int (length (block_bytes (request_entries timeoutMillis trace codec originalLength)))"
  have "v = 4 + ?n + int (length (block_bytes entries)) \<and> v \<le> int_max"
  proof (cases "entries = []")
    case True
    then show ?thesis
      using request_entries_bytes [of trace timeoutMillis codec originalLength, OF assms(1)] assms(3)
      by (auto simp: requestPrefixLength_def entry_header_length_def WIRE_LENGTH_def int_max_def)
  next
    case False
    obtain k where k: "try_fold add_entry_length ?n entries = Inr k" "addExact 4 k = Inr v"
      using assms(3) False by (auto simp: requestPrefixLength_def request_keys_length [OF assms(1,2)])
    then show ?thesis using add_entries_Inr [OF k(1)] by (auto simp: addExact_Inr)
  qed
  then show "v = 4 + int (length (block_bytes (merge_entries entries (request_entries timeoutMillis trace codec originalLength))))"
    "v \<le> int_max" by (simp_all add: merge_entries_length)
qed

lemma request_entries_wf: "metadata_wf (request_entries timeoutMillis trace codec originalLength)"
  by (cases trace) (auto simp: metadata_wf_def request_entries_def bt_wf_def key_ok_def)

lemma write_request_prefix:
  assumes t: "\<And>t. trace = Some t \<Longrightarrow> trace_context_wf t"
  shows "writeRequestPrefix entries n timeoutMillis trace codec originalLength
    = Inr (putInt (n - 4) @ block_bytes (merge_entries entries (request_entries timeoutMillis trace codec originalLength)))"
proof (cases "entries = []")
  case True
  have h: "writeEntryHeader (java_critical_bit OR wireId key) 0 (int (length v)) @ v = entry_bytes (Reserved key, v)" for key v
    using java_tagged_id_word [of "Reserved key"]
    by (simp add: writeEntryHeader_def entry_bytes_def putShort_def put_byte_def putInt_def)
  note h1 = h [of DeadlineMillis "putInt timeoutMillis"] h [of CompressionCodecKey "[1]"]
    h [of OriginalLength "putInt originalLength"]
  show ?thesis
  proof (cases trace)
    case None
    then show ?thesis
      using True h1 by (cases codec) (simp_all add: writeRequestPrefix_def request_entries_def put_byte_def)
  next
    case (Some tr)
    then show ?thesis
      using True h1 h [of TraceContextKey "trace_writeTo tr"] length_trace_writeTo [OF t [OF Some]]
      by (cases codec) (simp_all add: writeRequestPrefix_def request_entries_def put_byte_def WIRE_LENGTH_def)
  qed
next
  case False
  then show ?thesis
    using write_merged_bytes [of trace REQUEST_KEYS timeoutMillis codec originalLength entries "putInt (n - 4)"] t
    by (simp add: writeRequestPrefix_def request_entries_keyed)
qed

lemma encode_request_prefix:
  assumes t: "\<And>t. trace = Some t \<Longrightarrow> trace_context_wf t" and "metadata_wf entries"
    and "fst ` set entries \<inter> fst ` set (request_entries timeoutMillis trace codec originalLength) = {}"
    and "4 + int (length (block_bytes entries))
       + int (length (block_bytes (request_entries timeoutMillis trace codec originalLength))) \<le> int_max"
  defines "m \<equiv> merge_entries entries (request_entries timeoutMillis trace codec originalLength)"
  shows "metadata_wf m" and "4 + int (length (block_bytes m)) \<le> int_max"
    and "requestPrefixLength entries trace codec = Inr (4 + int (length (block_bytes m)))"
    and "writeRequestPrefix entries (4 + int (length (block_bytes m))) timeoutMillis trace codec originalLength
      = Inr (u32_to_be_bytes (word_of_nat (length (block_bytes m))) @ block_bytes m)"
proof -
  show "metadata_wf m"
    using assms(2,3) request_entries_wf [of timeoutMillis trace codec originalLength] merge_entries_wf
    by (force simp: metadata_wf_keys m_def merge_entries_set image_Un)
  show "4 + int (length (block_bytes m)) \<le> int_max" using assms(4) by (simp add: m_def merge_entries_length)
  show "requestPrefixLength entries trace codec = Inr (4 + int (length (block_bytes m)))"
    using request_prefix_length [OF t assms(3,4)] by (simp add: m_def merge_entries_length)
  show "writeRequestPrefix entries (4 + int (length (block_bytes m))) timeoutMillis trace codec originalLength
      = Inr (u32_to_be_bytes (word_of_nat (length (block_bytes m))) @ block_bytes m)"
    using write_request_prefix [of trace entries "4 + int (length (block_bytes m))" timeoutMillis codec originalLength] t
    by (simp add: putInt_def m_def)
qed

section \<open>Decoding\<close>

record Limits =
  maxBytes :: int
  maxEntries :: int
  maxValueBytes :: int

text \<open>\<open>Limits\<close> refuses a limit below one.\<close>

definition limits_new :: "int \<Rightarrow> int \<Rightarrow> int \<Rightarrow> java_error + Limits" where
  "limits_new b e v =
    (if b < 1 \<or> e < 1 \<or> v < 1 then Inl (IllegalArgument ''metadata limits must be positive'')
     else Inr \<lparr>maxBytes = b, maxEntries = e, maxValueBytes = v\<rparr>)"

record wire_entry =
  we_keyId :: int
  we_critical :: bool
  we_name :: bytes
  we_value :: bytes
  we_end :: nat

text \<open>The part of the loop that reads one entry; \<open>entryEnd\<close> is a \<open>long\<close> and cannot overflow.\<close>

definition read_entry :: "Limits \<Rightarrow> bytes \<Rightarrow> nat \<Rightarrow> nat \<Rightarrow> java_error + wire_entry" where
  "read_entry limits input blockEnd position =
    (if blockEnd - position < nat entry_header_length then Inl (IOError ''truncated metadata entry header'')
     else
       let taggedId = uint (u16_from_be_bytes (slice input position (position + 2)));
           nameLength = unat (input ! (position + 2));
           valueLength = unat (u32_from_be_bytes (slice input (position + 3) (position + 7)));
           nameStart = position + 7;
           entryEnd = nameStart + nameLength + valueLength in
       if entryEnd > blockEnd then Inl (IOError ''metadata entry exceeds block'')
       else if int valueLength > maxValueBytes limits then Inl (IOError ''metadata value exceeds limit'')
       else Inr \<lparr>we_keyId = taggedId AND java_key_mask, we_critical = (taggedId AND java_critical_bit \<noteq> 0),
                 we_name = slice input nameStart (nameStart + nameLength),
                 we_value = slice input (nameStart + nameLength) entryEnd, we_end = entryEnd\<rparr>)"

text \<open>\<open>Integer.compare\<close> on the ids, then \<open>Arrays.compareUnsigned\<close> on the names.\<close>

definition check_order :: "(int \<times> bytes) option \<Rightarrow> wire_entry \<Rightarrow> java_error + unit" where
  "check_order previous e =
    (case previous of
       None \<Rightarrow> Inr ()
     | Some (previousKeyId, previousName) \<Rightarrow>
         if previousKeyId = we_keyId e \<and> previousName = we_name e
         then Inl (IOError ''duplicate singleton metadata key'')
         else if previousKeyId > we_keyId e \<or> (previousKeyId = we_keyId e \<and> previousName > we_name e)
         then Inl (IOError ''non-canonical metadata order'')
         else Inr ())"

text \<open>The key of an entry; \<open>None\<close> is an unknown entry that may be skipped.\<close>

definition wire_key :: "wire_entry \<Rightarrow> java_error + MetadataKey option" where
  "wire_key e =
    (if we_keyId e = java_user_key_id then
       rbind (map_err (\<lambda>_. IOError ''invalid user metadata key'') (validateUserKey (we_name e))) (\<lambda>_.
       Inr (Some (User (we_name e))))
     else if we_name e \<noteq> [] then Inl (IOError ''reserved metadata key has a name'')
     else
       (case fromWire (we_keyId e) of
          None \<Rightarrow> if we_critical e then Inl (IOError ''unknown critical metadata key'') else Inr None
        | Some reserved \<Rightarrow> Inr (Some (Reserved reserved))))"

lemma read_entry_progress:
  assumes "read_entry limits input blockEnd position = Inr e"
  shows "position < we_end e" and "we_end e \<le> blockEnd"
  using assms by (auto simp: read_entry_def Let_def split: if_splits)

function decode_entries ::
    "Limits \<Rightarrow> bytes \<Rightarrow> nat \<Rightarrow> nat \<Rightarrow> int \<Rightarrow> (int \<times> bytes) option \<Rightarrow> Metadata \<Rightarrow> java_error + Metadata" where
  "decode_entries limits input blockEnd position count previous decoded =
    (if position < blockEnd then
       if count + 1 > maxEntries limits then Inl (IOError ''metadata exceeds entry limit'')
       else
         (case read_entry limits input blockEnd position of
            Inl err \<Rightarrow> Inl err
          | Inr e \<Rightarrow>
              rbind (check_order previous e) (\<lambda>_.
              rbind (wire_key e) (\<lambda>key.
              decode_entries limits input blockEnd (we_end e) (count + 1) (Some (we_keyId e, we_name e))
                (case key of None \<Rightarrow> decoded | Some k \<Rightarrow> bt_insert k (we_value e) decoded))))
     else Inr decoded)"
  by pat_completeness auto
termination
  by (relation "measure (\<lambda>(_, _, blockEnd, position, _). blockEnd - position)") (auto dest: read_entry_progress)

declare decode_entries.simps [simp del]

definition java_decode :: "bytes \<Rightarrow> Limits \<Rightarrow> java_error + (Metadata \<times> bytes)" where
  "java_decode input limits =
    (if length input < 4 then Inl (IOError ''truncated metadata length'')
     else
       let announced = uint (u32_from_be_bytes (slice input 0 4));
           available = int (length input) - 4 in
       if announced > available then Inl (IOError ''metadata length exceeds frame body'')
       else if announced > maxBytes limits then Inl (IOError ''metadata exceeds byte limit'')
       else
         let blockEnd = 4 + nat announced in
         rbind (decode_entries limits input blockEnd 4 0 None []) (\<lambda>decoded. Inr (decoded, drop blockEnd input)))"

lemma slice_inside:
  assumes "q \<le> length block"
  shows "slice (pre @ block @ rest) (length pre + p) (length pre + q) = slice block p q"
  using assms by (simp add: slice_def)

lemma slice_slice: "b \<le> q - p \<Longrightarrow> slice (slice xs p q) a b = slice xs (p + a) (p + b)"
  by (simp add: slice_def drop_take add.commute)

definition of_raw :: "nat \<Rightarrow> RawEntry \<Rightarrow> wire_entry" where
  "of_raw offset e = \<lparr>we_keyId = uint (re_key_id e), we_critical = re_critical e, we_name = re_name e,
     we_value = re_value e, we_end = offset + re_end e\<rparr>"

lemma masks_agree:
  "uint (t :: u16) AND java_key_mask = uint (t AND KEY_MASK)"
  "uint t AND java_critical_bit \<noteq> 0 \<longleftrightarrow> t AND CRITICAL_BIT \<noteq> 0"
proof -
  have m: "uint KEY_MASK = java_key_mask" "uint CRITICAL_BIT = java_critical_bit"
    by (simp_all add: KEY_MASK_def CRITICAL_BIT_def java_key_mask_def java_critical_bit_def)
  show "uint t AND java_key_mask = uint (t AND KEY_MASK)" by (simp add: unsigned_and_eq m)
  have "uint t AND java_critical_bit = uint (t AND CRITICAL_BIT)" by (simp add: unsigned_and_eq m)
  then show "uint t AND java_critical_bit \<noteq> 0 \<longleftrightarrow> t AND CRITICAL_BIT \<noteq> 0" by (simp add: uint_0_iff)
qed

lemma read_entry_raw:
  assumes "length block \<le> usize_max" "maxValueBytes jl = uint limit"
  shows "read_entry jl (pre @ block @ rest) (length pre + length block) (length pre + p) = Inr w \<longleftrightarrow>
    (\<exists>e. raw_entry block p = Inr e \<and> re_value_len e \<le> limit \<and> w = of_raw (length pre) e)"
proof (cases "p + 7 \<le> length block")
  case False
  then show ?thesis
    by (auto simp: read_entry_def raw_entry_def entry_header_length_def ENTRY_HEADER_LEN_def get_range_def
        usize_checked_add_def)
next
  case True
  let ?t = "u16_from_be_bytes (slice block p (p + 2))" and ?n = "unat (block ! (p + 2))"
    and ?v = "u32_from_be_bytes (slice block (p + 3) (p + 7))"
  let ?x = "pre @ block @ rest" and ?o = "length pre"
  have s: "slice ?x (?o + p) (?o + p + 2) = slice block p (p + 2)"
    "slice ?x (?o + p + 3) (?o + p + 7) = slice block (p + 3) (p + 7)"
    "?x ! (?o + p + 2) = block ! (p + 2)"
    using True slice_inside [of "p + 2" block pre rest p] slice_inside [of "p + 7" block pre rest "p + 3"]
    by (simp_all add: add.assoc nth_append)
  have h: "slice (slice block p (p + 7)) 0 2 = slice block p (p + 2)"
    "slice (slice block p (p + 7)) 3 7 = slice block (p + 3) (p + 7)"
    "slice block p (p + 7) ! 2 = block ! (p + 2)"
    using True by (simp_all add: slice_slice) (simp add: slice_def)
  have d: "slice ?x (?o + p + 7) (?o + p + 7 + ?n) = slice block (p + 7) (p + 7 + ?n)"
    "slice ?x (?o + p + 7 + ?n) (?o + p + 7 + ?n + unat ?v) = slice block (p + 7 + ?n) (p + 7 + ?n + unat ?v)"
    if "p + 7 + ?n + unat ?v \<le> length block"
    using that slice_inside [of "p + 7 + ?n" block pre rest "p + 7"]
      slice_inside [of "p + 7 + ?n + unat ?v" block pre rest "p + 7 + ?n"] by (simp_all add: add.assoc)
  have rd: "read_entry jl ?x (?o + length block) (?o + p) =
      (if p + 7 + ?n + unat ?v > length block then Inl (IOError ''metadata entry exceeds block'')
       else if ?v > limit then Inl (IOError ''metadata value exceeds limit'')
       else Inr \<lparr>we_keyId = uint (?t AND KEY_MASK), we_critical = (?t AND CRITICAL_BIT \<noteq> 0),
         we_name = slice block (p + 7) (p + 7 + ?n), we_value = slice block (p + 7 + ?n) (p + 7 + ?n + unat ?v),
         we_end = ?o + (p + 7 + ?n + unat ?v)\<rparr>)"
    unfolding read_entry_def Let_def s masks_agree
    using True d by (auto simp: entry_header_length_def assms(2) word_less_def)
  have raw: "raw_entry block p =
      (if p + 7 + ?n + unat ?v > length block then Inl InvalidMetadataEntryLength
       else Inr \<lparr>re_key_id = ?t AND KEY_MASK, re_critical = (?t AND CRITICAL_BIT \<noteq> 0),
         re_name = slice block (p + 7) (p + 7 + ?n), re_value = slice block (p + 7 + ?n) (p + 7 + ?n + unat ?v),
         re_value_len = ?v, re_end = p + 7 + ?n + unat ?v\<rparr>)"
    using True assms(1)
    by (simp add: raw_entry_def Let_def ENTRY_HEADER_LEN_def get_range_def usize_checked_add_def h del: rbind_eq_Inr ok_or_eq_Inr)
  show ?thesis unfolding rd raw by (auto simp: of_raw_def)
qed

text \<open>Names outside the namespace the client keeps for the runtime.\<close>

definition client_key :: "MetadataKey \<Rightarrow> bool" where
  "client_key k = (case k of Reserved _ \<Rightarrow> True | User name \<Rightarrow> take 10 name \<noteq> str ''moonlight-'')"

lemma validateUserKey_Inr: "validateUserKey name = Inr () \<longleftrightarrow> validate_user_key name = Inr () \<and> client_key (User name)"
  by (auto simp: validateUserKey_def validate_user_key_def client_key_def is_ascii_lowercase_def is_ascii_digit_def
      list_all_iff str_def)

lemma check_order_raw:
  "check_order (map_option (\<lambda>(i, n). (uint i, n)) previous) (of_raw offset e) = Inr () \<longleftrightarrow> order_check previous e = Inr ()"
  by (auto simp: check_order_def order_check_def of_raw_def word_less_def simp flip: word_uint_eq_iff
      split: option.splits)

lemma wire_key_raw:
  "wire_key (of_raw offset e) = Inr k \<longleftrightarrow>
   key_check e = Inr () \<and> entry_key e = Inr k \<and> (\<forall>key. k = Some key \<longrightarrow> client_key key)"
proof (cases "re_key_id e = USER_KEY_ID")
  case True
  then have "we_keyId (of_raw offset e) = java_user_key_id"
    by (simp add: of_raw_def java_user_key_id_def USER_KEY_ID_def)
  then show ?thesis
    using True validate_user_key_ok(3) [of "re_name e"]
    by (cases k) (auto simp: wire_key_def of_raw_def validateUserKey_Inr key_check_def entry_key_def map_err_eq_Inr)
next
  case False
  moreover have "java_user_key_id = uint USER_KEY_ID" by (simp add: java_user_key_id_def USER_KEY_ID_def)
  ultimately have "uint (re_key_id e) \<noteq> java_user_key_id" by (metis word_uint_eq_iff)
  then show ?thesis
    using False by (auto simp: wire_key_def of_raw_def fromWire_reserved key_check_def entry_key_def client_key_def
        split: option.splits)
qed

lemma of_raw_sel [simp]:
  "we_keyId (of_raw offset e) = uint (re_key_id e)" "we_name (of_raw offset e) = re_name e"
  "we_value (of_raw offset e) = re_value e" "we_end (of_raw offset e) = offset + re_end e"
  by (simp_all add: of_raw_def)

abbreviation "java_order \<equiv> map_option (\<lambda>(i, n). (uint (i :: u16), n :: bytes))"

abbreviation "put_entries \<equiv> foldl (\<lambda>m (k, v). bt_insert k v m)"

text \<open>One turn of the decoder against one raw entry of the server.\<close>

lemma decode_entries_step:
  assumes "length block \<le> usize_max" "maxValueBytes jl = uint (max_value_bytes limits)"
    and "p < length block" "count + 1 \<le> maxEntries jl"
  shows "decode_entries jl (pre @ block @ rest) (length pre + length block) (length pre + p) count (java_order previous) decoded
      = Inr m \<longleftrightarrow>
    (\<exists>e k. raw_entry block p = Inr e \<and> re_value_len e \<le> max_value_bytes limits \<and> order_check previous e = Inr ()
       \<and> key_check e = Inr () \<and> entry_key e = Inr k \<and> (\<forall>key. k = Some key \<longrightarrow> client_key key)
       \<and> decode_entries jl (pre @ block @ rest) (length pre + length block) (length pre + re_end e) (count + 1)
           (java_order (Some (entry_order e)))
           (case k of None \<Rightarrow> decoded | Some key \<Rightarrow> bt_insert key (re_value e) decoded) = Inr m)"
proof -
  let ?x = "pre @ block @ rest" and ?stop = "length pre + length block"
  note rd = read_entry_raw [OF assms(1,2), of pre rest p]
  note unfold = decode_entries.simps [of jl ?x ?stop "length pre + p" count "java_order previous" decoded]
  show ?thesis
  proof (cases "read_entry jl ?x ?stop (length pre + p)")
    case (Inl err)
    then have "decode_entries jl ?x ?stop (length pre + p) count (java_order previous) decoded = Inl err"
      using assms(3,4) unfold by simp
    moreover have "raw_entry block p \<noteq> Inr e \<or> \<not> re_value_len e \<le> max_value_bytes limits" for e
      using rd Inl by auto
    ultimately show ?thesis by auto
  next
    case (Inr w)
    then obtain e where e: "raw_entry block p = Inr e" "re_value_len e \<le> max_value_bytes limits" "w = of_raw (length pre) e"
      using rd by blast
    then show ?thesis
      using assms(3,4) Inr unfold check_order_raw [of previous "length pre" e]
      by (auto simp: entry_order_def wire_key_raw cong: option.case_cong)
  qed
qed

lemma decode_entries_raw:
  assumes "length block \<le> usize_max" "maxValueBytes jl = uint (max_value_bytes limits)" "count \<le> maxEntries jl"
  shows "decode_entries jl (pre @ block @ rest) (length pre + length block) (length pre + p) count (java_order previous) decoded
      = Inr m \<longleftrightarrow>
    (\<exists>es. raw_entries block p = Inr es \<and> count + int (length es) \<le> maxEntries jl \<and> entries_ok limits previous es
       \<and> (\<forall>k \<in> fst ` set (known_entries es). client_key k) \<and> m = put_entries decoded (known_entries es))"
  using assms(1,3)
proof (induction block p arbitrary: count previous decoded rule: raw_entries.induct)
  case (1 block p)
  let ?decode = "decode_entries jl (pre @ block @ rest) (length pre + length block)"
  show ?case (is "?L \<longleftrightarrow> ?R")
  proof (cases "p < length block \<and> count + 1 \<le> maxEntries jl")
    case False
    then show ?thesis
      using "1.prems"(2) decode_entries.simps [of jl "pre @ block @ rest" "length pre + length block" "length pre + p" count
          "java_order previous" decoded]
      by (auto simp: raw_entries.simps [of block p] split: sum.splits dest!: spec [of _ "[]"])
  next
    case True
    note step = decode_entries_step [OF "1.prems"(1) assms(2), of p count pre rest previous decoded m]
      and IH = "1.IH" [OF _ _ "1.prems"(1), of _ "count + 1"]
    show ?thesis
    proof
      assume ?L
      then obtain e k where e: "raw_entry block p = Inr e" "re_value_len e \<le> max_value_bytes limits"
        "order_check previous e = Inr ()" "key_check e = Inr ()" "entry_key e = Inr k"
        "\<forall>key. k = Some key \<longrightarrow> client_key key"
        "?decode (length pre + re_end e) (count + 1) (java_order (Some (entry_order e)))
           (case k of None \<Rightarrow> decoded | Some key \<Rightarrow> bt_insert key (re_value e) decoded) = Inr m"
        using step True by blast
      then obtain es where "raw_entries block (re_end e) = Inr es" "count + 1 + int (length es) \<le> maxEntries jl"
        "entries_ok limits (Some (entry_order e)) es" "\<forall>key \<in> fst ` set (known_entries es). client_key key"
        "m = put_entries (case k of None \<Rightarrow> decoded | Some key \<Rightarrow> bt_insert key (re_value e) decoded) (known_entries es)"
        using IH True by blast
      with e show ?R
        using True by (intro exI [of _ "e # es"]) (auto simp: raw_entries.simps [of block p] split: option.splits)
    next
      assume ?R
      then obtain es where es: "raw_entries block p = Inr es" "count + int (length es) \<le> maxEntries jl"
        "entries_ok limits previous es" "\<forall>key \<in> fst ` set (known_entries es). client_key key"
        "m = put_entries decoded (known_entries es)" by blast
      then obtain e es' where e: "raw_entry block p = Inr e" "raw_entries block (re_end e) = Inr es'" "es = e # es'"
        using True by (auto simp: raw_entries.simps [of block p] split: sum.splits)
      moreover obtain k where k: "entry_key e = Inr k" using entry_key_ok es(3) e(3) by auto
      moreover have "?decode (length pre + re_end e) (count + 1) (java_order (Some (entry_order e)))
           (case k of None \<Rightarrow> decoded | Some key \<Rightarrow> bt_insert key (re_value e) decoded) = Inr m"
        using IH [of e "Some (entry_order e)"] True e k es by (auto split: option.splits)
      ultimately show ?L
        using step True es by (auto split: option.splits)
    qed
  qed
qed

lemma put_entries_beyond: "bt_wf ((m :: Metadata) @ kvs) \<Longrightarrow> put_entries m kvs = m @ kvs"
proof (induction kvs arbitrary: m)
  case (Cons kv kvs)
  obtain k v where kv: "kv = (k, v)" by (cases kv)
  have "bt_wf m" "\<forall>k' \<in> fst ` set m. k' < k" using Cons.prems kv by (auto simp: bt_wf_def sorted_wrt_append)
  then have "bt_insert k v m = m @ [(k, v)]" using insert_beyond [of m k v] by (simp add: metadata_insert_def split: if_splits)
  then show ?case using Cons kv by simp
qed simp

lemma java_decode_entries:
  assumes "length block \<le> usize_max" "maxEntries jl = uint (max_entries limits)"
    "maxValueBytes jl = uint (max_value_bytes limits)"
  shows "decode_entries jl (pre @ block @ rest) (length pre + length block) (length pre) 0 None [] = Inr m \<longleftrightarrow>
    (\<exists>es. raw_entries block 0 = Inr es \<and> length es \<le> unat (max_entries limits) \<and> entries_ok limits None es
       \<and> m = known_entries es \<and> (\<forall>k \<in> fst ` set m. client_key k))"
proof -
  have put: "put_entries [] (known_entries es) = known_entries es" if "entries_ok limits None es" for es
    using put_entries_beyond [of "[]"] known_entries_wf [OF that] by simp
  have n: "0 + int (length es) \<le> maxEntries jl \<longleftrightarrow> length es \<le> unat (max_entries limits)" for es :: "RawEntry list"
    unfolding assms(2) uint_nat add_0 by (rule of_nat_le_iff)
  have "0 \<le> maxEntries jl" using assms(2) by simp
  note raw = decode_entries_raw [OF assms(1,3) this, of pre rest 0 None "[]" m, unfolded n add_0_right option.map]
  show ?thesis unfolding raw by (intro arg_cong [where f = Ex] ext) (use put in auto)
qed

lemma metadata_decode_Inr:
  "metadata_decode input limits = Inr (m, payload) \<longleftrightarrow>
   (\<exists>block es. input = u32_to_be_bytes (word_of_nat (length block)) @ block @ payload
      \<and> length block \<le> unat (max_bytes limits) \<and> raw_entries block 0 = Inr es
      \<and> length es \<le> unat (max_entries limits) \<and> entries_ok limits None es \<and> m = known_entries es)"
proof -
  have "metadata_decode input limits = Inr (m, payload) \<longleftrightarrow>
      (\<exists>block. metadata_validate input limits = Inr (block, payload) \<and> into_metadata block = Inr m)"
    by (auto simp: metadata_decode_def)
  moreover have "metadata_validate input limits = Inr (block, payload) \<and> into_metadata block = Inr m \<longleftrightarrow>
      (\<exists>es. input = u32_to_be_bytes (word_of_nat (length block)) @ block @ payload
        \<and> length block \<le> unat (max_bytes limits) \<and> raw_entries block 0 = Inr es
        \<and> length es \<le> unat (max_entries limits) \<and> entries_ok limits None es \<and> m = known_entries es)" for block
    unfolding metadata_validate_Inr using into_metadata_known [of block] by auto
  ultimately show ?thesis by blast
qed

lemma java_decode_Inr:
  assumes "int (length input) \<le> int_max"
  shows "java_decode input jl = Inr (m, payload) \<longleftrightarrow>
    (\<exists>block. input = u32_to_be_bytes (word_of_nat (length block)) @ block @ payload \<and> int (length block) \<le> maxBytes jl
       \<and> decode_entries jl input (4 + length block) 4 0 None [] = Inr m)" (is "?L \<longleftrightarrow> ?R")
proof
  assume ?L
  define n where "n = unat (u32_from_be_bytes (slice input 0 4))"
  have u: "uint (u32_from_be_bytes (slice input 0 4)) = int n" by (simp add: n_def)
  have l: "4 \<le> length input" "int n \<le> int (length input) - 4" "int n \<le> maxBytes jl"
    "decode_entries jl input (4 + n) 4 0 None [] = Inr m" "payload = drop (4 + n) input"
    using \<open>?L\<close> by (auto simp: java_decode_def Let_def u split: if_splits)
  define block where "block = slice input 4 (4 + n)"
  have b: "length block = n" using l by (simp add: block_def slice_def)
  have "slice input 0 4 = take 4 input" "block = take n (drop 4 input)" "payload = drop n (drop 4 input)"
    using l(5) by (simp_all add: block_def slice_def add.commute)
  then have x: "input = slice input 0 4 @ block @ payload" by (metis append_take_drop_id)
  have "slice input 0 4 = u32_to_be_bytes (word_of_nat n)"
    using be_int_roundtrip(2) [of "slice input 0 4"] l(1) by (simp add: n_def slice_def)
  then show ?R using x b l by auto
next
  assume ?R
  then obtain block where r: "input = u32_to_be_bytes (word_of_nat (length block)) @ block @ payload"
    "int (length block) \<le> maxBytes jl" "decode_entries jl input (4 + length block) 4 0 None [] = Inr m" by blast
  then have "length block < 2 ^ 32" using assms by (simp add: int_max_def)
  then have u: "uint (u32_from_be_bytes (slice input 0 4)) = int (length block)"
    using r(1) by (simp add: slice_def uint_nat unat_of_nat)
  show ?L unfolding java_decode_def Let_def u using r by simp
qed

lemma java_decode_agrees:
  assumes "int (length input) \<le> int_max" "maxBytes jl = uint (max_bytes limits)"
    "maxEntries jl = uint (max_entries limits)" "maxValueBytes jl = uint (max_value_bytes limits)"
  shows "java_decode input jl = Inr (m, payload) \<longleftrightarrow>
    metadata_decode input limits = Inr (m, payload) \<and> (\<forall>k \<in> fst ` set m. client_key k)"
proof -
  have d: "decode_entries jl input (4 + length block) 4 0 None [] = Inr m
      \<longleftrightarrow> (\<exists>es. raw_entries block 0 = Inr es \<and> length es \<le> unat (max_entries limits) \<and> entries_ok limits None es
       \<and> m = known_entries es \<and> (\<forall>k \<in> fst ` set m. client_key k))"
    if "input = u32_to_be_bytes (word_of_nat (length block)) @ block @ payload" for block
    using java_decode_entries [OF _ assms(3,4), of block "u32_to_be_bytes (word_of_nat (length block))" payload m]
      assms(1) that by (simp add: usize_max_def int_max_def)
  have b: "int (length block) \<le> maxBytes jl \<longleftrightarrow> length block \<le> unat (max_bytes limits)" for block :: bytes
    unfolding assms(2) uint_nat by (rule of_nat_le_iff)
  show ?thesis unfolding java_decode_Inr [OF assms(1)] metadata_decode_Inr b using d by blast
qed

lemma java_encode_prefix:
  assumes "metadata_wf m" "4 + int (length (block_bytes m)) \<le> int_max"
  shows "java_encodePrefix m = Inr (fst (encode_prefix m []))"
proof -
  have "concat (map (\<lambda>(key, v). writeEntry key v) m) = block_bytes m"
    by (induction m) (simp_all add: writeEntry_bytes split_beta)
  moreover have "length (block_bytes m) \<le> u32_max" using assms(2) by (simp add: int_max_def u32_max_def)
  ultimately show ?thesis
    using assms add_entries_length [of 0 m] encode_prefix_ok [of m "[]"]
    by (simp add: java_encodePrefix_def addExact_def int_max_def putInt_def del: rbind_eq_Inr)
qed

text \<open>What a sequence of calls on the builder gives.\<close>

fun run_puts :: "(bytes \<times> bytes) list \<Rightarrow> Builder \<Rightarrow> java_error + Builder" where
  "run_puts [] b = Inr b"
| "run_puts ((name, v) # puts) b = rbind (builder_put name v b) (run_puts puts)"

definition builder_ok :: "Builder \<Rightarrow> bool" where
  "builder_ok b = (distinct (map fst b) \<and> (\<forall>k \<in> fst ` set b. key_ok k \<and> client_key k))"

lemma builder_put_ok:
  assumes "builder_ok b" "builder_put name v b = Inr b'"
  shows "builder_ok b'" and "set b' = insert (User name, v) (set b)"
  using assms
  by (auto simp: builder_ok_def builder_put_def put_key_def validateUserKey_Inr key_ok_def map_of_eq_None_iff split: if_splits)

lemma run_puts_ok:
  "builder_ok b \<Longrightarrow> run_puts puts b = Inr b' \<Longrightarrow>
   builder_ok b' \<and> set b' = set b \<union> (\<lambda>(name, v). (User name, v)) ` set puts"
proof (induction puts arbitrary: b)
  case (Cons p puts)
  obtain name v where p: "p = (name, v)" by (cases p)
  then obtain b1 where b1: "builder_put name v b = Inr b1" "run_puts puts b1 = Inr b'" using Cons.prems by auto
  show ?case using Cons.IH [OF builder_put_ok(1) [OF Cons.prems(1) b1(1)] b1(2)] builder_put_ok(2) [OF Cons.prems(1) b1(1)] p
    by auto
qed simp

lemma run_puts_length: "run_puts puts b = Inr b' \<Longrightarrow> length b' = length b + length puts"
  by (induction puts arbitrary: b)
    (auto simp: builder_put_def put_key_def split: if_splits)

lemma metadata_build_ok:
  assumes "builder_ok b"
  shows "metadata_wf (metadata_build b)" and "set (metadata_build b) = set b"
proof -
  have gen: "bt_wf (put_entries m b) \<and> set (put_entries m b) = set m \<union> set b"
    if "bt_wf m" "distinct (map fst b)" "fst ` set m \<inter> fst ` set b = {}" for m :: Metadata and b
    using that
  proof (induction b arbitrary: m)
    case (Cons kv b)
    obtain k v where kv: "kv = (k, v)" by (cases kv)
    have fresh: "set (bt_insert k v m) = insert (k, v) (set m)" using Cons.prems kv by (intro bt_insert_fresh) auto
    have "bt_wf (put_entries (bt_insert k v m) b) \<and> set (put_entries (bt_insert k v m) b) = set (bt_insert k v m) \<union> set b"
      using Cons.prems kv fresh by (intro Cons.IH bt_insert_wf) auto
    then show ?case using kv fresh by auto
  qed simp
  have "bt_wf (metadata_build b) \<and> set (metadata_build b) = set b"
    using gen [of "[]" b] assms by (simp add: metadata_build_def builder_ok_def bt_wf_def)
  then show "metadata_wf (metadata_build b)" "set (metadata_build b) = set b"
    using assms by (auto simp: metadata_wf_keys builder_ok_def)
qed

lemma built_entries:
  assumes "run_puts puts [] = Inr b"
  shows "metadata_wf (metadata_build b)" "set (metadata_build b) = (\<lambda>(name, v). (User name, v)) ` set puts"
    and "length (metadata_build b) = length puts"
proof -
  have b: "builder_ok b" "set b = (\<lambda>(name, v). (User name, v)) ` set puts"
    using run_puts_ok [OF _ assms] by (auto simp: builder_ok_def)
  then show w: "metadata_wf (metadata_build b)" and s: "set (metadata_build b) = (\<lambda>(name, v). (User name, v)) ` set puts"
    using metadata_build_ok [OF b(1)] by auto
  have "distinct (metadata_build b)" using w by (auto simp: metadata_wf_def bt_wf_def strict_sorted_iff distinct_map)
  moreover have "distinct b" using b(1) by (auto simp: builder_ok_def distinct_map)
  ultimately have "length (metadata_build b) = length b" using s b(2) by (metis distinct_card)
  then show "length (metadata_build b) = length puts" using run_puts_length [OF assms] by simp
qed

section \<open>Properties\<close>

text \<open>Claim C10. The client's request encoder is the server's: whatever a caller put into the builder, the fast path and the
  merge loop of the client write into the buffer exactly the bytes that the server's encoder gives for the map holding the
  caller's entries and those of the runtime, and the buffer is exactly full.\<close>

theorem request_prefix_canonical:
  assumes "run_puts puts [] = Inr b" "entries = metadata_build b"
    and "\<forall>t. trace = Some t \<longrightarrow> trace_context_wf t"
    and "4 + int (length (block_bytes entries))
       + int (length (block_bytes (request_entries timeoutMillis trace codec originalLength))) \<le> int_max"
  shows "\<exists>m bs. metadata_wf m
    \<and> set m = (\<lambda>(name, v). (User name, v)) ` set puts \<union> set (request_entries timeoutMillis trace codec originalLength)
    \<and> encode_prefix m [] = (bs, Inr ())
    \<and> encodeRequestPrefix entries timeoutMillis trace codec originalLength = Inr bs
    \<and> requestPrefixLength entries trace codec = Inr (int (length bs))"
proof -
  have e: "metadata_wf entries" "set entries = (\<lambda>(name, v). (User name, v)) ` set puts"
    using built_entries [OF assms(1)] assms(2) by auto
  let ?r = "request_entries timeoutMillis trace codec originalLength"
  have "fst ` set entries \<inter> fst ` set ?r = {}"
    unfolding e(2) by (auto simp: request_entries_def split: option.splits if_splits)
  note enc = encode_request_prefix [of trace entries timeoutMillis codec originalLength, OF _ e(1) this assms(4)]
  let ?m = "merge_entries entries ?r"
  have "length (block_bytes ?m) \<le> u32_max" using enc(2) assms(3) by (simp add: int_max_def u32_max_def)
  then have "encode_prefix ?m [] = (u32_to_be_bytes (word_of_nat (length (block_bytes ?m))) @ block_bytes ?m, Inr ())"
    using encode_prefix_ok [of ?m "[]"] enc(1) assms(3) by simp
  moreover have "encodeRequestPrefix entries timeoutMillis trace codec originalLength
      = Inr (u32_to_be_bytes (word_of_nat (length (block_bytes ?m))) @ block_bytes ?m)"
    using enc(3,4) assms(3) by (simp add: encodeRequestPrefix_def into_buffer_def del: rbind_eq_Inr)
  ultimately show ?thesis
    using enc(1,3) assms(3) e(2) by (intro exI [of _ ?m]) (auto simp: merge_entries_set)
qed

text \<open>Claim C11. The decoders of client and server agree: on every input, with the same limits, the client accepts exactly
  what the server accepts, with the same entries and payload, except that it also refuses names in the runtime's
  namespace, which the server allows.\<close>

theorem java_rust_decoders_agree:
  assumes "int (length input) \<le> int_max" "maxBytes jl = uint (max_bytes limits)"
    "maxEntries jl = uint (max_entries limits)" "maxValueBytes jl = uint (max_value_bytes limits)"
  shows "java_decode input jl = Inr (m, payload) \<longleftrightarrow>
    metadata_decode input limits = Inr (m, payload) \<and> (\<forall>k \<in> fst ` set m. client_key k)"
  using assms by (rule java_decode_agrees)

theorem request_prefix_canonical_witness:
  "\<exists>m bs. metadata_wf m \<and> set m = {(User (str ''b''), [9]), (Reserved DeadlineMillis, putInt 500)}
    \<and> encode_prefix m [] = (bs, Inr ()) \<and> encodeRequestPrefix [(User (str ''b''), [9])] 500 None CodecNone 0 = Inr bs"
proof -
  have "run_puts [(str ''b'', [9])] [] = Inr [(User (str ''b''), [9])]"
    by (simp add: builder_put_def validateUserKey_def put_key_def str_def in_range_def)
  moreover have "[(User (str ''b''), [9])] = metadata_build [(User (str ''b''), [9])]" by (simp add: metadata_build_def)
  moreover have "4 + int (length (block_bytes [(User (str ''b''), [9])]))
       + int (length (block_bytes (request_entries 500 None CodecNone 0))) \<le> int_max"
    by (simp add: request_entries_def length_entry_bytes ENTRY_HEADER_LEN_def int_max_def str_def)
  ultimately show ?thesis
    using request_prefix_canonical [of "[(str ''b'', [9])]" "[(User (str ''b''), [9])]" "[(User (str ''b''), [9])]" None 500
        CodecNone 0]
    by (auto simp: request_entries_def)
qed

theorem java_rust_decoders_agree_witness:
  "java_decode [0, 0, 0, 0, 7] \<lparr>maxBytes = 16384, maxEntries = 64, maxValueBytes = 8192\<rparr> = Inr ([], [7])"
proof -
  have "metadata_validate [0, 0, 0, 0, 7] metadata_limits_default = Inr ([], [7])" by code_simp
  then have "metadata_decode [0, 0, 0, 0, 7] metadata_limits_default = Inr ([], [7])"
    by (simp add: metadata_decode_def into_metadata_def into_metadata_from.simps [of "[]"] metadata_new_def)
  then show ?thesis
    using java_rust_decoders_agree [of "[0, 0, 0, 0, 7]" "\<lparr>maxBytes = 16384, maxEntries = 64, maxValueBytes = 8192\<rparr>"
        metadata_limits_default "[]" "[7]"]
    by (simp add: int_max_def metadata_limits_default_def)
qed

end
