(* ===== verification/Java_Client.thy ===== *)
theory Java_Client
  imports Java_Metadata Connection
begin

text \<open>
  The Java client on the wire, java/moonlight-bridge-client (package ru.moonlightproject.bridge.client): payload
  compression and the decoded-byte budget (MoonLightCompression.java), and of MoonLightClient.java the handshake of the
  constructor, reading a frame, building a request frame, decoding an application frame and the turn of the reader loop for one
  frame.

  An \<open>int\<close> or \<open>long\<close> field is the signed integer it holds.  Zstandard is the parameter of the server model.  Futures,
  listeners and streams are seen through what the reader does to them.
\<close>

section \<open>Compression\<close>

record Options =
  minPayloadBytes :: int
  minSavingsBytes :: int
  maxDecodedBodyLength :: int
  maxExpansionRatio :: int
  compressionLevel :: int

definition options_new :: "int \<Rightarrow> int \<Rightarrow> int \<Rightarrow> int \<Rightarrow> int \<Rightarrow> java_error + Options" where
  "options_new payload_bytes savings_bytes decoded ratio level =
    (if payload_bytes < 0 \<or> savings_bytes < 0 \<or> decoded < 1 \<or> ratio < 1
     then Inl (IllegalArgument ''invalid compression options'')
     else Inr \<lparr>minPayloadBytes = payload_bytes, minSavingsBytes = savings_bytes, maxDecodedBodyLength = decoded,
            maxExpansionRatio = ratio, compressionLevel = level\<rparr>)"

definition options_defaults :: Options where
  "options_defaults = \<lparr>minPayloadBytes = 1024, minSavingsBytes = 64, maxDecodedBodyLength = 16 * 1024 * 1024,
     maxExpansionRatio = 64, compressionLevel = 1\<rparr>"

record Encoded =
  en_codec :: CompressionCodec
  en_originalLength :: int
  en_bytes :: bytes

definition java_encode :: "zstd \<Rightarrow> bytes \<Rightarrow> CompressionCodec \<Rightarrow> Options \<Rightarrow> java_error + Encoded" where
  "java_encode z data codec options =
    (let plain = \<lparr>en_codec = CodecNone, en_originalLength = int (length data), en_bytes = data\<rparr> in
     if int (length data) > maxDecodedBodyLength options then Inl (IOError ''payload exceeds decoded body limit'')
     else if codec = CodecNone \<or> int (length data) < minPayloadBytes options then Inr plain
     else
       (case zstd_compress z data (compressionLevel options) of
          None \<Rightarrow> Inl (IOError ''zstd compression failed'')
        | Some compressed \<Rightarrow>
            let worthwhile = (int (length compressed) + minSavingsBytes options \<le> int (length data));
                withinRatio = (int (length data) \<le> int (length compressed) * maxExpansionRatio options) in
            if worthwhile \<and> withinRatio
            then Inr \<lparr>en_codec = codec, en_originalLength = int (length data), en_bytes = compressed\<rparr>
            else Inr plain))"

record DecodedByteBudget =
  jb_capacity :: int
  jb_used :: int

text \<open>One successful or refused pass of the compare-and-swap loop of \<open>reserve\<close>, and closing a reservation.\<close>

definition java_reserve :: "int \<Rightarrow> DecodedByteBudget \<Rightarrow> java_error + DecodedByteBudget" where
  "java_reserve requested b =
    (if requested < 0 then Inl (IllegalArgument ''negative reservation'')
     else if requested > jb_capacity b - jb_used b then Inl (IOError ''decoded byte budget exhausted'')
     else rbind (addExact (jb_used b) requested) (\<lambda>updated. Inr (b\<lparr>jb_used := updated\<rparr>)))"

definition reservation_close :: "int \<Rightarrow> DecodedByteBudget \<Rightarrow> DecodedByteBudget" where
  "reservation_close reserved b = b\<lparr>jb_used := jb_used b - reserved\<rparr>"

definition java_decompress ::
    "zstd \<Rightarrow> Encoded \<Rightarrow> Options \<Rightarrow> DecodedByteBudget \<Rightarrow> (java_error + bytes) \<times> DecodedByteBudget" where
  "java_decompress z e options budget =
    (if en_originalLength e > maxDecodedBodyLength options
     then (Inl (IOError ''announced decoded length exceeds limit''), budget)
     else if en_codec e = CodecNone then
       (if int (length (en_bytes e)) \<noteq> en_originalLength e then Inl (IOError ''uncompressed payload length mismatch'')
        else Inr (en_bytes e), budget)
     else if en_originalLength e > int (length (en_bytes e)) * maxExpansionRatio options
     then (Inl (IOError ''announced decoded-to-encoded ratio exceeds limit''), budget)
     else
       (case java_reserve (en_originalLength e) budget of
          Inl err \<Rightarrow> (Inl err, budget)
        | Inr b \<Rightarrow>
            (case zstd_decompress z (en_bytes e) (nat (en_originalLength e)) of
               None \<Rightarrow> Inl (IOError ''corrupt zstd payload'')
             | Some decoded \<Rightarrow>
                 if int (length decoded) \<noteq> en_originalLength e then Inl (IOError ''decoded payload length mismatch'')
                 else Inr decoded, reservation_close (en_originalLength e) b)))"

section \<open>Frames\<close>

definition java_magic :: int where "java_magic = 0x4D4C4252"
definition java_version :: int where "java_version = 2"
definition REQUEST :: int where "REQUEST = 1"
definition RESPONSE :: int where "RESPONSE = 2"
definition ERROR_KIND :: int where "ERROR_KIND = 3"
definition HELLO :: int where "HELLO = 16"
definition WELCOME :: int where "WELCOME = 17"
definition EVENT :: int where "EVENT = 24"
definition STREAM_ITEM :: int where "STREAM_ITEM = 25"
definition STREAM_END :: int where "STREAM_END = 26"
definition GOAWAY :: int where "GOAWAY = 28"
definition java_flag_has_metadata :: int where "java_flag_has_metadata = 1"

definition putLong :: "int \<Rightarrow> bytes" where "putLong v = u64_to_be_bytes (word_of_int v)"

record JFrame =
  jf_kind :: int
  jf_flags :: int
  jf_methodId :: int
  jf_requestId :: int
  jf_body :: bytes

text \<open>The bytes of \<open>enqueueFrame\<close> and \<open>writeFrameDirect\<close>.\<close>

definition java_header :: "int \<Rightarrow> int \<Rightarrow> int \<Rightarrow> int \<Rightarrow> int \<Rightarrow> bytes" where
  "java_header frame_kind frame_flags bodyLength methodId requestId =
     putInt java_magic @ put_byte java_version @ put_byte frame_kind @ putShort frame_flags @ putInt bodyLength
     @ putInt methodId @ putLong requestId"

definition writeFrameDirect :: "int \<Rightarrow> int \<Rightarrow> int \<Rightarrow> int \<Rightarrow> bytes \<Rightarrow> bytes" where
  "writeFrameDirect frame_kind frame_flags methodId requestId data =
     java_header frame_kind frame_flags (int (length data)) methodId requestId @ data"

definition readFrame :: "int \<Rightarrow> bytes \<Rightarrow> java_error + (JFrame \<times> bytes)" where
  "readFrame bodyLimit input =
    (if length input < 24 then Inl (IOError ''end of stream'')
     else
       let magic = sint (u32_from_be_bytes (slice input 0 4));
           version = uint (input ! 4);
           frame_kind = uint (input ! 5);
           frame_flags = uint (u16_from_be_bytes (slice input 6 8));
           bodyLength = sint (u32_from_be_bytes (slice input 8 12));
           methodId = sint (u32_from_be_bytes (slice input 12 16));
           requestId = sint (u64_from_be_bytes (slice input 16 24)) in
       if magic \<noteq> java_magic \<or> version \<noteq> java_version \<or> frame_flags AND NOT java_flag_has_metadata \<noteq> 0
          \<or> bodyLength < 0 \<or> bodyLength > bodyLimit
       then Inl (IOError ''invalid MoonLightBridge frame header'')
       else if length input - 24 < nat bodyLength then Inl (IOError ''truncated MoonLightBridge frame body'')
       else Inr (\<lparr>jf_kind = frame_kind, jf_flags = frame_flags, jf_methodId = methodId, jf_requestId = requestId,
                  jf_body = slice input 24 (24 + nat bodyLength)\<rparr>, drop (24 + nat bodyLength) input))"

section \<open>Handshake\<close>

record ClientSettings =
  cs_maxBodyLength :: int
  cs_maxDecodedBodyLength :: int
  cs_maxMetadataLength :: int
  cs_maxInFlight :: int
  cs_codecs :: int
  cs_features :: int
  cs_options :: Options

definition java_features :: int where "java_features = 127"

definition java_hello :: bytes where
  "java_hello = putInt (8 * 1024 * 1024) @ putInt (16 * 1024 * 1024) @ putInt (16 * 1024) @ putInt 256 @ putInt 64
     @ putInt 32 @ putInt 3 @ putLong java_features @ putLong 0"

definition getInt :: "bytes \<Rightarrow> nat \<Rightarrow> int" where
  "getInt data i = sint (u32_from_be_bytes (slice data i (i + 4)))"

definition getLong :: "bytes \<Rightarrow> nat \<Rightarrow> int" where
  "getLong data i = sint (u64_from_be_bytes (slice data i (i + 8)))"

definition java_welcome :: "bytes \<Rightarrow> java_error + (ClientSettings \<times> bytes)" where
  "java_welcome input =
     rbind (readFrame 44 input) (\<lambda>(welcome, rest).
     if jf_kind welcome \<noteq> WELCOME \<or> jf_requestId welcome \<noteq> 0 \<or> jf_methodId welcome \<noteq> 0 \<or> jf_flags welcome \<noteq> 0
        \<or> length (jf_body welcome) \<noteq> 44
     then Inl (IOError ''server did not complete the MoonLightBridge handshake'')
     else
       let data = jf_body welcome;
           maxBodyLength = getInt data 0; maxDecoded = getInt data 4; maxMetadataLength = getInt data 8;
           maxInFlight = getInt data 12; maxConcurrentStreams = getInt data 16; initialStreamCredit = getInt data 20;
           compressionCodecs = getInt data 24; negotiatedFeatures = getLong data 28; diagnosticFeatures = getLong data 36 in
       if maxBodyLength \<le> 0 \<or> maxBodyLength > 8 * 1024 * 1024 \<or> maxDecoded \<le> 0 \<or> maxDecoded > 16 * 1024 * 1024
          \<or> maxMetadataLength \<le> 0 \<or> maxMetadataLength > 16 * 1024 \<or> maxInFlight \<le> 0 \<or> maxInFlight > 256
          \<or> maxConcurrentStreams \<le> 0 \<or> maxConcurrentStreams > 64 \<or> initialStreamCredit \<le> 0 \<or> initialStreamCredit > 32
          \<or> compressionCodecs AND 1 = 0 \<or> compressionCodecs AND NOT 3 \<noteq> 0
          \<or> negotiatedFeatures AND NOT java_features \<noteq> 0 \<or> diagnosticFeatures \<noteq> 0
       then Inl (IOError ''server returned invalid MoonLightBridge settings'')
       else
         rbind (options_new (minPayloadBytes options_defaults) (minSavingsBytes options_defaults) maxDecoded
                  (maxExpansionRatio options_defaults) (compressionLevel options_defaults)) (\<lambda>options.
         Inr (\<lparr>cs_maxBodyLength = maxBodyLength, cs_maxDecodedBodyLength = maxDecoded,
                cs_maxMetadataLength = maxMetadataLength, cs_maxInFlight = maxInFlight, cs_codecs = compressionCodecs,
                cs_features = negotiatedFeatures, cs_options = options\<rparr>, rest)))"

section \<open>Requests\<close>

datatype PolicyCompression = PolicyDefault | PolicyDisabled | PolicyPrefer | PolicyRequired

text \<open>\<open>enqueueRequestFrame\<close> up to the filled buffer; \<open>permits\<close> is the semaphore \<open>outgoingRequestBytes\<close>.\<close>

definition enqueueRequestFrame ::
    "zstd \<Rightarrow> ClientSettings \<Rightarrow> nat \<Rightarrow> int \<Rightarrow> int \<Rightarrow> int \<Rightarrow> TraceContext option \<Rightarrow> bytes \<Rightarrow> PolicyCompression \<Rightarrow> Metadata
      \<Rightarrow> java_error + (bytes \<times> nat)" where
  "enqueueRequestFrame z cs permits methodId requestId timeoutMillis trace data compression userMetadata =
    (let zstdNegotiated = (cs_codecs cs AND 2 \<noteq> 0) in
     if compression = PolicyRequired \<and> \<not> zstdNegotiated
     then Inl (IOError ''generated RPC policy requires zstd compression'')
     else
       rbind (if zstdNegotiated \<and> compression \<noteq> PolicyDisabled
              then rbind (java_encode z data Zstd (cs_options cs)) (\<lambda>e. Inr (Some e)) else Inr None) (\<lambda>compressed.
       let encodedBody = (case compressed of None \<Rightarrow> data | Some e \<Rightarrow> en_bytes e);
           wireCodec = (case compressed of None \<Rightarrow> CodecNone | Some e \<Rightarrow> en_codec e);
           originalLength = (case compressed of None \<Rightarrow> int (length data) | Some e \<Rightarrow> en_originalLength e) in
       rbind (requestPrefixLength userMetadata trace wireCodec) (\<lambda>metadataPrefixLength.
       if metadataPrefixLength - 4 > cs_maxMetadataLength cs then Inl (IOError ''request metadata exceeds negotiated limit'')
       else
         rbind (addExact (int (length encodedBody)) metadataPrefixLength) (\<lambda>bodyLength.
         if bodyLength > cs_maxBodyLength cs then Inl (IOError ''request body exceeds negotiated limit'')
         else if nat (24 + bodyLength) > permits then Inl (IOError ''outgoing queue is full'')
         else
           rbind (writeRequestPrefix userMetadata metadataPrefixLength timeoutMillis trace wireCodec originalLength) (\<lambda>prefix.
           rbind (into_buffer (24 + bodyLength)
                    (java_header REQUEST java_flag_has_metadata bodyLength methodId requestId @ prefix @ encodedBody)) (\<lambda>encoded.
           Inr (encoded, permits - nat (24 + bodyLength))))))))"

section \<open>Responses\<close>

definition codec_fromWire :: "int \<Rightarrow> java_error + CompressionCodec" where
  "codec_fromWire v =
    (case find (\<lambda>codec. codec_wireValue codec = v) [CodecNone, Zstd] of
       Some codec \<Rightarrow> Inr codec | None \<Rightarrow> Inl (IOError ''unknown compression codec''))"

definition decodeApplicationFrame ::
    "zstd \<Rightarrow> ClientSettings \<Rightarrow> DecodedByteBudget \<Rightarrow> JFrame \<Rightarrow> (java_error + JFrame) \<times> DecodedByteBudget" where
  "decodeApplicationFrame z cs budget frame =
    (if jf_flags frame AND java_flag_has_metadata = 0 then (Inr frame, budget)
     else
       case rbind (limits_new (cs_maxMetadataLength cs) 64 (8 * 1024)) (java_decode (jf_body frame)) of
         Inl err \<Rightarrow> (Inl err, budget)
       | Inr (entries, rest) \<Rightarrow>
           (case (bt_get entries (Reserved CompressionCodecKey), bt_get entries (Reserved OriginalLength)) of
              (None, None) \<Rightarrow> (Inr (frame\<lparr>jf_flags := 0, jf_body := rest\<rparr>), budget)
            | (Some [code], Some lengthBytes) \<Rightarrow>
                if length lengthBytes \<noteq> 4 then (Inl (IOError ''incomplete compression metadata''), budget)
                else
                  (case codec_fromWire (uint code) of
                     Inl err \<Rightarrow> (Inl err, budget)
                   | Inr codec \<Rightarrow>
                       if codec \<noteq> Zstd \<or> cs_codecs cs AND 2 = 0
                       then (Inl (IOError ''compression codec was not negotiated''), budget)
                       else
                         let originalLength = getInt lengthBytes 0 in
                         if originalLength < 0 then (Inl (IOError ''negative original payload length''), budget)
                         else
                           (case java_decompress z \<lparr>en_codec = codec, en_originalLength = originalLength, en_bytes = rest\<rparr>
                                   (cs_options cs) budget of
                              (Inl err, b) \<Rightarrow> (Inl err, b)
                            | (Inr data, b) \<Rightarrow> (Inr (frame\<lparr>jf_flags := 0, jf_body := data\<rparr>), b)))
            | _ \<Rightarrow> (Inl (IOError ''incomplete compression metadata''), budget)))"

text \<open>\<open>ErrorCode.fromWire\<close> as the code's wire value, with \<open>UNKNOWN\<close> as minus one.\<close>

definition java_error_code :: "int \<Rightarrow> int" where
  "java_error_code v = (if 1 \<le> v \<and> v \<le> 13 then v else - 1)"

definition decodeRemoteError :: "JFrame \<Rightarrow> java_error + (int \<times> bytes)" where
  "decodeRemoteError frame =
    (if length (jf_body frame) < 2 then Inl (IOError ''truncated MoonLightBridge error body'')
     else Inr (java_error_code (uint (u16_from_be_bytes (slice (jf_body frame) 0 2))), drop 2 (jf_body frame)))"

record PendingRequest =
  pr_expectedKind :: int
  pr_methodId :: int
  pr_errorAllowed :: bool

definition validateResponse :: "JFrame \<Rightarrow> PendingRequest \<Rightarrow> java_error + bool" where
  "validateResponse frame request =
    (let expectedSuccess = (jf_kind frame = pr_expectedKind request);
         expectedError = (jf_kind frame = ERROR_KIND \<and> pr_errorAllowed request) in
     if (\<not> expectedSuccess \<and> \<not> expectedError) \<or> jf_methodId frame \<noteq> pr_methodId request
     then Inl (IOError ''response does not match pending request'')
     else Inr expectedSuccess)"

text \<open>What the reader does: complete a pending call with its result or a remote error, hand an item, the end or an
  error to a stream, deliver an event, or start draining.  A stream that ends or fails removes itself from the table.\<close>

datatype client_event =
    CallCompleted int bytes
  | CallFailed int int bytes
  | StreamItemEvent int bytes
  | StreamCompleted int
  | StreamFailed int int bytes
  | EventDelivered int bytes
  | DrainStarted

record ClientState =
  cl_pending :: "int \<rightharpoonup> PendingRequest"
  cl_streams :: "int \<rightharpoonup> int"
  cl_budget :: DecodedByteBudget

definition stream_turn :: "int \<Rightarrow> JFrame \<Rightarrow> ClientState \<Rightarrow> java_error + (client_event list \<times> ClientState)" where
  "stream_turn methodId frame cl =
    (let requestId = jf_requestId frame; ended = cl\<lparr>cl_streams := (cl_streams cl)(requestId := None)\<rparr> in
     if jf_methodId frame \<noteq> methodId \<or> jf_kind frame \<notin> {STREAM_ITEM, STREAM_END, ERROR_KIND}
     then Inl (IOError ''response does not match pending stream'')
     else if jf_kind frame = STREAM_ITEM then Inr ([StreamItemEvent requestId (jf_body frame)], cl)
     else if jf_kind frame = STREAM_END then
       if jf_body frame \<noteq> [] then Inl (IOError ''STREAM_END body must be empty'')
       else Inr ([StreamCompleted requestId], ended)
     else rbind (decodeRemoteError frame) (\<lambda>(code, message). Inr ([StreamFailed requestId code message], ended)))"

definition pending_turn :: "PendingRequest \<Rightarrow> JFrame \<Rightarrow> ClientState \<Rightarrow> java_error + (client_event list \<times> ClientState)" where
  "pending_turn request frame cl =
    (let requestId = jf_requestId frame; answered = cl\<lparr>cl_pending := (cl_pending cl)(requestId := None)\<rparr> in
     rbind (validateResponse frame request) (\<lambda>expectedSuccess.
     if expectedSuccess then Inr ([CallCompleted requestId (jf_body frame)], answered)
     else rbind (decodeRemoteError frame) (\<lambda>(code, message). Inr ([CallFailed requestId code message], answered))))"

text \<open>One turn of \<open>readResponses\<close>; \<open>listening\<close> says for which events a listener is registered.\<close>

definition reader_turn ::
    "zstd \<Rightarrow> ClientSettings \<Rightarrow> (int \<Rightarrow> nat) \<Rightarrow> JFrame \<Rightarrow> ClientState \<Rightarrow> java_error + (client_event list \<times> ClientState)" where
  "reader_turn z cs listening received cl =
    (if jf_kind received = GOAWAY then
       if jf_methodId received \<noteq> 0 \<or> jf_requestId received \<noteq> 0 \<or> jf_body received \<noteq> []
       then Inl (IOError ''invalid MoonLightBridge GOAWAY frame'')
       else Inr ([DrainStarted], cl)
     else
       case (if jf_kind received \<in> {RESPONSE, EVENT, STREAM_ITEM}
             then decodeApplicationFrame z cs (cl_budget cl) received else (Inr received, cl_budget cl)) of
         (Inl err, _) \<Rightarrow> Inl err
       | (Inr frame, b) \<Rightarrow>
           let cl' = cl\<lparr>cl_budget := b\<rparr> in
           if jf_kind frame = EVENT then
             if jf_requestId frame \<noteq> 0 \<or> jf_methodId frame = 0 then Inl (IOError ''invalid MoonLightBridge EVENT frame'')
             else Inr (replicate (listening (jf_methodId frame)) (EventDelivered (jf_methodId frame) (jf_body frame)), cl')
           else
             (case cl_streams cl' (jf_requestId frame) of
                Some methodId \<Rightarrow> stream_turn methodId frame cl'
              | None \<Rightarrow>
                  (case cl_pending cl' (jf_requestId frame) of
                     None \<Rightarrow> Inr ([], cl')
                   | Some request \<Rightarrow> pending_turn request frame cl')))"

section \<open>Lemmas on frames\<close>

lemma java_header_bytes:
  assumes "word_of_int k = frame_kind_as_u8 kd"
  shows "java_header k (int f) (int n) mid rid = header_bytes \<lparr>hdr_kind = kd, hdr_flags = word_of_nat f,
    hdr_body_len = word_of_nat n, hdr_method_id = word_of_int mid, hdr_request_id = word_of_int rid\<rparr>"
  using assms by (simp add: java_header_def header_bytes_def putInt_def put_byte_def putShort_def putLong_def
      java_magic_def MAGIC_def java_version_def VERSION_def)

text \<open>The client's view of a frame.\<close>

definition java_view :: "Frame \<Rightarrow> JFrame" where
  "java_view f = \<lparr>jf_kind = uint (frame_kind_as_u8 (kind f)), jf_flags = uint (flags f),
     jf_methodId = sint (method_id f), jf_requestId = sint (request_id f), jf_body = body f\<rparr>"

lemma java_flags_known: "uint (f :: u16) AND NOT java_flag_has_metadata = 0 \<longleftrightarrow> f AND NOT KNOWN_FLAGS = 0"
proof -
  have "(uint f AND NOT 1 = 0) \<longleftrightarrow> (\<forall>n. n \<noteq> 0 \<longrightarrow> \<not> bit (uint f) n)"
    by (auto simp: bit_eq_iff bit_and_iff bit_not_iff bit_1_iff)
  also have "\<dots> \<longleftrightarrow> (\<forall>n. n \<noteq> 0 \<longrightarrow> \<not> bit f n)"
    using bit_imp_le_length [of f] by (auto simp: bit_uint_iff)
  also have "\<dots> \<longleftrightarrow> f AND NOT 1 = 0"
    using bit_imp_le_length [of f]
    by (subst bit_eq_iff) (auto simp: bit_and_iff bit_not_iff bit_1_iff)
  finally show ?thesis by (simp add: java_flag_has_metadata_def KNOWN_FLAGS_def FLAG_HAS_METADATA_def)
qed

lemma sint_small_u32: "int n \<le> int_max \<Longrightarrow> sint (word_of_nat n :: u32) = int n"
  by (simp add: int_max_def sint_uint uint_nat unat_of_nat signed_take_bit_eq_if_positive take_bit_nat_eq_self
      take_bit_int_eq_self bit_iff_odd)

lemma readFrame_encoded:
  assumes "frame_encodable f" "int (length (body f)) \<le> limit" "int (length (body f)) \<le> int_max"
  shows "readFrame limit (header_bytes (frame_header f) @ body f @ rest) = Inr (java_view f, rest)"
proof -
  have "uint (flags f) AND NOT java_flag_has_metadata = 0"
    using assms(1) by (simp add: java_flags_known frame_encodable_def)
  then show ?thesis
    using assms(2) sint_small_u32 [OF assms(3)]
    by (simp add: readFrame_def header_bytes_def frame_header_def java_view_def slice_def nth_append Let_def
        java_magic_def MAGIC_def java_version_def VERSION_def drop_Cons')
qed

section \<open>Handshake\<close>

text \<open>The settings the client announces, and the client's reading of negotiated settings.\<close>

definition java_settings :: PeerSettingsV2 where
  "java_settings = \<lparr>max_body_len = 8 * 1024 * 1024, max_decoded_body_len = 16 * 1024 * 1024, max_metadata_len = 16 * 1024,
     max_in_flight = 256, max_concurrent_streams = 64, initial_stream_credit = 32, compression_codecs = 3, features = 127,
     diagnostic_features = 0\<rparr>"

definition client_settings :: "PeerSettingsV2 \<Rightarrow> ClientSettings" where
  "client_settings n = \<lparr>cs_maxBodyLength = uint (max_body_len n), cs_maxDecodedBodyLength = uint (max_decoded_body_len n),
     cs_maxMetadataLength = uint (max_metadata_len n), cs_maxInFlight = uint (max_in_flight n),
     cs_codecs = uint (compression_codecs n), cs_features = uint (features n),
     cs_options = options_defaults\<lparr>maxDecodedBodyLength := uint (max_decoded_body_len n)\<rparr>\<rparr>"

lemma java_hello_settings: "java_hello = settings_encode java_settings"
  by (simp add: java_hello_def settings_encode_def java_settings_def putInt_def putLong_def java_features_def)

lemma java_settings_valid: "settings_valid java_settings"
  by (simp add: settings_valid_def java_settings_def)

lemma sint_uint_u32: "uint (w :: u32) \<le> int_max \<Longrightarrow> sint w = uint w"
  by (simp add: int_max_def sint_uint signed_take_bit_eq_if_positive take_bit_int_eq_self bit_iff_odd)

lemma sint_uint_u64: "uint (w :: u64) \<le> int_max \<Longrightarrow> sint w = uint w"
  by (simp add: int_max_def sint_uint signed_take_bit_eq_if_positive take_bit_int_eq_self bit_iff_odd)

lemma getInt_settings:
  "getInt (settings_encode s) 0 = sint (max_body_len s)" "getInt (settings_encode s) 4 = sint (max_decoded_body_len s)"
  "getInt (settings_encode s) 8 = sint (max_metadata_len s)" "getInt (settings_encode s) 12 = sint (max_in_flight s)"
  "getInt (settings_encode s) 16 = sint (max_concurrent_streams s)" "getInt (settings_encode s) 20 = sint (initial_stream_credit s)"
  "getInt (settings_encode s) 24 = sint (compression_codecs s)" "getLong (settings_encode s) 28 = sint (features s)"
  "getLong (settings_encode s) 36 = sint (diagnostic_features s)"
  by (simp_all add: getInt_def getLong_def settings_encode_def slice_def)

lemma and_int_le: "uint ((a :: 'a::len word) AND b) \<le> uint a"
  by (simp add: uint_and)

lemma and_within_int: "uint ((a :: 'a::len word) AND b) AND NOT (uint a) = 0"
  unfolding uint_and by (rule bit_eqI) (simp add: bit_and_iff bit_not_iff)

lemma uint_and_1: "uint (w :: u32) AND 1 = 0 \<longleftrightarrow> w AND 1 = 0"
proof -
  have "uint w AND 1 = uint (w AND 1)" by (simp add: uint_and)
  then show ?thesis by (metis uint_0_iff)
qed

lemma min_positive: "a \<noteq> 0 \<Longrightarrow> b \<noteq> 0 \<Longrightarrow> uint a \<le> c \<Longrightarrow> 0 < uint (min a b) \<and> uint (min a b) \<le> (c :: int)" for a b :: u32
  by (auto simp: min_def word_le_def word_neq_0_conv word_less_def)

lemma client_accepts:
  assumes "settings_valid server" and n: "n = negotiate java_settings server"
  shows "java_welcome (header_bytes (frame_header (frame_new Welcome 0 0 (settings_encode n))) @ settings_encode n @ rest) =
    Inr (client_settings n, rest)"
proof -
  let ?w = "frame_new Welcome 0 0 (settings_encode n)"
  have r: "readFrame 44 (header_bytes (frame_header ?w) @ settings_encode n @ rest) = Inr (java_view ?w, rest)"
    using readFrame_encoded [of ?w 44 rest]
    by (simp add: frame_encodable_def SETTINGS_BODY_LEN_def u32_max_def int_max_def)
  have nz: "max_body_len server \<noteq> 0" "max_decoded_body_len server \<noteq> 0" "max_metadata_len server \<noteq> 0"
    "max_in_flight server \<noteq> 0" "max_concurrent_streams server \<noteq> 0" "initial_stream_credit server \<noteq> 0"
    using assms(1) by (simp_all add: settings_valid_def)
  have b: "0 < uint (max_body_len n) \<and> uint (max_body_len n) \<le> 8388608"
    "0 < uint (max_decoded_body_len n) \<and> uint (max_decoded_body_len n) \<le> 16777216"
    "0 < uint (max_metadata_len n) \<and> uint (max_metadata_len n) \<le> 16384"
    "0 < uint (max_in_flight n) \<and> uint (max_in_flight n) \<le> 256"
    "0 < uint (max_concurrent_streams n) \<and> uint (max_concurrent_streams n) \<le> 64"
    "0 < uint (initial_stream_credit n) \<and> uint (initial_stream_credit n) \<le> 32"
    by (simp_all only: n negotiate_def PeerSettingsV2.simps, (rule min_positive; simp add: java_settings_def nz)+)
  have c: "uint (compression_codecs n) \<le> 3" "uint (compression_codecs n) AND NOT 3 = 0"
    and f: "uint (features n) \<le> 127" "uint (features n) AND NOT 127 = 0"
    using and_int_le [of "3 :: u32" "compression_codecs server"] and_int_le [of "127 :: u64" "features server"]
      and_within_int [of "3 :: u32" "compression_codecs server"] and_within_int [of "127 :: u64" "features server"]
    by (simp_all add: n negotiate_def java_settings_def)
  have d: "diagnostic_features n = 0" by (simp add: n negotiate_def java_settings_def)
  have o: "uint (compression_codecs n) AND 1 \<noteq> 0"
    using negotiate_valid [OF java_settings_valid assms(1)] n by (simp add: uint_and_1 settings_valid_def)
  have s: "sint (max_body_len n) = uint (max_body_len n)" "sint (max_decoded_body_len n) = uint (max_decoded_body_len n)"
    "sint (max_metadata_len n) = uint (max_metadata_len n)" "sint (max_in_flight n) = uint (max_in_flight n)"
    "sint (max_concurrent_streams n) = uint (max_concurrent_streams n)"
    "sint (initial_stream_credit n) = uint (initial_stream_credit n)"
    "sint (compression_codecs n) = uint (compression_codecs n)" "sint (features n) = uint (features n)"
    using b c(1) f(1) by (simp_all add: sint_uint_u32 sint_uint_u64 int_max_def)
  show ?thesis
    using r b c f d o
    by (simp add: java_welcome_def java_view_def getInt_settings s SETTINGS_BODY_LEN_def WELCOME_def java_features_def
        options_new_def options_defaults_def client_settings_def Let_def del: rbind_eq_Inr)
qed

lemma java_handshake:
  assumes "settings_valid server" "n = negotiate java_settings server"
  shows "\<exists>out. handshake server False (writeFrameDirect HELLO 0 0 0 java_hello @ rest) = Inr (n, out, rest)
    \<and> java_welcome (out @ later) = Inr (client_settings n, later)"
proof -
  let ?h = "frame_new Hello 0 0 (settings_encode java_settings)"
  let ?w = "frame_new Welcome 0 0 (settings_encode n)"
  have hello: "writeFrameDirect HELLO 0 0 0 java_hello = header_bytes (frame_header ?h) @ settings_encode java_settings"
    using java_header_bytes [of HELLO Hello 0 44 0 0]
    by (simp add: writeFrameDirect_def java_hello_settings SETTINGS_BODY_LEN_def HELLO_def frame_header_def)
  have r: "read_frame (writeFrameDirect HELLO 0 0 0 java_hello @ rest) 44 = Inr (?h, rest)"
    unfolding hello by (rule plain_frame_roundtrip(2)) (simp add: SETTINGS_BODY_LEN_def)
  have w: "write_frame [] ?w = Inr (header_bytes (frame_header ?w) @ settings_encode n)"
    by (rule plain_frame_roundtrip(1) [of _ 44]) (simp add: SETTINGS_BODY_LEN_def)
  have "handshake server False (writeFrameDirect HELLO 0 0 0 java_hello @ rest) =
      Inr (n, header_bytes (frame_header ?w) @ settings_encode n, rest)"
    using r w java_settings_valid assms(2)
    by (simp add: handshake_def SETTINGS_BODY_LEN_def settings_decode_encode Let_def del: rbind_eq_Inr)
  then show ?thesis using client_accepts [OF assms, of later] by simp
qed

section \<open>Requests\<close>

lemma java_encode_Inr:
  assumes "java_encode z data Zstd options = Inr e"
  shows "int (length data) \<le> maxDecodedBodyLength options" and "en_originalLength e = int (length data)"
    and "(en_codec e = CodecNone \<and> en_bytes e = data)
      \<or> (en_codec e = Zstd \<and> zstd_compress z data (compressionLevel options) = Some (en_bytes e)
         \<and> int (length data) \<le> int (length (en_bytes e)) * maxExpansionRatio options)"
  using assms by (auto simp: java_encode_def Let_def split: if_splits option.splits)

text \<open>Reserved keys come before user keys, so the merge of a caller's entries puts the runtime's first.\<close>

lemma merge_user_entries:
  assumes "\<forall>k \<in> fst ` set es. \<exists>name. k = User name" "\<forall>k \<in> fst ` set rs. \<exists>r. k = Reserved r"
  shows "merge_entries es rs = rs @ es"
  using assms by (induction es rs rule: merge_entries.induct) auto

lemma reserved_of_user_entries:
  assumes "\<forall>k \<in> fst ` set es. \<exists>name. k = User name"
  shows "List.map_filter (\<lambda>(k, v). case k of Reserved r \<Rightarrow> Some (r, v) | User _ \<Rightarrow> None) es = []"
  using assms by (induction es) (auto simp: map_filter_simps)

lemma collect_request:
  assumes "metadata_validate input limits = Inr (block, rest)" "into_metadata block = Inr (request_entries t trace codec n @ es)"
    and "\<forall>k \<in> fst ` set es. \<exists>name. k = User name"
  shows "collect_reserved block = \<lparr>deadline_value = Some (putInt t), trace_value = map_option trace_writeTo trace,
    codec_value = (if codec = Zstd then Some [1] else None), original_value = (if codec = Zstd then Some (putInt n) else None)\<rparr>"
proof -
  have "List.map_filter f (xs @ ys) = List.map_filter f xs @ List.map_filter f ys" for f :: "MetadataKey \<times> bytes \<Rightarrow> _" and xs ys
    by (simp add: map_filter_def)
  then show ?thesis
    using reserved_entries_validated [OF assms(1,2)] reserved_of_user_entries [OF assms(3)]
    by (cases trace) (auto simp: collect_reserved_def note_reserved_def request_entries_def map_filter_simps)
qed

lemma trace_writeTo_parsed:
  assumes "trace_context_wf t"
  shows "length (trace_writeTo t) = 25" "parse_trace (Some (trace_writeTo t)) = Inr (Some t)"
proof -
  show l: "length (trace_writeTo t) = 25" using assms by (simp add: length_trace_writeTo)
  have "trace_writeTo t = trace_context_encode_into t []"
    by (simp add: trace_writeTo_def trace_context_encode_into_def put_byte_def)
  then show "parse_trace (Some (trace_writeTo t)) = Inr (Some t)"
    using l trace_context_decode_encode [OF assms, of "[]"] by (simp add: parse_trace_def TRACE_CONTEXT_LEN_def del: rbind_eq_Inr)
qed

lemma deadline_written:
  assumes "1 \<le> t" "t \<le> int_max"
  shows "parse_deadline (Some (putInt t)) = Inr (Some (nat t))"
proof -
  have u: "uint (word_of_int t :: u32) = t" using assms by (simp add: int_max_def uint_word_of_int)
  then have "unat (word_of_int t :: u32) = nat t" by (metis nat_uint_eq)
  moreover have "(word_of_int t :: u32) \<noteq> 0" using u assms(1) by auto
  ultimately show ?thesis by (simp add: parse_deadline_def putInt_def Let_def)
qed

text \<open>The server's reading of the metadata of a request.\<close>

lemma request_metadata_parsed:
  fixes t n :: int
  assumes "body f = (u32_to_be_bytes (word_of_nat (length (block_bytes m))) @ block_bytes m) @ data"
    and "m = request_entries t trace codec n @ es" and "metadata_wf m" and "length (block_bytes m) \<le> unat limit"
    and "length m \<le> 64" and "\<forall>(k, v) \<in> set es. length v \<le> 8192" and "\<forall>k \<in> fst ` set es. \<exists>name. k = User name"
    and "\<And>tr. trace = Some tr \<Longrightarrow> trace_context_wf tr" and "flags f AND FLAG_HAS_METADATA \<noteq> 0" and "1 \<le> t" "t \<le> int_max"
  shows "request_metadata f limit retain = Inr (Some (nat t), trace,
    if codec = Zstd then Some (Zstd, word_of_int n) else None, if retain then Some m else None,
    length (body f) - length data)"
proof -
  let ?l = "request_limits limit"
  have vals: "\<forall>(k, v) \<in> set m. length v \<le> unat (max_value_bytes ?l)"
    using assms(2,6) trace_writeTo_parsed(1) [OF assms(8)]
    by (auto simp: request_limits_def metadata_limits_default_def request_entries_def split: option.splits if_splits)
  have v: "metadata_validate (body f) ?l = Inr (block_bytes m, data)" "into_metadata (block_bytes m) = Inr m"
    using validate_encoded(1) [OF assms(3) _ _ vals, of data] validate_encoded(2) [OF assms(3) _ _ vals] assms(1,4,5)
    by (simp_all add: request_limits_def metadata_limits_default_def)
  have c: "collect_reserved (block_bytes m) = \<lparr>deadline_value = Some (putInt t), trace_value = map_option trace_writeTo trace,
      codec_value = (if codec = Zstd then Some [1] else None), original_value = (if codec = Zstd then Some (putInt n) else None)\<rparr>"
    by (rule collect_request [OF v(1) _ assms(7)]) (use v(2) assms(2) in simp)
  have d: "parse_deadline (Some (putInt t)) = Inr (Some (nat t))" by (rule deadline_written [OF assms(10,11)])
  have tr: "parse_trace (map_option trace_writeTo trace) = Inr trace"
    using trace_writeTo_parsed(2) [OF assms(8)] by (cases trace) (simp_all add: parse_trace_def)
  have k: "parse_compression (if codec = Zstd then Some [1] else None) (if codec = Zstd then Some (putInt n) else None) =
      Inr (if codec = Zstd then Some (Zstd, word_of_int n) else None)"
    by (simp add: parse_compression_def codec_try_from_def putInt_def del: rbind_eq_Inr)
  show ?thesis
    using assms(9) v d tr k by (simp add: request_metadata_def c Let_def del: rbind_eq_Inr)
qed

text \<open>What a request frame the client has filled contains.\<close>

definition compression_choice ::
    "zstd \<Rightarrow> ClientSettings \<Rightarrow> PolicyCompression \<Rightarrow> bytes \<Rightarrow> java_error + (CompressionCodec \<times> int \<times> bytes)" where
  "compression_choice z cs compression data =
    (if cs_codecs cs AND 2 \<noteq> 0 \<and> compression \<noteq> PolicyDisabled
     then rbind (java_encode z data Zstd (cs_options cs)) (\<lambda>e. Inr (en_codec e, en_originalLength e, en_bytes e))
     else Inr (CodecNone, int (length data), data))"

lemma enqueue_request_Inr:
  assumes "\<And>t. trace = Some t \<Longrightarrow> trace_context_wf t"
    and "\<forall>k \<in> fst ` set entries. \<exists>name. k = User name"
    and "enqueueRequestFrame z cs permits methodId requestId timeout trace data compression entries = Inr (bs, permits')"
  obtains codec n encoded m where "compression_choice z cs compression data = Inr (codec, n, encoded)"
    and "m = request_entries timeout trace codec n @ entries"
    and "bs = java_header REQUEST java_flag_has_metadata (4 + int (length (block_bytes m)) + int (length encoded)) methodId requestId
           @ (u32_to_be_bytes (word_of_nat (length (block_bytes m))) @ block_bytes m) @ encoded"
    and "int (length (block_bytes m)) \<le> cs_maxMetadataLength cs"
    and "4 + int (length (block_bytes m)) + int (length encoded) \<le> cs_maxBodyLength cs"
    and "4 + int (length (block_bytes m)) + int (length encoded) \<le> int_max"
    and "permits = permits' + length bs"
proof -
  obtain codec n encoded v prefix where c: "compression_choice z cs compression data = Inr (codec, n, encoded)"
    and v: "requestPrefixLength entries trace codec = Inr v" "v - 4 \<le> cs_maxMetadataLength cs"
      "addExact (int (length encoded)) v = Inr (int (length encoded) + v)" "int (length encoded) + v \<le> cs_maxBodyLength cs"
      "int (length encoded) + v \<le> int_max"
    and w: "nat (24 + (int (length encoded) + v)) \<le> permits" "permits' = permits - nat (24 + (int (length encoded) + v))"
      "writeRequestPrefix entries v timeout trace codec n = Inr prefix"
      "into_buffer (24 + (int (length encoded) + v))
         (java_header REQUEST java_flag_has_metadata (int (length encoded) + v) methodId requestId @ prefix @ encoded) = Inr bs"
    using assms(3)
    by (auto simp: enqueueRequestFrame_def compression_choice_def Let_def addExact_Inr split: if_splits)
  let ?r = "request_entries timeout trace codec n" let ?m = "?r @ entries"
  have r: "\<forall>k \<in> fst ` set ?r. \<exists>r. k = Reserved r" by (auto simp: request_entries_def split: option.splits if_splits)
  then have disj: "fst ` set entries \<inter> fst ` set ?r = {}" using assms(2) by fastforce
  have m: "merge_entries entries ?r = ?m" by (rule merge_user_entries [OF assms(2) r])
  have len: "v = 4 + int (length (block_bytes ?m))" using request_prefix_Inr(1) [OF assms(1) disj v(1)] m by simp
  have p: "prefix = u32_to_be_bytes (word_of_nat (length (block_bytes ?m))) @ block_bytes ?m"
    using w(3) write_request_prefix [OF assms(1), where entries = entries and n = v and timeoutMillis = timeout and codec = codec and
        originalLength = n] m len by (simp add: putInt_def)
  have "bs = java_header REQUEST java_flag_has_metadata (int (length encoded) + v) methodId requestId @ prefix @ encoded"
    using w(4) p len by (auto simp: into_buffer_def java_header_def putInt_def put_byte_def putShort_def putLong_def split: if_splits)
  moreover from this have "length bs = nat (24 + (int (length encoded) + v))"
    using p len by (simp add: java_header_def putInt_def put_byte_def putShort_def putLong_def)
  ultimately show ?thesis using that [OF c refl] v w len p by (simp add: algebra_simps)
qed

lemma uint_and_2: "uint (w :: u32) AND 2 = 0 \<longleftrightarrow> w AND 2 = 0"
proof -
  have "uint w AND 2 = uint (w AND 2)" by (simp add: uint_and)
  then show ?thesis by (metis uint_0_iff)
qed

lemma uint_le_unat: "int k \<le> uint (w :: u32) \<longleftrightarrow> k \<le> unat w"
  unfolding uint_nat by (rule of_nat_le_iff)

text \<open>The payload the server recovers from what the client chose to send.\<close>

lemma chosen_payload_recovered:
  assumes "zstd_laws z" "budget_wf b" "used b + length data \<le> capacity b"
    and "compression_choice z (client_settings n) compression data = Inr (codec, k, encoded)"
    and "64 \<le> unat (max_expansion_ratio p)" "cp_max_decoded_body_len p = max_decoded_body_len n"
  shows "codec = CodecNone \<Longrightarrow> encoded = data"
    and "codec = Zstd \<Longrightarrow> k = int (length data) \<and> length data \<le> u32_max \<and> compression_codecs n AND COMPRESSION_CODEC_ZSTD \<noteq> 0
      \<and> decode_with_reservation z p Zstd encoded (word_of_int k) b =
          (Inr (data, Some (length data)), b\<lparr>used := used b + length data\<rparr>)"
proof -
  show "codec = CodecNone \<Longrightarrow> encoded = data"
    using assms(4) java_encode_Inr(3) by (fastforce simp: compression_choice_def split: if_splits)
  assume z: "codec = Zstd"
  then obtain e where e: "java_encode z data Zstd (cs_options (client_settings n)) = Inr e" "en_codec e = Zstd"
      "k = en_originalLength e" "encoded = en_bytes e" "uint (compression_codecs n) AND 2 \<noteq> 0"
    using assms(4) by (auto simp: compression_choice_def client_settings_def split: if_splits)
  note f = java_encode_Inr [OF e(1)]
  have len: "length data \<le> unat (max_decoded_body_len n)"
    using f(1) by (simp add: client_settings_def uint_le_unat)
  then have small: "length data \<le> u32_max" using unat_u32_le_max le_trans by blast
  have k: "word_of_int k = (word_of_nat (length data) :: u32)" using e(3) f(2) by simp
  have c: "zstd_compress z data 1 = Some encoded" "length data \<le> length encoded * 64"
    using f(3) e by (auto simp: client_settings_def options_defaults_def)
  have d: "zstd_decompress z encoded (length data) = Some data" using assms(1) c(1) by (auto simp: zstd_laws_def)
  have nz: "max_decoded_body_len n \<noteq> 0"
  proof -
    have "1024 \<le> length data"
      using e(1,2) by (auto simp: java_encode_def client_settings_def options_defaults_def Let_def split: if_splits)
    then show ?thesis using len by auto
  qed
  then have "policy_validate p = Inr ()" using assms(5,6) by (auto simp: policy_validate_def)
  moreover have "length data \<le> length encoded * unat (max_expansion_ratio p)"
    using c(2) assms(5) by (meson le_trans mult_le_mono2)
  ultimately have "decode_with_reservation z p Zstd encoded (word_of_nat (length data)) b =
      (Inr (data, Some (length data)), b\<lparr>used := used b + length data\<rparr>)"
    using decode_zstd [of p "word_of_nat (length data)" encoded b z data] assms(2,3,6) len small d by simp
  then show "k = int (length data) \<and> length data \<le> u32_max \<and> compression_codecs n AND COMPRESSION_CODEC_ZSTD \<noteq> 0
      \<and> decode_with_reservation z p Zstd encoded (word_of_int k) b =
          (Inr (data, Some (length data)), b\<lparr>used := used b + length data\<rparr>)"
    using e(3,5) f(2) k small by (simp add: uint_and_2 COMPRESSION_CODEC_ZSTD_def)
qed

text \<open>A request of the client as the server reads and parses it.\<close>

lemma java_request_read:
  fixes t :: int
  assumes z: "zstd_laws z" and b: "budget_wf b" "used b + length data \<le> capacity b"
    and e: "metadata_wf entries" "\<forall>k \<in> fst ` set entries. \<exists>name. k = User name" "length entries \<le> 60"
      "\<forall>(k, v) \<in> set entries. length v \<le> 8192"
    and t: "\<And>tr. trace = Some tr \<Longrightarrow> trace_context_wf tr" "1 \<le> t" "t \<le> int_max"
    and p: "64 \<le> unat (max_expansion_ratio policy)"
    and q: "enqueueRequestFrame z (client_settings n) permits mid rid t trace data compression entries = Inr (bs, permits')"
    and rc: "rc = \<lparr>rc_codecs = compression_codecs n, rc_policy = connection_compression_policy n policy\<rparr>"
  obtains f q b' m where "\<And>rest. read_frame (bs @ rest) (max_body_len n) = Inr (f, rest)"
    and "kind f = Request" "method_id f = word_of_int mid" "request_id f = word_of_int rid"
    and "request_payload z f (max_metadata_len n) rc retain timing b = (Inr q, f\<lparr>body := []\<rparr>, b')"
    and "payload q = data" "deadline q = Some (nat t)" "trace_context q = trace"
    and "metadata q = (if retain then Some m else None)" "metadata_wf m" "set entries \<subseteq> set m"
proof -
  obtain codec k encoded m where c: "compression_choice z (client_settings n) compression data = Inr (codec, k, encoded)"
    and m: "m = request_entries t trace codec k @ entries"
    and bs: "bs = java_header REQUEST java_flag_has_metadata (4 + int (length (block_bytes m)) + int (length encoded)) mid rid
           @ (u32_to_be_bytes (word_of_nat (length (block_bytes m))) @ block_bytes m) @ encoded"
    and lim: "int (length (block_bytes m)) \<le> cs_maxMetadataLength (client_settings n)"
      "4 + int (length (block_bytes m)) + int (length encoded) \<le> cs_maxBodyLength (client_settings n)"
      "4 + int (length (block_bytes m)) + int (length encoded) \<le> int_max"
    by (rule enqueue_request_Inr [OF t(1) e(2) q])
  let ?body = "(u32_to_be_bytes (word_of_nat (length (block_bytes m))) @ block_bytes m) @ encoded"
  define f where "f = frame_with_flags (frame_new Request (word_of_int mid) (word_of_int rid) ?body) FLAG_HAS_METADATA"
  have fs: "kind f = Request" "method_id f = word_of_int mid" "request_id f = word_of_int rid" "flags f = FLAG_HAS_METADATA"
    "body f = ?body" by (simp_all add: f_def)
  have "int (length ?body) = 4 + int (length (block_bytes m)) + int (length encoded)" by simp
  then have hdr: "bs = header_bytes (frame_header f) @ body f"
    using bs java_header_bytes [of REQUEST Request 1 "length ?body" mid rid] fs
    by (simp add: REQUEST_def frame_header_def java_flag_has_metadata_def FLAG_HAS_METADATA_def add.assoc)
  have "frame_encodable f" using lim(3) fs by (simp add: frame_encodable_def KNOWN_FLAGS_def int_max_def u32_max_def)
  moreover have "length (body f) \<le> unat (max_body_len n)"
    using lim(2) fs(5) uint_le_unat [of "length ?body" "max_body_len n"] by (simp add: client_settings_def)
  ultimately have rd: "read_frame (bs @ rest) (max_body_len n) = Inr (f, rest)" for rest
    using read_frame_encoded [of f "max_body_len n" rest] hdr by simp
  let ?r = "request_entries t trace codec k"
  have r: "\<forall>k \<in> fst ` set ?r. \<exists>r. k = Reserved r" by (auto simp: request_entries_def split: option.splits if_splits)
  then have disj: "fst ` set entries \<inter> fst ` set ?r = {}" using e(2) by fastforce
  have merged: "merge_entries entries ?r = m" using merge_user_entries [OF e(2) r] m by simp
  have wf: "metadata_wf m"
    using encode_request_prefix(1) [OF t(1) e(1) disj] lim(3) merged merge_entries_length [of entries ?r] by simp
  have "length ?r \<le> 4" by (simp add: request_entries_def split: option.split)
  then have "length m \<le> 64" using m e(3) by simp
  have md: "request_metadata f (max_metadata_len n) retain = Inr (Some (nat t), trace,
      if codec = Zstd then Some (Zstd, word_of_int k) else None, if retain then Some m else None,
      length (body f) - length encoded)"
    using request_metadata_parsed [OF fs(5) m wf _ \<open>length m \<le> 64\<close> e(4,2) t(1) _ t(2,3)] lim(1) fs(4)
    by (simp add: client_settings_def uint_le_unat FLAG_HAS_METADATA_def)
  have rest: "drop (length (body f) - length encoded) (body f) = encoded" by (simp add: fs(5))
  have sub: "set entries \<subseteq> set m" using m by auto
  have pol: "64 \<le> unat (max_expansion_ratio (rc_policy rc))" "cp_max_decoded_body_len (rc_policy rc) = max_decoded_body_len n"
    "rc_codecs rc = compression_codecs n"
    using p rc by (simp_all add: connection_compression_policy_def)
  note recov = chosen_payload_recovered [OF z b(1) b(2) c pol(1) pol(2)]
  show thesis
  proof (cases codec)
    case CodecNone
    have "request_payload z f (max_metadata_len n) rc retain timing b = (Inr \<lparr>deadline = Some (nat t), trace_context = trace,
        metadata = if retain then Some m else None, payload = data, decompression = None, decoded_permit = None\<rparr>, f\<lparr>body := []\<rparr>, b)"
      using md rest recov(1) CodecNone by (simp add: request_payload_split)
    from that [OF rd fs(1-3) this, of m] wf sub show thesis by simp
  next
    case Zstd
    have dz: "rc_codecs rc AND COMPRESSION_CODEC_ZSTD \<noteq> 0" "decode_with_reservation z (rc_policy rc) Zstd encoded (word_of_int k) b =
        (Inr (data, Some (length data)), b\<lparr>used := used b + length data\<rparr>)"
      using recov(2) [OF Zstd] pol(3) by auto
    have "request_payload z f (max_metadata_len n) rc retain timing b = (Inr \<lparr>deadline = Some (nat t), trace_context = trace,
        metadata = if retain then Some m else None, payload = data, decompression = Some timing,
        decoded_permit = Some (length data)\<rparr>, f\<lparr>body := []\<rparr>, b\<lparr>used := used b + length data\<rparr>)"
      using md rest dz Zstd by (simp add: request_payload_split)
    from that [OF rd fs(1-3) this, of m] wf sub show thesis by simp
  qed
qed

section \<open>Answers\<close>

lemma decode_compression_metadata:
  assumes "19 \<le> limit" "limit \<le> int_max" "int (length bs) + 23 \<le> int_max" and "m = compression_metadata len"
  shows "rbind (limits_new limit 64 8192)
      (java_decode ((u32_to_be_bytes (word_of_nat (length (block_bytes m))) @ block_bytes m) @ bs)) = Inr (m, bs)"
proof -
  let ?jl = "\<lparr>maxBytes = limit, maxEntries = 64, maxValueBytes = 8192\<rparr>"
  let ?l = "\<lparr>max_bytes = word_of_int limit, max_entries = 64, max_value_bytes = 8192\<rparr>"
  let ?x = "(u32_to_be_bytes (word_of_nat (length (block_bytes m))) @ block_bytes m) @ bs"
  have u: "uint (word_of_int limit :: u32) = limit" using assms(1,2) by (simp add: int_max_def uint_word_of_int)
  then have "unat (word_of_int limit :: u32) = nat limit" by (metis nat_uint_eq)
  then have "metadata_validate ?x ?l = Inr (block_bytes m, bs)" "into_metadata (block_bytes m) = Inr m"
    using validate_encoded [of m ?l] compression_metadata_wf [of len] assms(1,4)
    by (simp_all add: compression_block_length, simp_all add: compression_metadata_def)
  then have "metadata_decode ?x ?l = Inr (m, bs)" by (simp add: metadata_decode_def)
  moreover have "\<forall>k \<in> fst ` set m. client_key k" by (simp add: assms(4) compression_metadata_def client_key_def)
  moreover have "int (length ?x) \<le> int_max" using assms(3,4) by (simp add: compression_block_length)
  ultimately have "java_decode ?x ?jl = Inr (m, bs)" using java_decode_agrees [of ?x ?jl ?l m bs] u by simp
  then show ?thesis using assms(1) by (simp add: limits_new_def del: rbind_eq_Inr)
qed

lemma java_decompress_ok:
  assumes "int (length data) \<le> maxDecodedBodyLength options" "int (length data) \<le> int (length bs) * maxExpansionRatio options"
    and "jb_used b + int (length data) \<le> jb_capacity b" "jb_capacity b \<le> int_max" "0 \<le> jb_used b"
    and "zstd_decompress z bs (length data) = Some data"
  shows "java_decompress z \<lparr>en_codec = Zstd, en_originalLength = int (length data), en_bytes = bs\<rparr> options b = (Inr data, b)"
  using assms by (simp add: java_decompress_def java_reserve_def addExact_def int_max_def reservation_close_def)

text \<open>The client's reading of an application frame that the server's writer compressed or left alone.\<close>

lemma java_decodes_outbound:
  assumes z: "zstd_laws z" and f: "flags f = 0" "kind f \<in> {Response, Event, StreamItem}"
    and k: "kind (compress_outbound_frame z f (compression_codecs n) p (max_metadata_len n)) \<noteq> Error"
    and p: "unat (max_expansion_ratio p) \<le> 64" "cp_max_decoded_body_len p = max_decoded_body_len n"
    and b: "jb_used b + int (length (body f)) \<le> jb_capacity b" "jb_capacity b \<le> int_max" "0 \<le> jb_used b"
    and n: "uint (max_metadata_len n) \<le> int_max" "uint (max_decoded_body_len n) + 23 \<le> int_max"
  shows "decodeApplicationFrame z (client_settings n) b
      (java_view (compress_outbound_frame z f (compression_codecs n) p (max_metadata_len n))) = (Inr (java_view f), b)"
proof -
  let ?g = "compress_outbound_frame z f (compression_codecs n) p (max_metadata_len n)"
  have plain: ?thesis if "?g = f"
    using that f(1) by (simp add: decodeApplicationFrame_def java_view_def)
  show ?thesis
  proof (cases "compression_codecs n AND COMPRESSION_CODEC_ZSTD = 0")
    case True
    then show ?thesis using plain by (simp add: compress_outbound_frame_def)
  next
    case False
    obtain c where c: "compression_encode z p (body f) Zstd = Inr c"
      and none: "cp_codec c = CodecNone \<Longrightarrow> ?g = f"
      and zip: "cp_codec c = Zstd \<Longrightarrow> 19 \<le> unat (max_metadata_len n) \<and> ?g = f\<lparr>flags := FLAG_HAS_METADATA,
        body := (u32_to_be_bytes (word_of_nat (length (block_bytes (compression_metadata (original_len c)))))
                 @ block_bytes (compression_metadata (original_len c))) @ cp_bytes c\<rparr>"
      using compress_plain_frame [OF f k False] by metis
    note enc = compression_encode_Inr [OF c]
    show ?thesis
    proof (cases "cp_codec c")
      case Zstd
      have d: "zstd_compress z (body f) (compression_level p) = Some (cp_bytes c)"
          "length (cp_bytes c) \<le> length (body f)" "length (body f) \<le> length (cp_bytes c) * unat (max_expansion_ratio p)"
        using enc(5) Zstd by auto
      have len: "int (length (body f)) \<le> uint (max_decoded_body_len n)" using enc(1) p(2) by (simp add: uint_le_unat)
      have "length (body f) \<le> length (cp_bytes c) * 64" using d(3) p(1) by (meson le_trans mult_le_mono2)
      moreover have "zstd_decompress z (cp_bytes c) (length (body f)) = Some (body f)" using z d(1) by (auto simp: zstd_laws_def)
      ultimately have dec: "java_decompress z \<lparr>en_codec = Zstd, en_originalLength = int (length (body f)), en_bytes = cp_bytes c\<rparr>
          (cs_options (client_settings n)) b = (Inr (body f), b)"
        using len b by (intro java_decompress_ok) (simp_all add: client_settings_def options_defaults_def)
      let ?m = "compression_metadata (original_len c)"
      have "int 19 \<le> uint (max_metadata_len n)" using zip [OF Zstd] unfolding uint_le_unat by simp
      then have md: "rbind (limits_new (uint (max_metadata_len n)) 64 8192)
          (java_decode ((u32_to_be_bytes (word_of_nat (length (block_bytes ?m))) @ block_bytes ?m) @ cp_bytes c)) = Inr (?m, cp_bytes c)"
        using d(2) len n by (intro decode_compression_metadata) simp_all
      have o: "sint (original_len c) = int (length (body f))"
        using enc(2) sint_small_u32 [of "length (body f)"] len n(2) by simp
      have get: "bt_get ?m (Reserved CompressionCodecKey) = Some [1]"
        "bt_get ?m (Reserved OriginalLength) = Some (u32_to_be_bytes (original_len c))"
        by (simp_all add: bt_get_def compression_metadata_def)
      have wire: "codec_fromWire 1 = Inr Zstd" by (simp add: codec_fromWire_def)
      have "uint (compression_codecs n) AND 2 \<noteq> 0" using False by (simp add: uint_and_2 COMPRESSION_CODEC_ZSTD_def)
      then show ?thesis
        using zip [OF Zstd] md dec get wire o f(1)
        by (simp add: decodeApplicationFrame_def java_view_def client_settings_def java_flag_has_metadata_def FLAG_HAS_METADATA_def
            getInt_def slice_def Let_def del: rbind_eq_Inr append_assoc)
    qed (use none plain in simp)
  qed
qed

section \<open>The reader\<close>

lemma java_error_code_wire: "java_error_code (uint (error_code_as_u16 c)) = uint (error_code_as_u16 c)"
  by (cases c) (simp_all add: java_error_code_def)

lemma decodeRemoteError_encoded:
  "jf_body frame = error_code_encode c message \<Longrightarrow> decodeRemoteError frame = Inr (uint (error_code_as_u16 c), message)"
  by (simp add: decodeRemoteError_def error_code_encode_def java_error_code_wire slice_def)

text \<open>An answer that the writer replaced by an error has a well-formed error body.\<close>

lemma outbound_error:
  assumes "flags g = 0" "kind g \<noteq> Error" "kind (prepare_outbound z n p g) = Error" "2 \<le> unat (max_body_len n)"
    and "length (body g) \<le> unat (max_decoded_body_len n)"
  shows "\<exists>c message. body (prepare_outbound z n p g) = error_code_encode c message"
proof -
  let ?c = "compress_outbound_frame z g (compression_codecs n) p (max_metadata_len n)"
  have a: "prepare_outbound z n p g = fit_outbound_frame ?c (max_body_len n)"
    using assms(5) by (simp add: prepare_outbound_def fit_outbound_frame_def [of g])
  show ?thesis
  proof (cases "length (body ?c) \<le> unat (max_body_len n)")
    case True
    then have "kind ?c = Error" "prepare_outbound z n p g = ?c" using a assms(3) by (simp_all add: fit_outbound_frame_def)
    moreover from this(1) obtain message where "?c = compression_failed g message"
      using assms(2) by (cases rule: compress_outbound_cases [of z g "compression_codecs n" p "max_metadata_len n"]) auto
    ultimately show ?thesis by (auto simp: compression_failed_def)
  next
    case False
    then show ?thesis using a assms(4) by (auto simp: fit_outbound_frame_def word_le_nat_alt)
  qed
qed

text \<open>With a compressor that does not fail and room for the announcement, an answer stays what it is.\<close>

lemma outbound_kept:
  assumes f: "flags f = 0" "kind f \<in> {Response, Event, StreamItem}" and z: "\<forall>x l. zstd_compress z x l \<noteq> None"
    and p: "policy_validate p = Inr ()" "length (body f) \<le> unat (cp_max_decoded_body_len p)" and n: "19 \<le> unat n"
  shows "kind (compress_outbound_frame z f codecs p n) = kind f"
    and "length (body (compress_outbound_frame z f codecs p n)) \<le> length (body f) + 23"
proof -
  let ?g = "compress_outbound_frame z f codecs p n"
  have "kind ?g = kind f \<and> length (body ?g) \<le> length (body f) + 23"
  proof (cases "codecs AND COMPRESSION_CODEC_ZSTD = 0")
    case False
    have "length (body f) \<le> u32_max" using p(2) unat_u32_le_max le_trans by blast
    moreover obtain a where "zstd_compress z (body f) (compression_level p) = Some a" using z by auto
    ultimately have "\<exists>c. compression_encode z p (body f) Zstd = Inr c"
      using p by (simp add: compression_encode_def u32_try_from_def word_less_nat_alt Let_def del: rbind_eq_Inr)
    then obtain c where c: "compression_encode z p (body f) Zstd = Inr c" by blast
    have enc: "encode_prefix (compression_metadata (original_len c)) [] =
        ([] @ u32_to_be_bytes (word_of_nat (length (block_bytes (compression_metadata (original_len c)))))
          @ block_bytes (compression_metadata (original_len c)), Inr ())"
      by (rule encode_prefix_ok [OF compression_metadata_wf]) (simp add: compression_block_length u32_max_def)
    have cond: "\<not> (codecs AND COMPRESSION_CODEC_ZSTD = 0 \<or> kind f \<notin> {Response, Event, StreamItem})" using f(2) False by simp
    have "?g = pack_outbound f (if cp_codec c = Zstd then compression_metadata (original_len c) else metadata_new) (cp_bytes c) n"
      using c f(1) announce_codec_new [of c] compress_outbound_frame_def [of z f codecs p n, unfolded if_not_P [OF cond]]
      by (simp add: outbound_metadata_def)
    moreover have "\<not> metadata_is_empty (compression_metadata (original_len c))" "metadata_is_empty metadata_new"
      by (simp_all add: metadata_is_empty_def metadata_new_def compression_metadata_def)
    ultimately show ?thesis
      using compression_encode_Inr(5) [OF c] enc n by (auto simp: pack_outbound_def compression_block_length)
  qed (simp add: compress_outbound_frame_def)
  then show "kind ?g = kind f" "length (body ?g) \<le> length (body f) + 23" by simp_all
qed

lemma response_kept:
  assumes "settings_valid n" "1 \<le> unat (max_expansion_ratio p)" "\<forall>x l. zstd_compress z x l \<noteq> None"
    and "19 \<le> unat (max_metadata_len n)" "length out \<le> unat (max_decoded_body_len n)" "length out + 23 \<le> unat (max_body_len n)"
  shows "kind (prepare_outbound z n (connection_compression_policy n p) (frame_new Response mid rid out)) = Response"
proof -
  let ?p = "connection_compression_policy n p" and ?g = "frame_new Response mid rid out"
  let ?c = "compress_outbound_frame z ?g (compression_codecs n) ?p (max_metadata_len n)"
  have "policy_validate ?p = Inr ()"
    using assms(1,2) by (auto simp: policy_validate_def connection_compression_policy_def settings_valid_def)
  then have "kind ?c = Response" "length (body ?c) \<le> length out + 23"
    using outbound_kept [of ?g z ?p "max_metadata_len n" "compression_codecs n"] assms(3-5)
    by (simp_all add: connection_compression_policy_def)
  then show ?thesis using assms(5,6) by (simp add: prepare_outbound_def fit_outbound_frame_def [of ?g])
qed

definition client_ready :: "int \<Rightarrow> int \<Rightarrow> nat \<Rightarrow> ClientState \<Rightarrow> bool" where
  "client_ready mid rid room cl =
    (cl_pending cl rid = Some \<lparr>pr_expectedKind = RESPONSE, pr_methodId = mid, pr_errorAllowed = True\<rparr> \<and> cl_streams cl rid = None
     \<and> 0 \<le> jb_used (cl_budget cl) \<and> jb_used (cl_budget cl) + int room \<le> jb_capacity (cl_budget cl)
     \<and> jb_capacity (cl_budget cl) \<le> int_max)"

lemma java_ids:
  "- 2147483648 \<le> mid \<Longrightarrow> mid \<le> int_max \<Longrightarrow> sint (word_of_int mid :: u32) = mid"
  "- 9223372036854775808 \<le> rid \<Longrightarrow> rid \<le> 9223372036854775807 \<Longrightarrow> sint (word_of_int rid :: u64) = rid"
  by (simp_all add: int_max_def sint_sbintrunc' signed_take_bit_int_eq_self)

lemma reader_completes:
  assumes "client_ready mid rid k cl" "decodeApplicationFrame z cs (cl_budget cl) received = (Inr frame, cl_budget cl)"
    and "jf_kind received = RESPONSE" "jf_kind frame = RESPONSE" "jf_methodId frame = mid" "jf_requestId frame = rid"
  shows "reader_turn z cs listening received cl =
    Inr ([CallCompleted rid (jf_body frame)], cl\<lparr>cl_pending := (cl_pending cl)(rid := None)\<rparr>)"
  using assms
  by (simp add: reader_turn_def pending_turn_def validateResponse_def client_ready_def RESPONSE_def GOAWAY_def EVENT_def
      ERROR_KIND_def Let_def del: rbind_eq_Inr)

lemma reader_fails:
  assumes "client_ready mid rid k cl" "jf_kind frame = ERROR_KIND" "jf_methodId frame = mid" "jf_requestId frame = rid"
    and "jf_body frame = error_code_encode c message"
  shows "reader_turn z cs listening frame cl =
    Inr ([CallFailed rid (uint (error_code_as_u16 c)) message], cl\<lparr>cl_pending := (cl_pending cl)(rid := None)\<rparr>)"
  using assms decodeRemoteError_encoded [OF assms(5)]
  by (simp add: reader_turn_def pending_turn_def validateResponse_def client_ready_def RESPONSE_def GOAWAY_def EVENT_def
      STREAM_ITEM_def ERROR_KIND_def Let_def del: rbind_eq_Inr)

text \<open>What the client does with the server's answer to one of its calls.\<close>

lemma java_answer_read:
  fixes p :: CompressionPolicy
  defines "pol n \<equiv> connection_compression_policy n p"
  assumes n: "settings_valid server" "n = negotiate java_settings server" "2 \<le> unat (max_body_len n)"
    and z: "zstd_laws z" and r: "1 \<le> unat (max_expansion_ratio p)" "unat (max_expansion_ratio p) \<le> 64"
    and out: "length out \<le> unat (max_decoded_body_len n)"
    and ids: "sint mid = jmid" "sint rid = jrid" and cl: "client_ready jmid jrid (length out) cl"
    and a: "a = prepare_outbound z n (pol n) (frame_new Response mid rid out)"
  obtains bs ev where "write_frame [] a = Inr bs"
    and "\<And>rest. readFrame (cs_maxBodyLength (client_settings n)) (bs @ rest) = Inr (java_view a, rest)"
    and "reader_turn z (client_settings n) listening (java_view a) cl =
      Inr ([ev], cl\<lparr>cl_pending := (cl_pending cl)(jrid := None)\<rparr>)"
    and "ev = CallCompleted jrid out \<or> (\<exists>c message. ev = CallFailed jrid (uint (error_code_as_u16 c)) message)"
    and "(\<forall>x l. zstd_compress z x l \<noteq> None) \<and> 19 \<le> unat (max_metadata_len n) \<and> length out + 23 \<le> unat (max_body_len n)
      \<longrightarrow> ev = CallCompleted jrid out"
proof -
  let ?g = "frame_new Response mid rid out"
  let ?c = "compress_outbound_frame z ?g (compression_codecs n) (pol n) (max_metadata_len n)"
  have lim: "uint (max_body_len n) \<le> int_max" "uint (max_metadata_len n) \<le> int_max" "uint (max_decoded_body_len n) + 23 \<le> int_max"
    by (simp_all add: n(2) negotiate_def java_settings_def min_def int_max_def word_le_def)
  have ac: "a = fit_outbound_frame ?c (max_body_len n)"
    using out by (simp add: a prepare_outbound_def fit_outbound_frame_def [of ?g])
  have enc: "frame_encodable a" unfolding a by (rule prepare_outbound_encodable) simp
  have len: "int (length (body a)) \<le> uint (max_body_len n)" using ac by (simp add: uint_le_unat)
  have wr: "write_frame [] a = Inr (header_bytes (frame_header a) @ body a)"
    using enc frame_encode_Inr [of a] by (simp add: write_frame_def)
  have rd: "readFrame (cs_maxBodyLength (client_settings n)) ((header_bytes (frame_header a) @ body a) @ rest) =
      Inr (java_view a, rest)" for rest
    using readFrame_encoded [OF enc, of "uint (max_body_len n)" rest] len lim(1) by (simp add: client_settings_def)
  have ida: "jf_methodId (java_view a) = jmid" "jf_requestId (java_view a) = jrid"
    using ids by (simp_all add: java_view_def a prepare_outbound_def)
  have "kind a \<in> {Response, Error}" using prepare_outbound_kind [of z n "pol n" ?g] by (simp add: a)
  then consider "kind a = Response" | "kind a = Error" by auto
  then show thesis
  proof cases
    case 1
    then have "length (body ?c) \<le> unat (max_body_len n)" "kind ?c = Response" using ac by (auto split: if_splits)
    then have "a = ?c" using ac by (simp add: fit_outbound_frame_def)
    have "decodeApplicationFrame z (client_settings n) (cl_budget cl) (java_view a) = (Inr (java_view ?g), cl_budget cl)"
      unfolding \<open>a = ?c\<close>
      by (rule java_decodes_outbound [OF z])
        (use \<open>kind ?c = Response\<close> r cl lim in \<open>simp_all add: pol_def connection_compression_policy_def client_ready_def\<close>)
    then have "reader_turn z (client_settings n) listening (java_view a) cl =
        Inr ([CallCompleted jrid out], cl\<lparr>cl_pending := (cl_pending cl)(jrid := None)\<rparr>)"
      using reader_completes [OF cl, of z "client_settings n" "java_view a" "java_view ?g" listening] 1 ids
      by (simp add: java_view_def RESPONSE_def)
    from that [OF wr rd this] show thesis by simp
  next
    case 2
    obtain c message where e: "body a = error_code_encode c message"
      using outbound_error [of ?g z n "pol n"] 2 n(3) out a by auto
    have "reader_turn z (client_settings n) listening (java_view a) cl =
        Inr ([CallFailed jrid (uint (error_code_as_u16 c)) message], cl\<lparr>cl_pending := (cl_pending cl)(jrid := None)\<rparr>)"
      by (rule reader_fails [OF cl _ ida]) (use 2 e in \<open>simp_all add: java_view_def ERROR_KIND_def\<close>)
    moreover have False if "\<forall>x l. zstd_compress z x l \<noteq> None" "19 \<le> unat (max_metadata_len n)" "length out + 23 \<le> unat (max_body_len n)"
      using response_kept [OF negotiate_valid [OF java_settings_valid n(1), folded n(2)] r(1) that(1,2) out that(3), of mid rid] 2
      by (simp add: a pol_def)
    ultimately show thesis using that [OF wr rd] by blast
  qed
qed

end
