(* ===== verification/Java_Stream.thy ===== *)
theory Java_Stream
  imports Bridge_Prelude
begin

text \<open>
  A server-streaming call in the Java client, java/moonlight-bridge-client, MoonLightServerStream.java: demand of the
  subscriber, credit granted to the server, the queue of callbacks and the terminal signal.

  What runs inside the monitor \<open>callbacks\<close> is one step; \<open>finish\<close> sets its flags under another lock and signals
  later, so it is two steps between which others can run.  A callback starts and ends in separate steps, since the
  subscriber runs outside the monitor and can ask for more from within \<open>onNext\<close>.  The executor runs the callbacks of
  the queue one after the other.  What the stream does to its environment is a list of effects; \<open>ss_received\<close>
  records the items accepted and exists for the statements only.
\<close>

section \<open>State\<close>

datatype stream_error = WithoutCredit | DemandNotPositive | StreamCancelled | Failure string

datatype callback = OnNext bytes | OnComplete | OnError stream_error

datatype stream_effect = GrantCredit int | CancelRemote | TerminalCleanup "stream_error option" | Signalled callback

record ServerStream =
  ss_subscriber :: bool
  ss_subscribing :: bool
  ss_terminalDelivered :: bool
  ss_terminated :: bool
  ss_cancelled :: bool
  ss_terminalError :: "stream_error option"
  ss_demand :: int
  ss_outstandingWireCredit :: int
  ss_pendingCallbacks :: int
  ss_callbackQueue :: "callback list"
  ss_running :: "callback option"
  ss_finishing :: "bool option"
  ss_effects :: "stream_effect list"
  ss_received :: "bytes list"

definition MAX_PENDING_CALLBACKS :: int where "MAX_PENDING_CALLBACKS = 32"
definition long_max :: int where "long_max = 9223372036854775807"

definition stream_new :: ServerStream where
  "stream_new = \<lparr>ss_subscriber = False, ss_subscribing = False, ss_terminalDelivered = False, ss_terminated = False,
     ss_cancelled = False, ss_terminalError = None, ss_demand = 0, ss_outstandingWireCredit = 0, ss_pendingCallbacks = 0,
     ss_callbackQueue = [], ss_running = None, ss_finishing = None, ss_effects = [], ss_received = []\<rparr>"

section \<open>Operations\<close>

definition effect :: "stream_effect \<Rightarrow> ServerStream \<Rightarrow> ServerStream" where
  "effect e s = s\<lparr>ss_effects := ss_effects s @ [e]\<rparr>"

definition dispatchCallback :: "callback \<Rightarrow> ServerStream \<Rightarrow> ServerStream" where
  "dispatchCallback c s = s\<lparr>ss_callbackQueue := ss_callbackQueue s @ [c]\<rparr>"

definition grantAvailableCredit :: "ServerStream \<Rightarrow> ServerStream" where
  "grantAvailableCredit s =
    (if ss_terminated s then s
     else
       let ungrantedDemand = ss_demand s - ss_outstandingWireCredit s in
       if ungrantedDemand \<le> 0 then s
       else
         let availableCallbacks = MAX_PENDING_CALLBACKS - ss_pendingCallbacks s;
             credit = min ungrantedDemand availableCallbacks in
         if credit \<le> 0 then s
         else effect (GrantCredit credit)
           (s\<lparr>ss_outstandingWireCredit := ss_outstandingWireCredit s + credit,
              ss_pendingCallbacks := ss_pendingCallbacks s + credit\<rparr>))"

definition signalTerminal :: "ServerStream \<Rightarrow> ServerStream" where
  "signalTerminal s =
    (if \<not> ss_terminated s \<or> ss_subscribing s \<or> ss_terminalDelivered s \<or> ss_cancelled s \<or> \<not> ss_subscriber s then s
     else dispatchCallback (case ss_terminalError s of None \<Rightarrow> OnComplete | Some e \<Rightarrow> OnError e)
       (s\<lparr>ss_terminalDelivered := True\<rparr>))"

text \<open>\<open>finish\<close>: the part that decides who ends the stream, with the cleanup, and the part after it.\<close>

definition finish_mark :: "stream_error option \<Rightarrow> bool \<Rightarrow> ServerStream \<Rightarrow> ServerStream" where
  "finish_mark e cancel s =
     effect (TerminalCleanup e) (s\<lparr>ss_terminalError := e, ss_cancelled := cancel, ss_terminated := True\<rparr>)"

definition finish_end :: "bool \<Rightarrow> ServerStream \<Rightarrow> ServerStream" where
  "finish_end cancel s = (if cancel then effect CancelRemote s else signalTerminal s)"

definition finish_stream :: "stream_error option \<Rightarrow> bool \<Rightarrow> ServerStream \<Rightarrow> ServerStream" where
  "finish_stream e cancel s = (if ss_terminated s then s else finish_end cancel (finish_mark e cancel s))"

text \<open>\<open>current + count < 0 ? Long.MAX_VALUE : current + count\<close> on 64-bit integers.\<close>

definition add_demand :: "int \<Rightarrow> int \<Rightarrow> int" where
  "add_demand current count =
    (let sum = sint (word_of_int (current + count) :: u64) in if sum < 0 then long_max else sum)"

definition stream_request :: "int \<Rightarrow> ServerStream \<Rightarrow> ServerStream" where
  "stream_request count s =
    (if ss_terminated s then s
     else if count \<le> 0 then effect CancelRemote (finish_stream (Some DemandNotPositive) False s)
     else grantAvailableCredit (s\<lparr>ss_demand := add_demand (ss_demand s) count\<rparr>))"

definition stream_emit :: "bytes \<Rightarrow> ServerStream \<Rightarrow> ServerStream" where
  "stream_emit item s =
    (if ss_terminated s then s
     else if \<not> ss_subscriber s \<or> ss_demand s = 0 \<or> ss_outstandingWireCredit s = 0
     then effect CancelRemote (finish_stream (Some WithoutCredit) False s)
     else dispatchCallback (OnNext item)
       (s\<lparr>ss_outstandingWireCredit := ss_outstandingWireCredit s - 1,
          ss_demand := (if ss_demand s = long_max then ss_demand s else ss_demand s - 1),
          ss_received := ss_received s @ [item]\<rparr>))"

text \<open>The first callback of the queue starts; a callback ends, having thrown or not.\<close>

definition callback_start :: "ServerStream \<Rightarrow> ServerStream" where
  "callback_start s =
    (case ss_callbackQueue s of
       [] \<Rightarrow> s
     | c # cs \<Rightarrow> effect (Signalled c) (s\<lparr>ss_callbackQueue := cs, ss_running := Some c\<rparr>))"

definition callback_done :: "stream_error option \<Rightarrow> ServerStream \<Rightarrow> ServerStream" where
  "callback_done thrown s =
    (case ss_running s of
       Some (OnNext _) \<Rightarrow>
         let s1 = (case thrown of None \<Rightarrow> s | Some e \<Rightarrow> effect CancelRemote (finish_stream (Some e) False s)) in
         grantAvailableCredit (s1\<lparr>ss_running := None, ss_pendingCallbacks := ss_pendingCallbacks s1 - 1\<rparr>)
     | _ \<Rightarrow> s\<lparr>ss_running := None\<rparr>)"

text \<open>\<open>subscribe\<close>, with what the subscriber asks for inside \<open>onSubscribe\<close> and whether that throws; a second
  subscriber is turned away.\<close>

datatype subscription_call = RequestCall int | CancelCall

definition run_call :: "subscription_call \<Rightarrow> ServerStream \<Rightarrow> ServerStream" where
  "run_call call s =
    (case call of RequestCall count \<Rightarrow> stream_request count s | CancelCall \<Rightarrow> finish_stream (Some StreamCancelled) True s)"

definition stream_subscribe :: "subscription_call list \<Rightarrow> bool \<Rightarrow> ServerStream \<Rightarrow> ServerStream" where
  "stream_subscribe calls throws s =
    (if ss_subscriber s then s
     else
       let s1 = foldl (\<lambda>s call. run_call call s) (s\<lparr>ss_subscriber := True, ss_subscribing := True\<rparr>) calls;
           s2 = (if throws then finish_stream (Some StreamCancelled) True s1 else s1) in
       signalTerminal (s2\<lparr>ss_subscribing := False\<rparr>))"

text \<open>A count is a Java \<open>long\<close>.\<close>

inductive stream_step :: "ServerStream \<Rightarrow> ServerStream \<Rightarrow> bool" where
  subscribe: "\<forall>count. RequestCall count \<in> set calls \<longrightarrow> count \<le> long_max \<Longrightarrow> stream_step s (stream_subscribe calls throws s)"
| request: "ss_subscriber s \<Longrightarrow> count \<le> long_max \<Longrightarrow> stream_step s (stream_request count s)"
| emit: "stream_step s (stream_emit item s)"
| mark: "\<not> ss_terminated s \<Longrightarrow> stream_step s ((finish_mark e cancel s)\<lparr>ss_finishing := Some cancel\<rparr>)"
| finish: "ss_finishing s = Some cancel \<Longrightarrow> stream_step s (finish_end cancel (s\<lparr>ss_finishing := None\<rparr>))"
| start: "ss_running s = None \<Longrightarrow> stream_step s (callback_start s)"
| finished: "ss_running s = Some c \<Longrightarrow> stream_step s (callback_done thrown s)"

section \<open>Invariant\<close>

fun granted_by :: "stream_effect \<Rightarrow> int" where
  "granted_by (GrantCredit n) = n"
| "granted_by _ = 0"

definition granted :: "ServerStream \<Rightarrow> int" where "granted s = sum_list (map granted_by (ss_effects s))"

fun signal_of :: "stream_effect \<Rightarrow> callback option" where
  "signal_of (Signalled c) = Some c"
| "signal_of _ = None"

definition signals :: "ServerStream \<Rightarrow> callback list" where "signals s = List.map_filter signal_of (ss_effects s)"

fun is_item :: "callback \<Rightarrow> bool" where
  "is_item (OnNext _) = True"
| "is_item _ = False"

definition running_items :: "ServerStream \<Rightarrow> int" where
  "running_items s = (case ss_running s of Some (OnNext _) \<Rightarrow> 1 | _ \<Rightarrow> 0)"

definition terminal :: "ServerStream \<Rightarrow> callback list" where
  "terminal s =
    (if ss_terminalDelivered s then [case ss_terminalError s of None \<Rightarrow> OnComplete | Some e \<Rightarrow> OnError e] else [])"

definition stream_inv :: "ServerStream \<Rightarrow> bool" where
  "stream_inv s =
    (0 \<le> ss_outstandingWireCredit s \<and> ss_outstandingWireCredit s \<le> ss_demand s \<and> ss_demand s \<le> long_max
     \<and> ss_pendingCallbacks s =
         ss_outstandingWireCredit s + int (length (filter is_item (ss_callbackQueue s))) + running_items s
     \<and> ss_pendingCallbacks s \<le> MAX_PENDING_CALLBACKS
     \<and> granted s = int (length (ss_received s)) + ss_outstandingWireCredit s
     \<and> signals s @ ss_callbackQueue s = map OnNext (ss_received s) @ terminal s
     \<and> (ss_terminalDelivered s \<longrightarrow> ss_terminated s) \<and> (ss_finishing s \<noteq> None \<longrightarrow> ss_terminated s)
     \<and> (ss_demand s \<noteq> 0 \<longrightarrow> ss_subscriber s))"

lemma effect_sel [simp]:
  "granted (effect e s) = granted s + granted_by e"
  "signals (effect e s) = signals s @ (case signal_of e of None \<Rightarrow> [] | Some c \<Rightarrow> [c])"
  by (simp_all add: granted_def signals_def effect_def map_filter_def split: option.split)

lemma unlogged_updates [simp]:
  "granted (s\<lparr>ss_subscriber := x0\<rparr>) = granted s" "signals (s\<lparr>ss_subscriber := x0\<rparr>) = signals s"
  "granted (s\<lparr>ss_subscribing := x1\<rparr>) = granted s" "signals (s\<lparr>ss_subscribing := x1\<rparr>) = signals s"
  "granted (s\<lparr>ss_terminalDelivered := x2\<rparr>) = granted s" "signals (s\<lparr>ss_terminalDelivered := x2\<rparr>) = signals s"
  "granted (s\<lparr>ss_terminated := x3\<rparr>) = granted s" "signals (s\<lparr>ss_terminated := x3\<rparr>) = signals s"
  "granted (s\<lparr>ss_cancelled := x4\<rparr>) = granted s" "signals (s\<lparr>ss_cancelled := x4\<rparr>) = signals s"
  "granted (s\<lparr>ss_terminalError := x5\<rparr>) = granted s" "signals (s\<lparr>ss_terminalError := x5\<rparr>) = signals s"
  "granted (s\<lparr>ss_demand := x6\<rparr>) = granted s" "signals (s\<lparr>ss_demand := x6\<rparr>) = signals s"
  "granted (s\<lparr>ss_outstandingWireCredit := x7\<rparr>) = granted s" "signals (s\<lparr>ss_outstandingWireCredit := x7\<rparr>) = signals s"
  "granted (s\<lparr>ss_pendingCallbacks := x8\<rparr>) = granted s" "signals (s\<lparr>ss_pendingCallbacks := x8\<rparr>) = signals s"
  "granted (s\<lparr>ss_callbackQueue := x9\<rparr>) = granted s" "signals (s\<lparr>ss_callbackQueue := x9\<rparr>) = signals s"
  "granted (s\<lparr>ss_running := x10\<rparr>) = granted s" "signals (s\<lparr>ss_running := x10\<rparr>) = signals s"
  "granted (s\<lparr>ss_finishing := x11\<rparr>) = granted s" "signals (s\<lparr>ss_finishing := x11\<rparr>) = signals s"
  "granted (s\<lparr>ss_received := x12\<rparr>) = granted s" "signals (s\<lparr>ss_received := x12\<rparr>) = signals s"
  by (simp_all add: granted_def signals_def)

lemma effect_fields [simp]:
  "ss_subscriber (effect e s) = ss_subscriber s" "ss_subscribing (effect e s) = ss_subscribing s" "ss_terminalDelivered (effect e s) = ss_terminalDelivered s"
  "ss_terminated (effect e s) = ss_terminated s" "ss_cancelled (effect e s) = ss_cancelled s" "ss_terminalError (effect e s) = ss_terminalError s"
  "ss_demand (effect e s) = ss_demand s" "ss_outstandingWireCredit (effect e s) = ss_outstandingWireCredit s" "ss_pendingCallbacks (effect e s) = ss_pendingCallbacks s"
  "ss_callbackQueue (effect e s) = ss_callbackQueue s" "ss_running (effect e s) = ss_running s" "ss_finishing (effect e s) = ss_finishing s"
  "ss_received (effect e s) = ss_received s"
  "running_items (effect e s) = running_items s" "terminal (effect e s) = terminal s"
  by (simp_all add: effect_def running_items_def terminal_def)

text \<open>Steps that leave the counters, the queue and the signals alone keep the invariant.\<close>

lemma stream_inv_quiet:
  assumes "stream_inv s" "signal_of e = None" "granted_by e = 0"
  shows "stream_inv (effect e s)"
  using assms by (simp add: stream_inv_def)

lemma grant_inv:
  assumes "stream_inv s"
  shows "stream_inv (grantAvailableCredit s)"
proof -
  have "stream_inv (effect (GrantCredit c) (s\<lparr>ss_outstandingWireCredit := ss_outstandingWireCredit s + c,
      ss_pendingCallbacks := ss_pendingCallbacks s + c\<rparr>))"
    if "0 < c" "c \<le> ss_demand s - ss_outstandingWireCredit s" "c \<le> MAX_PENDING_CALLBACKS - ss_pendingCallbacks s" for c
    using assms that by (simp add: stream_inv_def running_items_def terminal_def)
  then show ?thesis using assms by (simp add: grantAvailableCredit_def Let_def)
qed

lemma signalTerminal_inv:
  assumes "stream_inv s" shows "stream_inv (signalTerminal s)"
  using assms
  by (auto simp: signalTerminal_def dispatchCallback_def stream_inv_def running_items_def terminal_def split: option.splits)

lemma finish_mark_inv:
  assumes "stream_inv s" "\<not> ss_terminated s"
  shows "stream_inv (finish_mark e cancel s)"
proof -
  let ?s = "s\<lparr>ss_terminalError := e, ss_cancelled := cancel, ss_terminated := True\<rparr>"
  have "granted ?s = granted s" "signals ?s = signals s" by simp_all
  then have "stream_inv ?s" using assms by (simp add: stream_inv_def running_items_def terminal_def)
  then show ?thesis by (simp add: finish_mark_def stream_inv_quiet)
qed

lemma finish_end_inv: "stream_inv s \<Longrightarrow> stream_inv (finish_end cancel s)"
  by (simp add: finish_end_def signalTerminal_inv stream_inv_quiet)

lemma finish_stream_inv: "stream_inv s \<Longrightarrow> stream_inv (finish_stream e cancel s)"
  by (simp add: finish_stream_def finish_mark_inv finish_end_inv)

lemma stream_abort_inv: "stream_inv s \<Longrightarrow> stream_inv (effect CancelRemote (finish_stream e cancel s))"
  by (simp add: stream_inv_quiet finish_stream_inv)

lemma add_demand_bounds:
  assumes "0 \<le> current" "current \<le> long_max" "0 < count" "count \<le> long_max"
  shows "add_demand current count = min long_max (current + count)"
proof (cases "current + count \<le> long_max")
  case True
  then have "sint (word_of_int (current + count) :: u64) = current + count"
    using assms by (subst sint_sbintrunc', subst signed_take_bit_int_eq_self) (simp_all add: long_max_def)
  then show ?thesis using True assms by (simp add: add_demand_def)
next
  case False
  have "sint (word_of_int (current + count) :: u64) = current + count - 2 ^ 64"
  proof -
    have "(word_of_int (current + count) :: u64) = word_of_int (current + count - 2 ^ 64)" by simp
    moreover have "sint (word_of_int (current + count - 2 ^ 64) :: u64) = current + count - 2 ^ 64"
      using assms False by (subst sint_sbintrunc', subst signed_take_bit_int_eq_self) (simp_all add: long_max_def)
    ultimately show ?thesis by metis
  qed
  then show ?thesis using False assms by (simp add: add_demand_def long_max_def)
qed

lemma request_inv:
  assumes "stream_inv s" "ss_subscriber s" "count \<le> long_max"
  shows "stream_inv (stream_request count s)"
proof (cases "0 < count")
  case True
  have "add_demand (ss_demand s) count = min long_max (ss_demand s + count)"
    using assms(1,3) True by (intro add_demand_bounds) (simp_all add: stream_inv_def)
  moreover have "granted (s\<lparr>ss_demand := add_demand (ss_demand s) count\<rparr>) = granted s"
    "signals (s\<lparr>ss_demand := add_demand (ss_demand s) count\<rparr>) = signals s" by simp_all
  ultimately have "stream_inv (s\<lparr>ss_demand := add_demand (ss_demand s) count\<rparr>)"
    using assms True by (simp add: stream_inv_def running_items_def terminal_def)
  then show ?thesis using assms(1) True by (simp add: stream_request_def grant_inv)
qed (use assms in \<open>simp add: stream_request_def stream_abort_inv\<close>)

lemma emit_inv:
  assumes "stream_inv s"
  shows "stream_inv (stream_emit item s)"
proof -
  let ?s = "s\<lparr>ss_outstandingWireCredit := ss_outstandingWireCredit s - 1,
          ss_demand := (if ss_demand s = long_max then ss_demand s else ss_demand s - 1),
          ss_received := ss_received s @ [item]\<rparr>"
  have "stream_inv (dispatchCallback (OnNext item) ?s)"
    if "\<not> ss_terminated s" "ss_subscriber s" "ss_demand s \<noteq> 0" "ss_outstandingWireCredit s \<noteq> 0"
  proof -
    have g: "granted (dispatchCallback (OnNext item) ?s) = granted s" "signals (dispatchCallback (OnNext item) ?s) = signals s"
      by (simp_all add: dispatchCallback_def)
    have "terminal s = []" using assms that(1) by (auto simp: stream_inv_def terminal_def)
    moreover from this have "terminal (dispatchCallback (OnNext item) ?s) = []"
      by (simp add: terminal_def dispatchCallback_def split: if_splits)
    ultimately show ?thesis
      using assms that g
      by (simp add: stream_inv_def dispatchCallback_def running_items_def flip: append_assoc)
  qed
  then show ?thesis using assms by (simp add: stream_emit_def stream_abort_inv)
qed

lemma start_inv:
  assumes "stream_inv s" "ss_running s = None"
  shows "stream_inv (callback_start s)"
proof (cases "ss_callbackQueue s")
  case (Cons c cs)
  let ?s = "s\<lparr>ss_callbackQueue := cs, ss_running := Some c\<rparr>"
  have "granted ?s = granted s" "signals ?s = signals s" by simp_all
  then show ?thesis
    using assms Cons effect_sel [of "Signalled c" ?s]
    by (cases c) (simp_all add: callback_start_def stream_inv_def effect_def running_items_def terminal_def)
qed (use assms in \<open>simp add: callback_start_def\<close>)

lemma done_inv:
  assumes "stream_inv s" "ss_running s = Some c"
  shows "stream_inv (callback_done thrown s)"
proof (cases c)
  case (OnNext item)
  have less: "stream_inv (s'\<lparr>ss_running := None, ss_pendingCallbacks := ss_pendingCallbacks s' - 1\<rparr>)"
    if "stream_inv s'" "ss_running s' = Some (OnNext item)" for s'
    using that by (simp add: stream_inv_def running_items_def terminal_def)
  have "ss_running (finish_stream e False s) = ss_running s" for e
    by (simp add: finish_stream_def finish_end_def finish_mark_def signalTerminal_def dispatchCallback_def)
  then have "stream_inv (s1\<lparr>ss_running := None, ss_pendingCallbacks := ss_pendingCallbacks s1 - 1\<rparr>)"
    if "s1 = (case thrown of None \<Rightarrow> s | Some e \<Rightarrow> effect CancelRemote (finish_stream (Some e) False s))" for s1
    using assms OnNext that by (intro less) (auto simp: stream_abort_inv split: option.splits)
  then show ?thesis using assms(2) OnNext by (simp add: callback_done_def grant_inv Let_def)
qed (use assms in \<open>simp_all add: callback_done_def stream_inv_def running_items_def terminal_def\<close>)

lemma subscriber_kept [simp]:
  "ss_subscriber (grantAvailableCredit s) = ss_subscriber s"
  "ss_subscriber (signalTerminal s) = ss_subscriber s"
  "ss_subscriber (finish_stream e cancel s) = ss_subscriber s"
  "ss_subscriber (stream_request count s) = ss_subscriber s"
  by (simp_all add: grantAvailableCredit_def signalTerminal_def dispatchCallback_def finish_stream_def finish_end_def
      finish_mark_def stream_request_def Let_def)

lemma run_calls_inv:
  "stream_inv s \<Longrightarrow> ss_subscriber s \<Longrightarrow> \<forall>count. RequestCall count \<in> set calls \<longrightarrow> count \<le> long_max \<Longrightarrow>
   stream_inv (foldl (\<lambda>s call. run_call call s) s calls)"
proof (induction calls arbitrary: s)
  case (Cons call calls)
  then have "stream_inv (run_call call s)" "ss_subscriber (run_call call s)"
    by (auto simp: run_call_def request_inv finish_stream_inv split: subscription_call.splits)
  then show ?case using Cons.IH [of "run_call call s"] Cons.prems(3) by simp
qed simp

lemma subscribe_inv:
  assumes "stream_inv s" "\<forall>count. RequestCall count \<in> set calls \<longrightarrow> count \<le> long_max"
  shows "stream_inv (stream_subscribe calls throws s)"
proof -
  have "stream_inv (s\<lparr>ss_subscriber := True, ss_subscribing := True\<rparr>)"
    using assms(1) by (simp add: stream_inv_def running_items_def terminal_def)
  then have r: "stream_inv (foldl (\<lambda>s call. run_call call s) (s\<lparr>ss_subscriber := True, ss_subscribing := True\<rparr>) calls)" (is "stream_inv ?s1")
    using assms(2) by (intro run_calls_inv) simp_all
  have "stream_inv (s2\<lparr>ss_subscribing := False\<rparr>)" if "stream_inv s2" for s2
    using that by (simp add: stream_inv_def running_items_def terminal_def)
  then show ?thesis
    using assms(1) r by (simp add: stream_subscribe_def signalTerminal_inv finish_stream_inv Let_def)
qed

lemma finishing_inv:
  "stream_inv s \<Longrightarrow> ss_terminated s \<or> f = None \<Longrightarrow> stream_inv (s\<lparr>ss_finishing := f\<rparr>)"
  by (auto simp: stream_inv_def running_items_def terminal_def)

lemma stream_step_inv:
  assumes "stream_step s s'" "stream_inv s"
  shows "stream_inv s'"
  using assms
proof (cases rule: stream_step.cases)
  case (mark cancel e)
  have "ss_terminated (finish_mark e cancel s)" by (simp add: finish_mark_def)
  then show ?thesis using mark assms(2) finishing_inv [OF finish_mark_inv] by simp
qed (simp_all add: subscribe_inv request_inv emit_inv finish_end_inv finishing_inv start_inv done_inv)

lemma stream_reachable_inv: "stream_step\<^sup>*\<^sup>* stream_new s \<Longrightarrow> stream_inv s"
proof (induction rule: rtranclp_induct)
  case base
  show ?case
    by (simp add: stream_inv_def stream_new_def running_items_def terminal_def granted_def signals_def long_max_def
        MAX_PENDING_CALLBACKS_def map_filter_def)
qed (rule stream_step_inv)

text \<open>Claim C21. A server stream on the client is safe for its subscriber and its memory: however requests,
  items, terminal frames, timeouts, cancellations and callbacks interleave, at most 32 items wait or are granted at any
  time, credit is never granted beyond demand, and the subscriber sees the received items in order, each once,
  followed by at most one terminal signal; and an item that the server sends within the granted credit is always accepted while
  the stream is open.\<close>

theorem client_stream_sound:
  assumes "stream_step\<^sup>*\<^sup>* stream_new s"
  shows "int (length (filter is_item (ss_callbackQueue s))) + (granted s - int (length (ss_received s))) \<le> 32
    \<and> 0 \<le> granted s - int (length (ss_received s)) \<and> granted s - int (length (ss_received s)) \<le> ss_demand s
    \<and> (\<exists>waiting. signals s @ waiting = map OnNext (ss_received s) @ terminal s)
    \<and> (\<not> ss_terminated s \<and> int (length (ss_received s)) < granted s \<longrightarrow>
         ss_received (stream_emit item s) = ss_received s @ [item] \<and> \<not> ss_terminated (stream_emit item s))"
proof -
  have i: "stream_inv s" by (rule stream_reachable_inv [OF assms])
  have "0 \<le> running_items s" by (simp add: running_items_def split: option.split callback.split)
  then show ?thesis using i by (auto simp: stream_inv_def stream_emit_def dispatchCallback_def MAX_PENDING_CALLBACKS_def)
qed

theorem client_stream_sound_witness:
  "\<exists>s. stream_step\<^sup>*\<^sup>* stream_new s \<and> granted s = 2 \<and> ss_received s = [] \<and> \<not> ss_terminated s
    \<and> ss_received (stream_emit [7] s) = [[7]]"
proof -
  let ?s = "stream_subscribe [RequestCall 2] False stream_new"
  have r: "stream_step\<^sup>*\<^sup>* stream_new ?s" by (intro r_into_rtranclp stream_step.subscribe) (simp add: long_max_def)
  have a: "add_demand 0 2 = 2" using add_demand_bounds [of 0 2] by (simp add: long_max_def)
  have f: "granted ?s = 2" "ss_received ?s = []" "\<not> ss_terminated ?s"
    by (simp_all add: stream_subscribe_def run_call_def stream_request_def a stream_new_def grantAvailableCredit_def effect_def
        signalTerminal_def granted_def MAX_PENDING_CALLBACKS_def)
  show ?thesis using client_stream_sound [OF r, of "[7]"] r f by auto
qed

end
