(* ===== verification/Spec2Isabelle.thy ===== *)
theory Spec2Isabelle
  imports Connection Idempotency Source_Schema Exporters Java_Client Java_Stream
begin

text \<open>
  MoonLightBridge: a verification development of the Rust runtime and generator.

  \<^bold>\<open>The program.\<close>  A client multiplexes calls over one byte stream (TCP, TLS or a Unix socket) to a Rust server.  A frame
  is a 24-byte header and a body; a handshake of HELLO and WELCOME fixes limits, features and codecs.  For every
  REQUEST the connection takes a permit, spawns a task, and the task parses metadata, decompresses the payload
  against a process-wide byte budget, runs middleware and the handler, and submits its frames to a bounded queue.  A
  writer task fits, compresses, batches and writes them.  A server admits connections, drains gracefully and
  counts what is active.  A generator turns Protobuf schemas into bindings: it assigns method ids, reads call
  policies, keeps a lock of every number ever used, and can derive a schema from Rust source.

  \<^bold>\<open>Theories and sources\<close> (paths are below src/crates, with moonlight-bridge- left out).

  \<^item> \<open>Bridge_Prelude\<close>: machine integers, byte strings, \<open>Result\<close> with early return (\<open>rbind\<close>, \<open>try_map\<close>, \<open>try_fold\<close>),
    \<open>BTreeMap\<close> as a sorted association list behind the locale \<open>ordered_map\<close>.
  \<^item> \<open>Wire_Protocol\<close>, \<open>Wire_Metadata\<close>, \<open>Compression\<close>: protocol/src lib.rs, metadata.rs, compression.rs.  One definition per
    encoder, decoder and check; \<open>DecodedByteBudget\<close> both as atomic operations and as the interleaved
    compare-and-swap loop \<open>budget_step\<close>.
  \<^item> \<open>Permit_Pool\<close>: the contract of counting permits, the locale \<open>permit_pool\<close>, interpreted on the decoded-byte budget; tokio
    semaphores are a record \<open>semaphore\<close> assumed to satisfy it.
  \<^item> \<open>Frame_Transport\<close>, \<open>Request_Frames\<close>: \<open>read_frame\<close>, \<open>write_frame\<close>, \<open>request_payload\<close>, \<open>compress_outbound_frame\<close> and
    \<open>fit_outbound_frame\<close> of server/src/lib.rs.
  \<^item> \<open>Telemetry\<close>, \<open>Middleware\<close>, \<open>Router\<close>, \<open>Dispatch\<close>: stages and metrics, the \<open>Next\<close> chain (server/src/middleware.rs), the builder
    with its panics, and \<open>dispatch_observed\<close> and \<open>dispatch_stream\<close>.
  \<^item> \<open>Response_Queue\<close>, \<open>Response_Writer\<close>: \<open>ResponseQueue\<close> and the writer task, as step relations \<open>queue_step\<close> and
    \<open>writer_step\<close>.
  \<^item> \<open>Server_Runtime\<close>, \<open>Connection\<close>: \<open>RuntimeState\<close>, \<open>Server::run\<close> up to admission and server/src/drain.rs (\<open>server_step\<close>,
    \<open>drain_step\<close>); \<open>serve_connection\<close> with handshake, select loop, frame handlers and request tasks (\<open>conn_step\<close>).
  \<^item> \<open>Idempotency\<close>: server/src/idempotency.rs, callers and workers interleaving in \<open>cache_step\<close> and \<open>wait_step\<close>.
  \<^item> \<open>Codegen_Ids\<close>, \<open>Rpc_Policy\<close>, \<open>Schema_Lock\<close>, \<open>Source_Schema\<close>: codegen/src lib.rs, policy.rs, schema.rs, source.rs.
  \<^item> \<open>Exporters\<close>: observability/src prometheus.rs and otel.rs, sentry/src/lib.rs.
  \<^item> This theory: the call that crosses client stream, connection, dispatch and writer.

  Structs are records, enums datatypes, integers words (\<open>usize\<close> is \<open>nat\<close> with the checks written out), errors the left
  of a sum, panics \<open>None\<close> or \<open>Panicked\<close>.  Concurrency is a step relation at the grain of the atomic
  operations and await points.

  \<^bold>\<open>What is shown.\<close>

  \<^item> Wire: frames, settings and metadata round-trip, decoders accept exactly the canonical input, a stream of written frames
    is read back, and compression round-trips within its limits.
  \<^item> Resources: the decoded-byte budget is never oversubscribed and the loop refines the atomic reservation; queued response
    bytes stay within both semaphores; requests in flight stay within the negotiated limit; decoding is bounded.
  \<^item> Calls: replies carry the ids of their request, handlers behind scopes run only behind an authorization layer,
    middleware runs a handler at most once, streams deliver every item in order before their end, an accepted response
    is written in order and never lost, and a unary call works from the client's bytes to the client's bytes.
  \<^item> Lifecycle: the handshake agrees on both sides, a cancel reaches a running request, draining stops admission, and the
    idempotency cache runs an operation once and not again before its retention has passed.
  \<^item> Generator: ids are unique exactly when validation succeeds, policies are safe, the lock check is exact and keeps numbers
    over any history of schemas, and code-first numbering follows the lock and ends.
  \<^item> Defects, proved as behaviours of the model: a deferred response compressed twice, a drain lost at start-up or missed at
    the last exit, an idle connection that is never released, a cancelled id whose reuse orphans a task, and exported
    counters that overcount after a stale snapshot.

  \<^bold>\<open>Parameters and hypotheses.\<close>  Zstandard (\<open>zstd_laws\<close>), tokio semaphores (\<open>pool_of\<close>), watch channels and notifications,
  handlers, layers, telemetry back ends, clocks, descriptors and JSON are arguments; each set of laws has a concrete
  instance that satisfies it (\<open>stored_codec\<close>, \<open>counter_semaphore\<close>, \<open>plain_watch\<close>).

  \<^bold>\<open>Bounds and termination.\<close>  \<open>read_frames\<close>, the loop around \<open>read_frame\<close>, takes fuel: one more than the number of frames is
  enough, which its round trip states.  A stream is read for the rounds given by its environment and is left waiting
  when they end; delivery is shown for environments that supply enough.  All other functions are total; the number search
  \<open>first_free\<close> ends by a measure on the taken numbers.

  \<^bold>\<open>Not modelled.\<close>  Binding listeners and TLS set-up (server/src/tls.rs): sockets, files and rustls.  The OTLP provider
  and the Sentry client set-up: library calls only.  The command line, and the text of the generated Rust, Java and Kotlin
  bindings: templates filled with the modelled names, ids and policies.  Reading Rust
  source with syn up to the syntax tree.  The adapters of typed handlers and streams, which wrap user code and a Protobuf codec.
  The attribute macros of the contract crate and the example API.  The Java and Kotlin client under src/java, a separate
  implementation of the same protocol.
\<close>

section \<open>A unary call end to end\<close>

text \<open>Claim C1. A unary call works end to end: when a client writes a request for a registered unary method to the
  connection, the server reads that request, its task submits one frame, and what the writer makes of
  it encodes, is read by the peer under the negotiated limit with the ids of the request, and is a response or an
  error; a response parses at a peer that accepts the codec and limits of the server to exactly the bytes
  the handler returned, and without a negotiated codec a result within the body limit is always a response.\<close>

theorem unary_call_end_to_end:
  assumes "zstd_laws z" and "budget_wf client_budget"
    and "used client_budget + length out \<le> capacity client_budget"
    and "middleware r = []" and "bt_get (handlers r) mid = Some h" and "h input = Returned (Inr out)"
    and "\<not> is_streaming r mid" and "env_takes (se_base env) \<noteq> None"
    and "length input \<le> unat (max_body_len negotiated)" and "length out \<le> unat (max_decoded_body_len negotiated)"
    and "rc_codecs rc AND COMPRESSION_CODEC_ZSTD \<noteq> 0"
    and "max_decoded_body_len negotiated \<le> cp_max_decoded_body_len (rc_policy rc)"
    and "max_expansion_ratio policy \<le> max_expansion_ratio (rc_policy rc)"
    and "write_frame [] (frame_new Request mid rid input) = Inr wire"
  shows "\<exists>frame response answer bs. read_frame wire (max_body_len negotiated) = Inr (frame, [])
    \<and> request_task z r negotiated policy peer frame received env budget = [response]
    \<and> answer = prepare_outbound z negotiated (connection_compression_policy negotiated policy) response
    \<and> write_frame [] answer = Inr bs \<and> read_frame bs (max_body_len negotiated) = Inr (answer, [])
    \<and> method_id answer = mid \<and> request_id answer = rid \<and> kind answer \<in> {Response, Error}
    \<and> (kind answer = Response \<longrightarrow> (\<exists>q f' b'.
         request_payload z answer (max_metadata_len negotiated) rc False timing client_budget = (Inr q, f', b')
         \<and> payload q = out))
    \<and> (compression_codecs negotiated AND COMPRESSION_CODEC_ZSTD = 0
         \<and> length out \<le> unat (max_body_len negotiated) \<longrightarrow> kind answer = Response)"
proof -
  let ?f = "frame_new Request mid rid input" and ?g = "frame_new Response mid rid out"
  let ?p = "connection_compression_policy negotiated policy"
  let ?c = "compress_outbound_frame z ?g (compression_codecs negotiated) ?p (max_metadata_len negotiated)"
  let ?a = "prepare_outbound z negotiated ?p ?g"
  have w: "frame_encodable ?f" "wire = header_bytes (frame_header ?f) @ body ?f"
    using assms(14) by (auto simp: write_frame_def frame_encode_Inr)
  have read: "read_frame wire (max_body_len negotiated) = Inr (?f, [])"
    using read_frame_encoded [OF w(1), of "max_body_len negotiated" "[]"] w(2) assms(9) by simp
  have a: "?a = fit_outbound_frame ?c (max_body_len negotiated)"
    using assms(10) by (simp add: prepare_outbound_def fit_outbound_frame_def [of ?g])
  have enc: "frame_encodable ?a" by (rule prepare_outbound_encodable) simp
  have len: "length (body ?a) \<le> unat (max_body_len negotiated)" using a by simp
  have wr: "write_frame [] ?a = Inr (header_bytes (frame_header ?a) @ body ?a)"
    using enc frame_encode_Inr [of ?a] by (simp add: write_frame_def)
  have rd: "read_frame (header_bytes (frame_header ?a) @ body ?a) (max_body_len negotiated) = Inr (?a, [])"
    using read_frame_encoded [OF enc len, of "[]"] by simp
  have k: "kind ?a \<in> {Response, Error}" using prepare_outbound_kind [of z negotiated ?p ?g] by simp
  have ids: "method_id ?a = mid" "request_id ?a = rid" by (simp_all add: prepare_outbound_def)
  have "\<exists>q f' b'. request_payload z ?a (max_metadata_len negotiated) rc False timing client_budget = (Inr q, f', b')
         \<and> payload q = out" if "kind ?a = Response"
  proof -
    from that a have "length (body ?c) \<le> unat (max_body_len negotiated)" "kind ?c = Response"
      by (auto split: if_splits)
    then have "?a = ?c" using a by (simp add: fit_outbound_frame_def)
    with \<open>kind ?c = Response\<close> show ?thesis
      using compressed_frame_parses [OF assms(1), of ?g "compression_codecs negotiated" ?p "max_metadata_len negotiated"
          rc client_budget False timing] assms(2,3,11,12,13)
      by (auto simp: connection_compression_policy_def word_le_nat_alt)
  qed
  moreover have "kind ?a = Response"
    if "compression_codecs negotiated AND COMPRESSION_CODEC_ZSTD = 0" "length out \<le> unat (max_body_len negotiated)"
  proof -
    have "?c = ?g" using that(1) by (simp add: compress_outbound_frame_def)
    then show ?thesis using a that(2) by simp
  qed
  moreover note read wr rd ids k plain_request_served [OF assms(4,5,6,7,8,10), of z policy peer rid received]
  ultimately show ?thesis by blast
qed

definition plain_settings :: PeerSettingsV2 where
  "plain_settings = settings_default\<lparr>compression_codecs := COMPRESSION_CODEC_NONE\<rparr>"

theorem unary_call_end_to_end_witness:
  "\<exists>wire frame response bs answer q f' b'.
     write_frame [] (frame_new Request 7 1 [5]) = Inr wire
   \<and> read_frame wire (max_body_len plain_settings) = Inr (frame, [])
   \<and> request_task stored_codec sample_router plain_settings eager_policy None frame None (sample_stream_env Ready 0)
       sample_budget = [response]
   \<and> write_frame [] (prepare_outbound stored_codec plain_settings
       (connection_compression_policy plain_settings eager_policy) response) = Inr bs
   \<and> read_frame bs (max_body_len plain_settings) = Inr (answer, []) \<and> kind answer = Response
   \<and> request_payload stored_codec answer (max_metadata_len plain_settings)
       \<lparr>rc_codecs = 3, rc_policy = connection_compression_policy plain_settings eager_policy\<rparr> False (0, 0) sample_budget
       = (Inr q, f', b') \<and> payload q = [5]"
proof -
  have b: "budget_wf sample_budget" "used sample_budget + 1 \<le> capacity sample_budget"
    by (simp_all add: sample_budget_def budget_wf_def usize_max_def)
  obtain wire where w: "write_frame [] (frame_new Request 7 1 [5]) = Inr wire"
    by (auto simp: write_frame_def frame_encode_def frame_encode_into_Inr u32_max_def
        intro!: exI [of _ "frame_bytes (frame_new Request 7 1 [5])"])
  have s: "middleware sample_router = []" "bt_get (handlers sample_router) 7 = Some (\<lambda>x. Returned (Inr x))"
    "\<not> is_streaming sample_router 7" "env_takes (se_base (sample_stream_env Ready 0)) \<noteq> None"
    by (simp_all add: bt_get_def is_streaming_def bt_contains_def)
  have p: "length [5 :: u8] \<le> unat (max_body_len plain_settings)" "length [5 :: u8] \<le> unat (max_decoded_body_len plain_settings)"
    "compression_codecs plain_settings AND COMPRESSION_CODEC_ZSTD = 0"
    by (simp_all add: plain_settings_def settings_default_def COMPRESSION_CODEC_NONE_def COMPRESSION_CODEC_ZSTD_def
        DEFAULT_MAX_BODY_LEN_def)
  let ?rc = "\<lparr>rc_codecs = 3, rc_policy = connection_compression_policy plain_settings eager_policy\<rparr>"
  have c: "rc_codecs ?rc AND COMPRESSION_CODEC_ZSTD \<noteq> 0"
    "max_decoded_body_len plain_settings \<le> cp_max_decoded_body_len (rc_policy ?rc)"
    "max_expansion_ratio eager_policy \<le> max_expansion_ratio (rc_policy ?rc)"
    by (simp_all add: connection_compression_policy_def COMPRESSION_CODEC_ZSTD_def)
  show ?thesis
    using unary_call_end_to_end [OF stored_codec_laws b(1) _ s(1,2) refl s(3,4) p(1,2) c w,
        where peer = None and received = None and timing = "(0, 0)" and budget = sample_budget] b(2) p w by auto
qed

section \<open>A call of the Java client end to end\<close>

text \<open>Claim C2. The Java client and the Rust server understand each other: the client's HELLO is accepted by every
  server with valid settings, and the client takes the WELCOME to mean the settings the server negotiated.  A request the client
  then puts on the wire, with its deadline, trace context, metadata and optional compression, is read by the server; the
  handler gets exactly the client's bytes, and what the writer makes of its result is read by the client and completes
  exactly the pending call, with the bytes the handler returned or with an error code.  With a working compressor
  and a result that leaves room for the announcement, it completes with the result.\<close>

theorem java_call_end_to_end:
  assumes "settings_valid server" and "n = negotiate java_settings server" and "2 \<le> unat (max_body_len n)"
    and "zstd_laws z" and "budget_wf budget" and "used budget + length data \<le> capacity budget"
    and "run_puts puts [] = Inr b" and "length puts \<le> 60" and "\<forall>(name, v) \<in> set puts. length v \<le> 8192"
    and "\<forall>tr. trace = Some tr \<longrightarrow> trace_context_wf tr" and "1 \<le> t" and "t \<le> int_max"
    and "- 2147483648 \<le> mid" and "mid \<le> int_max" and "- 9223372036854775808 \<le> rid" and "rid \<le> 9223372036854775807"
    and "unat (max_expansion_ratio policy) = 64"
    and "middleware r = []" and "bt_get (handlers r) (word_of_int mid) = Some h" and "h data = Returned (Inr out)"
    and "\<not> is_streaming r (word_of_int mid)" and "completes (Some (nat t)) (env_takes (se_base env))"
    and "length out \<le> unat (max_decoded_body_len n)" and "client_ready mid rid (length out) cl"
    and "enqueueRequestFrame z (client_settings n) permits mid rid t trace data choice (metadata_build b) = Inr (wire, permits')"
  shows "\<exists>hello reply frame response answer bs ev. hello = writeFrameDirect HELLO 0 0 0 java_hello
    \<and> handshake server False (hello @ wire) = Inr (n, reply, wire)
    \<and> java_welcome (reply @ bs) = Inr (client_settings n, bs)
    \<and> read_frame wire (max_body_len n) = Inr (frame, [])
    \<and> request_task z r n policy peer frame received env budget = [response]
    \<and> answer = prepare_outbound z n (connection_compression_policy n policy) response
    \<and> write_frame [] answer = Inr bs
    \<and> readFrame (cs_maxBodyLength (client_settings n)) bs = Inr (java_view answer, [])
    \<and> reader_turn z (client_settings n) listening (java_view answer) cl =
        Inr ([ev], cl\<lparr>cl_pending := (cl_pending cl)(rid := None)\<rparr>)
    \<and> (ev = CallCompleted rid out \<or> (\<exists>c message. ev = CallFailed rid (uint (error_code_as_u16 c)) message))
    \<and> ((\<forall>x l. zstd_compress z x l \<noteq> None) \<and> 19 \<le> unat (max_metadata_len n) \<and> length out + 23 \<le> unat (max_body_len n)
         \<longrightarrow> ev = CallCompleted rid out)"
proof -
  let ?e = "metadata_build b" and ?p = "connection_compression_policy n policy"
  note e = built_entries [OF assms(7)]
  have len: "length ?e \<le> 60" using e(3) assms(8) by simp
  have t: "\<And>tr. trace = Some tr \<Longrightarrow> trace_context_wf tr" using assms(10) by blast
  obtain f q b' m where f: "\<And>rest. read_frame (wire @ rest) (max_body_len n) = Inr (f, rest)"
    "kind f = Request" "method_id f = word_of_int mid" "request_id f = word_of_int rid"
    "request_payload z f (max_metadata_len n) \<lparr>rc_codecs = compression_codecs n, rc_policy = ?p\<rparr> False (env_timing (se_base env)) budget
       = (Inr q, f\<lparr>body := []\<rparr>, b')"
    "payload q = data" "deadline q = Some (nat t)" "metadata q = None"
    by (rule java_request_read [OF assms(4-6) e(1) _ len _ t assms(11,12) _ assms(25) refl, where retain = False])
      (use e(2) assms(9,17) in auto)
  have task: "request_task z r n policy peer f received env budget = [frame_new Response (word_of_int mid) (word_of_int rid) out]"
    using parsed_request_served [OF assms(18) _ _ _ _ assms(23) f(5,8), where h = h and peer = peer and received = received] f assms(19-22) by simp
  let ?a = "prepare_outbound z n ?p (frame_new Response (word_of_int mid) (word_of_int rid) out)"
  have ratio: "1 \<le> unat (max_expansion_ratio policy)" "unat (max_expansion_ratio policy) \<le> 64" using assms(17) by simp_all
  obtain bs ev where a: "write_frame [] ?a = Inr bs"
    "\<And>rest. readFrame (cs_maxBodyLength (client_settings n)) (bs @ rest) = Inr (java_view ?a, rest)"
    "reader_turn z (client_settings n) listening (java_view ?a) cl = Inr ([ev], cl\<lparr>cl_pending := (cl_pending cl)(rid := None)\<rparr>)"
    "ev = CallCompleted rid out \<or> (\<exists>c message. ev = CallFailed rid (uint (error_code_as_u16 c)) message)"
    "(\<forall>x l. zstd_compress z x l \<noteq> None) \<and> 19 \<le> unat (max_metadata_len n) \<and> length out + 23 \<le> unat (max_body_len n)
      \<longrightarrow> ev = CallCompleted rid out"
    by (rule java_answer_read [OF assms(1-4) ratio assms(23) java_ids(1) [OF assms(13,14)] java_ids(2) [OF assms(15,16)] assms(24) refl, where listening = listening]) (rule that)
  obtain reply where "handshake server False (writeFrameDirect HELLO 0 0 0 java_hello @ wire) = Inr (n, reply, wire)"
    "java_welcome (reply @ bs) = Inr (client_settings n, bs)"
    using java_handshake [OF assms(1,2)] by metis
  with task a f(1) [of "[]"] a(2) [of "[]"] show ?thesis
    by (intro exI [of _ "writeFrameDirect HELLO 0 0 0 java_hello"] exI [of _ reply] exI [of _ f]
        exI [of _ "frame_new Response (word_of_int mid) (word_of_int rid) out"] exI [of _ ?a] exI [of _ bs] exI [of _ ev]) simp
qed

definition sample_client :: ClientState where
  "sample_client = \<lparr>cl_pending = [1 \<mapsto> \<lparr>pr_expectedKind = RESPONSE, pr_methodId = 7, pr_errorAllowed = True\<rparr>],
     cl_streams = Map.empty, cl_budget = \<lparr>jb_capacity = 67108864, jb_used = 0\<rparr>\<rparr>"

definition sample_agreed :: PeerSettingsV2 where
  "sample_agreed = negotiate java_settings settings_default"

lemma sample_agreed_sel:
  "max_body_len sample_agreed = 8388608" "max_decoded_body_len sample_agreed = 16777216"
  "max_metadata_len sample_agreed = 16384" "compression_codecs sample_agreed = 3"
  by (simp_all add: sample_agreed_def negotiate_def java_settings_def settings_default_def DEFAULT_MAX_BODY_LEN_def
      COMPRESSION_CODEC_NONE_def COMPRESSION_CODEC_ZSTD_def)

lemma sample_enqueued:
  "\<exists>wire. enqueueRequestFrame stored_codec (client_settings sample_agreed) 4096 7 1 500 None [5] PolicyDefault [] = Inr (wire, 4056)"
  by (simp add: enqueueRequestFrame_def client_settings_def sample_agreed_sel java_encode_def options_defaults_def
      requestPrefixLength_def writeRequestPrefix_def entry_header_length_def addExact_def int_max_def into_buffer_def
      java_header_def writeEntryHeader_def putInt_def putShort_def put_byte_def putLong_def Let_def del: rbind_eq_Inr)

theorem java_call_end_to_end_witness:
  "\<exists>wire frame response bs cl. enqueueRequestFrame stored_codec (client_settings sample_agreed) 4096 7 1 500 None [5]
       PolicyDefault [] = Inr (wire, 4056)
   \<and> read_frame wire (max_body_len sample_agreed) = Inr (frame, [])
   \<and> request_task stored_codec sample_router sample_agreed eager_policy None frame None (sample_stream_env Ready 0) sample_budget
       = [response]
   \<and> write_frame [] (prepare_outbound stored_codec sample_agreed (connection_compression_policy sample_agreed eager_policy) response)
       = Inr bs
   \<and> reader_turn stored_codec (client_settings sample_agreed) (\<lambda>_. 0)
       (java_view (prepare_outbound stored_codec sample_agreed (connection_compression_policy sample_agreed eager_policy) response))
       sample_client = Inr ([CallCompleted 1 [5]], cl)"
proof -
  obtain wire where w: "enqueueRequestFrame stored_codec (client_settings sample_agreed) 4096 7 1 500 None [5] PolicyDefault
      (metadata_build []) = Inr (wire, 4056)" using sample_enqueued by (auto simp: metadata_build_def)
  have v: "settings_valid settings_default"
    by (simp add: settings_valid_def settings_default_def DEFAULT_MAX_BODY_LEN_def DEFAULT_MAX_IN_FLIGHT_def
        COMPRESSION_CODEC_NONE_def COMPRESSION_CODEC_ZSTD_def)
  have s: "middleware sample_router = []" "bt_get (handlers sample_router) (word_of_int 7) = Some (\<lambda>x. Returned (Inr x))"
    "\<not> is_streaming sample_router (word_of_int 7)" "completes (Some (nat 500)) (env_takes (se_base (sample_stream_env Ready 0)))"
    by (simp_all add: bt_get_def is_streaming_def bt_contains_def completes_def)
  have c: "client_ready 7 1 (length [5 :: u8]) sample_client" by (simp add: client_ready_def sample_client_def int_max_def)
  have b: "budget_wf sample_budget" "used sample_budget + length [5 :: u8] \<le> capacity sample_budget"
    by (simp_all add: sample_budget_def budget_wf_def usize_max_def)
  have n: "2 \<le> unat (max_body_len sample_agreed)" "length [5 :: u8] \<le> unat (max_decoded_body_len sample_agreed)"
    "19 \<le> unat (max_metadata_len sample_agreed)" "length [5 :: u8] + 23 \<le> unat (max_body_len sample_agreed)"
    by (simp_all add: sample_agreed_sel)
  have p: "unat (max_expansion_ratio eager_policy) = 64" by (simp add: eager_policy_def compression_policy_default_def)
  have z: "\<forall>x l. zstd_compress stored_codec x l \<noteq> None" by (simp add: stored_codec_def)
  show ?thesis
    using java_call_end_to_end [OF v sample_agreed_def n(1) stored_codec_laws b run_puts.simps(1) _ _ _ _ _ _ _ _ _ p s(1,2) refl s(3,4)
        n(2) c w, of None None "\<lambda>_. 0"] w n z by (simp add: int_max_def metadata_build_def) blast
qed

end
